(* ===== verification/Prelude.thy ===== *)
theory Prelude
  imports Main "HOL-Library.Word" "HOL-Library.Sublist"
begin

text \<open>
  Shared vocabulary of the development: the names the models use for Rust's
  machine types, results and options, the generic theory of reachable states
  and of runs of atomic operations, and the list lemmas several components
  share.  Nothing here models a line of the program; the components do.
\<close>

section \<open>Types\<close>

text \<open>
  A Rust \<open>u8\<close> is HOL's eight bit \<open>char\<close>, so a \<open>Vec<u8>\<close> and a \<open>String\<close>
  (UTF-8 bytes) are both \<open>string\<close>, and \<open>as_bytes\<close> is the identity.
  Fixed width integers are words.  Byte counts of data that is held in memory
  (\<open>usize\<close> lengths) are \<open>nat\<close>: no queue can hold more than the address space.
  Durations and instants are nanoseconds.
\<close>

type_synonym byte = char
type_synonym bytes = string
type_synonym u16 = "16 word"
type_synonym u64 = "64 word"
type_synonym duration = nat
type_synonym instant = nat

type_synonym ('e, 'a) result = "'e + 'a"

section \<open>Options and results\<close>

text \<open>The question mark operator: the first error ends the computation.\<close>

definition and_then :: "('e, 'a) result \<Rightarrow> ('a \<Rightarrow> ('e, 'b) result) \<Rightarrow> ('e, 'b) result" where
  "and_then r f = (case r of Inl e \<Rightarrow> Inl e | Inr a \<Rightarrow> f a)"

definition ok_or :: "'a option \<Rightarrow> 'e \<Rightarrow> ('e, 'a) result" where
  "ok_or v e = (case v of None \<Rightarrow> Inl e | Some a \<Rightarrow> Inr a)"

definition or_else :: "'a option \<Rightarrow> 'a option \<Rightarrow> 'a option" where
  "or_else v w = (case v of None \<Rightarrow> w | Some a \<Rightarrow> Some a)"

definition unwrap_or :: "'a option \<Rightarrow> 'a \<Rightarrow> 'a" where
  "unwrap_or v d = (case v of None \<Rightarrow> d | Some a \<Rightarrow> a)"

definition opt_filter :: "('a \<Rightarrow> bool) \<Rightarrow> 'a option \<Rightarrow> 'a option" where
  "opt_filter p v = (case v of None \<Rightarrow> None | Some a \<Rightarrow> if p a then Some a else None)"

text \<open>\<open>Option::get_or_insert\<close> read as a state change: what is there stays.\<close>

definition get_or_insert :: "'a option \<Rightarrow> 'a \<Rightarrow> 'a option" where
  "get_or_insert v d = (case v of None \<Rightarrow> Some d | Some a \<Rightarrow> Some a)"

named_theorems result_simps \<open>how the option and result combinators compute\<close>

lemma and_then_simps [simp, result_simps]:
  "and_then (Inl e) f = Inl e"
  "and_then (Inr a) f = f a"
  by (simp_all add: and_then_def)

lemma and_then_Inr_iff [result_simps]:
  "and_then r f = Inr b \<longleftrightarrow> (\<exists>a. r = Inr a \<and> f a = Inr b)"
  by (cases r) auto

lemma map_sum_Inr_iff [result_simps]: "map_sum f id x = Inr a \<longleftrightarrow> x = Inr a"
  by (cases x) auto

lemma ok_or_simps [simp, result_simps]:
  "ok_or None e = Inl e"
  "ok_or (Some a) e = Inr a"
  by (simp_all add: ok_or_def)

lemma ok_or_Inr_iff [result_simps]: "ok_or v e = Inr a \<longleftrightarrow> v = Some a"
  by (cases v) auto

lemma or_else_simps [simp, result_simps]:
  "or_else None w = w"
  "or_else (Some a) w = Some a"
  by (simp_all add: or_else_def)

lemma unwrap_or_simps [simp, result_simps]:
  "unwrap_or None d = d"
  "unwrap_or (Some a) d = a"
  by (simp_all add: unwrap_or_def)

lemma opt_filter_simps [simp, result_simps]:
  "opt_filter p None = None"
  "opt_filter p (Some a) = (if p a then Some a else None)"
  by (simp_all add: opt_filter_def)

lemma opt_filter_Some_iff [result_simps]: "opt_filter p v = Some a \<longleftrightarrow> v = Some a \<and> p a"
  by (cases v) auto

lemma get_or_insert_simps [simp, result_simps]:
  "get_or_insert None d = Some d"
  "get_or_insert (Some a) d = Some a"
  by (simp_all add: get_or_insert_def)

lemma get_or_insert_not_None [simp]:
  "get_or_insert v d \<noteq> None" "None \<noteq> get_or_insert v d" "\<exists>y. get_or_insert v d = Some y"
  by (cases v; simp)+

section \<open>Reachable states\<close>

inductive reachable :: "('s \<Rightarrow> bool) \<Rightarrow> ('s \<Rightarrow> 's \<Rightarrow> bool) \<Rightarrow> 's \<Rightarrow> bool"
  for init :: "'s \<Rightarrow> bool" and step :: "'s \<Rightarrow> 's \<Rightarrow> bool" where
  reachable_init: "init s \<Longrightarrow> reachable init step s"
| reachable_step: "reachable init step s \<Longrightarrow> step s t \<Longrightarrow> reachable init step t"

text \<open>
  The interface of an invariant: it holds at the start and every step keeps it.
  Every client lemma about reachable states is proved here once, and each
  transition system of the development interprets the locale on its own steps.
\<close>

locale inductive_invariant =
  fixes init :: "'s \<Rightarrow> bool"
    and step :: "'s \<Rightarrow> 's \<Rightarrow> bool"
    and inv :: "'s \<Rightarrow> bool"
  assumes inv_init: "init s \<Longrightarrow> inv s"
    and inv_step: "inv s \<Longrightarrow> step s t \<Longrightarrow> inv t"
begin

lemma inv_reachable: "reachable init step s \<Longrightarrow> inv s"
  by (induction rule: reachable.induct) (auto intro: inv_init inv_step)

lemma inv_rtrancl: "inv s \<Longrightarrow> step\<^sup>*\<^sup>* s t \<Longrightarrow> inv t"
  by (rotate_tac 1, induction rule: rtranclp_induct) (auto intro: inv_step)

lemma reachable_next_inv: "reachable init step s \<Longrightarrow> step s t \<Longrightarrow> inv t"
  by (blast intro: inv_step inv_reachable)

end

section \<open>Runs of atomic operations\<close>

text \<open>
  Operations that take a lock are atomic, so every interleaving of the threads
  that share an object is some sequence of them.  A property of all
  interleavings is a property of every such sequence.
\<close>

fun run :: "('op \<Rightarrow> 's \<Rightarrow> 's) \<Rightarrow> 'op list \<Rightarrow> 's \<Rightarrow> 's" where
  "run f [] s = s"
| "run f (x # xs) s = run f xs (f x s)"

lemma run_append [simp]: "run f (xs @ ys) s = run f ys (run f xs s)"
  by (induction xs arbitrary: s) auto

locale operation_invariant =
  fixes act :: "'op \<Rightarrow> 's \<Rightarrow> 's"
    and inv :: "'s \<Rightarrow> bool"
  assumes inv_act: "inv s \<Longrightarrow> inv (act x s)"
begin

lemma inv_run: "inv s \<Longrightarrow> inv (run act xs s)"
  by (induction xs arbitrary: s) (auto intro: inv_act)

end

text \<open>
  The contract of a cell that is written at most once, as Rust's \<open>OnceLock\<close>:
  whatever happens, a value it holds stays.
\<close>

locale write_once =
  fixes act :: "'op \<Rightarrow> 's \<Rightarrow> 's"
    and cell :: "'s \<Rightarrow> 'v option"
  assumes cell_kept: "cell s = Some v \<Longrightarrow> cell (act x s) = Some v"
begin

lemma cell_kept_run: "cell s = Some v \<Longrightarrow> cell (run act xs s) = Some v"
  by (induction xs arbitrary: s) (auto simp: cell_kept)

lemma cell_agrees: "cell (run act xs s) = Some v \<Longrightarrow> cell (run act (xs @ ys) s) = Some w \<Longrightarrow> v = w"
  using cell_kept_run by fastforce

end

text \<open>What a run emits: \<open>emit\<close> says what one operation produces in the state it meets.\<close>

fun emitted :: "('op \<Rightarrow> 's \<Rightarrow> 's) \<Rightarrow> ('op \<Rightarrow> 's \<Rightarrow> 'a list) \<Rightarrow> 'op list \<Rightarrow> 's \<Rightarrow> 'a list" where
  "emitted f emit [] s = []"
| "emitted f emit (x # xs) s = emit x s @ emitted f emit xs (f x s)"

lemma emitted_append [simp]:
  "emitted f emit (xs @ ys) s = emitted f emit xs s @ emitted f emit ys (run f xs s)"
  by (induction xs arbitrary: s) auto

text \<open>
  The contract of a queue that may be torn down: while it lives, what it accepts
  goes in at the back and what it hands out comes from the front; once it is
  dead it stays dead, holds nothing, and neither accepts nor hands out.
\<close>

locale fifo_channel = operation_invariant act inv
  for act :: "'op \<Rightarrow> 's \<Rightarrow> 's" and inv :: "'s \<Rightarrow> bool" +
  fixes queue :: "'s \<Rightarrow> 'a list"
    and accepts :: "'op \<Rightarrow> 's \<Rightarrow> 'a list"
    and hands_out :: "'op \<Rightarrow> 's \<Rightarrow> 'a list"
    and dead :: "'s \<Rightarrow> bool"
  assumes live_fifo: "inv s \<Longrightarrow> \<not> dead s \<Longrightarrow> \<not> dead (act x s) \<Longrightarrow>
      queue s @ accepts x s = hands_out x s @ queue (act x s)"
    and dies_quietly: "inv s \<Longrightarrow> \<not> dead s \<Longrightarrow> dead (act x s) \<Longrightarrow>
      prefix (hands_out x s) (queue s @ accepts x s)"
    and stays_dead: "dead s \<Longrightarrow> dead (act x s)"
    and dead_silent: "inv s \<Longrightarrow> dead s \<Longrightarrow> accepts x s = [] \<and> hands_out x s = []"
begin

lemma dead_run: "dead s \<Longrightarrow> dead (run act xs s)"
  by (induction xs arbitrary: s) (auto simp: stays_dead)

lemma dead_run_silent:
  "inv s \<Longrightarrow> dead s \<Longrightarrow> emitted act accepts xs s = [] \<and> emitted act hands_out xs s = []"
  by (induction xs arbitrary: s) (auto simp: stays_dead dead_silent inv_act)

lemma live_conserves:
  "inv s \<Longrightarrow> \<not> dead (run act xs s) \<Longrightarrow>
   queue s @ emitted act accepts xs s = emitted act hands_out xs s @ queue (run act xs s)"
proof (induction xs arbitrary: s)
  case (Cons x xs)
  have "\<not> dead (act x s)" and "\<not> dead s"
    using Cons.prems dead_run [of "act x s" xs] stays_dead by auto
  then have "queue s @ accepts x s = hands_out x s @ queue (act x s)"
    using live_fifo Cons.prems by blast
  then show ?case
    using Cons.IH [of "act x s"] Cons.prems inv_act
    by (metis append.assoc emitted.simps(2) run.simps(2))
qed simp

lemma hands_out_prefix:
  "inv s \<Longrightarrow> prefix (emitted act hands_out xs s) (queue s @ emitted act accepts xs s)"
proof (induction xs arbitrary: s)
  case (Cons x xs)
  consider "dead s" | "\<not> dead s" "dead (act x s)" | "\<not> dead s" "\<not> dead (act x s)"
    by blast
  then show ?case
  proof cases
    case 1
    then show ?thesis
      using dead_run_silent [of s "x # xs"] Cons.prems by simp
  next
    case 2
    then show ?thesis
      using dies_quietly [OF Cons.prems 2] dead_run_silent [OF inv_act [OF Cons.prems] 2(2), of xs]
      by simp
  next
    case 3
    have "queue s @ emitted act accepts (x # xs) s = (queue s @ accepts x s) @ emitted act accepts xs (act x s)"
      by simp
    also have "\<dots> = hands_out x s @ queue (act x s) @ emitted act accepts xs (act x s)"
      unfolding live_fifo [OF Cons.prems 3] by simp
    finally show ?thesis
      using Cons.IH [OF inv_act [OF Cons.prems]] by (metis emitted.simps(2) same_prefix_prefix)
  qed
qed simp

end

section \<open>Lists of bytes\<close>

text \<open>How many bytes a list of pieces holds, as \<open>iter().map(len).sum()\<close> counts them.\<close>

definition total_len :: "'a list list \<Rightarrow> nat" where
  "total_len xss = sum_list (map length xss)"

lemma total_len_simps [simp]:
  "total_len [] = 0"
  "total_len (xs # xss) = length xs + total_len xss"
  "total_len (xss @ yss) = total_len xss + total_len yss"
  by (simp_all add: total_len_def)

lemma length_concat_total: "length (concat xss) = total_len xss"
  by (induction xss) auto

lemma total_len_0_iff: "total_len xss = 0 \<longleftrightarrow> concat xss = []"
  by (induction xss) auto

lemma take_append_take_drop: "take n xs @ take m (drop n xs) = take (n + m) xs"
  by (simp add: take_add)

lemma sum_list_filter_if:
  "sum_list (map (\<lambda>x. if P x then f x else 0) xs) = sum_list (map f (filter P xs))"
  for f :: "'a \<Rightarrow> nat"
  by (induction xs) auto

lemma count_list_append_single [simp]:
  "count_list (xs @ [y]) x = count_list xs x + (if y = x then 1 else 0)"
  by (induction xs) auto

end
