(* ===== verification/Budget.thy ===== *)
theory Budget
  imports Prelude "HOL-Library.Multiset"
begin

text \<open>
  The admission ceiling of src/src/budget.rs.  Its only shared state is one
  atomic counter; \<open>take\<close> is a compare-exchange loop that any number of threads
  run at once, and a lease gives back what it holds when it is dropped.

  The loop is modelled twice: as the function one thread runs against whatever
  the memory answers (\<open>take_loop\<close>), and as a step relation on the threads that
  share the counter (\<open>budget_step\<close>), where a relaxed load may return any value
  the counter ever had and a weak exchange may fail for no reason.  Only the
  exchange itself reads the newest value, as the memory model guarantees for a
  read-modify-write.
\<close>

section \<open>The counter and the loop of one thread\<close>

record ceiling =
  used :: u64
  capacity :: u64

record lease =
  held :: u64

definition new_budget :: "u64 \<Rightarrow> ceiling" where
  "new_budget cap = \<lparr> used = 0, capacity = cap \<rparr>"

definition saturating_sub :: "u64 \<Rightarrow> u64 \<Rightarrow> u64" where
  "saturating_sub a b = (if b \<le> a then a - b else 0)"

definition does_not_fit :: "u64 \<Rightarrow> u64 \<Rightarrow> u64 \<Rightarrow> bool" where
  "does_not_fit cap seen amount \<longleftrightarrow> amount > saturating_sub cap seen"

text \<open>What one weak compare-exchange answers.\<close>

datatype exchange = Exchanged | Observed u64

text \<open>
  The loop of \<open>take\<close> after its first load: \<^term>\<open>None\<close> when it has not returned
  after the given answers, otherwise whether it took the amount.
\<close>

fun take_loop :: "u64 \<Rightarrow> u64 \<Rightarrow> u64 \<Rightarrow> exchange list \<Rightarrow> bool option" where
  "take_loop cap amount seen answers =
     (if does_not_fit cap seen amount then Some False
      else case answers of
             [] \<Rightarrow> None
           | Exchanged # _ \<Rightarrow> Some True
           | Observed observed # rest \<Rightarrow> take_loop cap amount observed rest)"

declare take_loop.simps [simp del]

text \<open>The exchange writes \<open>used + amount\<close>, at the width of the counter.\<close>

definition try_acquire :: "u64 \<Rightarrow> ceiling \<Rightarrow> lease option \<times> ceiling" where
  "try_acquire amount c =
     (if does_not_fit (capacity c) (used c) amount then (None, c)
      else (Some \<lparr> held = amount \<rparr>, c\<lparr>used := used c + amount\<rparr>))"

definition budget_used :: "ceiling \<Rightarrow> u64" where
  "budget_used c = used c"

text \<open>Dropping a lease: the counter it leaves and whether the debug assertion held.\<close>

definition drop_lease :: "lease \<Rightarrow> ceiling \<Rightarrow> bool \<times> ceiling" where
  "drop_lease l c = (held l \<le> used c, c\<lparr>used := used c - held l\<rparr>)"

section \<open>Threads that share the counter\<close>

text \<open>
  Where a thread inside \<open>try_acquire\<close> is: it has seen a value and is about to
  compare, or its comparison passed and it is about to exchange.
\<close>

datatype taker =
    Idle
  | Comparing u64 u64
  | Exchanging u64 u64
  | Refused u64

record budget_world =
  ceil :: ceiling
  takers :: "nat \<Rightarrow> taker"
  leases :: "lease multiset"
  history :: "u64 set"

definition budget_start :: "u64 \<Rightarrow> budget_world \<Rightarrow> bool" where
  "budget_start cap w \<longleftrightarrow>
     w = \<lparr> ceil = new_budget cap, takers = (\<lambda>_. Idle), leases = {#}, history = {0} \<rparr>"

text \<open>
  \<open>history\<close> collects every value the counter had; it only serves to say which
  values a stale load may return.
\<close>

definition write_used :: "u64 \<Rightarrow> budget_world \<Rightarrow> budget_world" where
  "write_used v w = w\<lparr>ceil := (ceil w)\<lparr>used := v\<rparr>, history := insert v (history w)\<rparr>"

definition set_taker :: "nat \<Rightarrow> taker \<Rightarrow> budget_world \<Rightarrow> budget_world" where
  "set_taker t p w = w\<lparr>takers := (takers w)(t := p)\<rparr>"

inductive budget_step :: "budget_world \<Rightarrow> budget_world \<Rightarrow> bool" where
  load: "takers w t \<in> {Idle, Refused a} \<Longrightarrow> v \<in> history w \<Longrightarrow>
    budget_step w (set_taker t (Comparing amount v) w)"
| refuse: "takers w t = Comparing amount v \<Longrightarrow> does_not_fit (capacity (ceil w)) v amount \<Longrightarrow>
    budget_step w (set_taker t (Refused amount) w)"
| fits: "takers w t = Comparing amount v \<Longrightarrow> \<not> does_not_fit (capacity (ceil w)) v amount \<Longrightarrow>
    budget_step w (set_taker t (Exchanging amount v) w)"
| exchanged: "takers w t = Exchanging amount v \<Longrightarrow> used (ceil w) = v \<Longrightarrow>
    budget_step w (set_taker t Idle (write_used (v + amount) w)\<lparr>leases := add_mset \<lparr>held = amount\<rparr> (leases w)\<rparr>)"
| observed: "takers w t = Exchanging amount v \<Longrightarrow> v' \<in> history w \<Longrightarrow>
    budget_step w (set_taker t (Comparing amount v') w)"
| dropped: "l \<in># leases w \<Longrightarrow>
    budget_step w ((write_used (used (ceil w) - held l) w)\<lparr>leases := leases w - {#l#}\<rparr>)"

inductive_cases budget_stepE: "budget_step w w'"

section \<open>What is lent out\<close>

definition lent :: "lease multiset \<Rightarrow> nat" where
  "lent ls = (\<Sum>l \<in># ls. unat (held l))"

lemma lent_simps [simp]:
  "lent {#} = 0"
  "lent (add_mset l ls) = unat (held l) + lent ls"
  by (simp_all add: lent_def)

lemma lent_remove: "l \<in># ls \<Longrightarrow> lent ls = unat (held l) + lent (ls - {#l#})"
  by (metis insert_DiffM lent_simps(2))

lemma does_not_fit_iff:
  "does_not_fit cap seen amount \<longleftrightarrow> unat amount > unat cap - unat seen"
proof (cases "seen \<le> cap")
  case True
  then show ?thesis
    by (simp add: does_not_fit_def saturating_sub_def word_less_nat_alt unat_sub)
next
  case False
  then have "unat cap - unat seen = 0"
    by (simp add: word_le_nat_alt)
  with False show ?thesis
    by (simp add: does_not_fit_def saturating_sub_def word_less_nat_alt)
qed

lemma fits_no_wrap:
  fixes seen amount cap :: u64
  assumes "\<not> does_not_fit cap seen amount" and "unat seen \<le> unat cap"
  shows "unat (seen + amount) = unat seen + unat amount"
    and "unat (seen + amount) \<le> unat cap"
proof -
  have sum: "unat seen + unat amount \<le> unat cap"
    using assms by (simp add: does_not_fit_iff)
  moreover have "unat cap < 2 ^ LENGTH(64)"
    by (rule unsigned_less)
  ultimately have "unat seen + unat amount < 2 ^ LENGTH(64)"
    by linarith
  then show "unat (seen + amount) = unat seen + unat amount"
    by (simp add: unat_word_ariths)
  with sum show "unat (seen + amount) \<le> unat cap"
    by simp
qed

section \<open>The interface admission relies on\<close>

text \<open>
  What a client of a bounded counter may rely on: an amount is lent exactly when
  it fits, what is lent is counted, and giving it back restores the count.
\<close>

locale bounded_counter =
  fixes acquire :: "'n \<Rightarrow> 's \<Rightarrow> 'l option \<times> 's"
    and release :: "'l \<Rightarrow> 's \<Rightarrow> 's"
    and count :: "'s \<Rightarrow> nat"
    and bound :: "'s \<Rightarrow> nat"
    and amount_of :: "'n \<Rightarrow> nat"
    and lease_of :: "'l \<Rightarrow> nat"
  assumes acquire_refuses: "acquire n s = (None, t) \<Longrightarrow> t = s \<and> bound s < count s + amount_of n"
    and acquire_lends: "acquire n s = (Some l, t) \<Longrightarrow> count s \<le> bound s \<Longrightarrow>
      count t = count s + amount_of n \<and> lease_of l = amount_of n \<and> count t \<le> bound t \<and> bound t = bound s"
    and release_restores: "lease_of l \<le> count s \<Longrightarrow>
      count (release l s) = count s - lease_of l \<and> bound (release l s) = bound s"
begin

lemma acquire_iff_fits:
  assumes "count s \<le> bound s"
  shows "fst (acquire n s) \<noteq> None \<longleftrightarrow> count s + amount_of n \<le> bound s"
proof (cases "acquire n s")
  case (Pair r t)
  then show ?thesis
    using assms acquire_refuses [of n s t] acquire_lends [of n s _ t]
    by (cases r) force+
qed

lemma acquire_release:
  assumes "acquire n s = (Some l, t)" and "count s \<le> bound s"
  shows "count (release l t) = count s" and "bound (release l t) = bound s"
  using acquire_lends [OF assms] release_restores [of l t] by auto

lemma acquire_keeps_bound: "count s \<le> bound s \<Longrightarrow> count (snd (acquire n s)) \<le> bound (snd (acquire n s))"
  using acquire_refuses [of n s] acquire_lends [of n s]
  by (cases "acquire n s"; cases "fst (acquire n s)") auto

end

definition used_count :: "ceiling \<Rightarrow> nat" where
  "used_count c = unat (used c)"

definition capacity_count :: "ceiling \<Rightarrow> nat" where
  "capacity_count c = unat (capacity c)"

interpretation budget: bounded_counter try_acquire "\<lambda>l::lease. \<lambda>c. snd (drop_lease l c)"
  used_count capacity_count unat "\<lambda>l::lease. unat (held l)"
proof unfold_locales
  fix n s t assume "try_acquire n s = (None, t)"
  then show "t = s \<and> capacity_count s < used_count s + unat n"
    by (auto simp: try_acquire_def does_not_fit_iff used_count_def capacity_count_def split: if_splits)
next
  fix n s l t assume "try_acquire n s = (Some l, t)" and "used_count s \<le> capacity_count s"
  then show "used_count t = used_count s + unat n \<and> unat (held l) = unat n \<and>
      used_count t \<le> capacity_count t \<and> capacity_count t = capacity_count s"
    using fits_no_wrap [of "capacity s" "used s" n]
    by (auto simp: try_acquire_def used_count_def capacity_count_def split: if_splits)
next
  fix l :: lease and s assume "unat (held l) \<le> used_count s"
  then show "used_count (snd (drop_lease l s)) = used_count s - unat (held l) \<and>
      capacity_count (snd (drop_lease l s)) = capacity_count s"
    by (simp add: drop_lease_def used_count_def capacity_count_def unat_sub word_le_nat_alt)
qed

section \<open>The invariant of every interleaving\<close>

definition budget_inv :: "u64 \<Rightarrow> budget_world \<Rightarrow> bool" where
  "budget_inv cap w \<longleftrightarrow>
     capacity (ceil w) = cap \<and>
     unat (used (ceil w)) = lent (leases w) \<and>
     lent (leases w) \<le> unat cap \<and>
     used (ceil w) \<in> history w \<and>
     (\<forall>t amount v. takers w t = Exchanging amount v \<longrightarrow> \<not> does_not_fit cap v amount) \<and>
     (\<forall>t amount v. takers w t = Comparing amount v \<longrightarrow> v \<in> history w) \<and>
     (\<forall>t amount. takers w t = Refused amount \<longrightarrow> (\<exists>v \<in> history w. does_not_fit cap v amount))"

lemma budget_world_simps [simp]:
  "ceil (set_taker t p w) = ceil w" "leases (set_taker t p w) = leases w"
  "history (set_taker t p w) = history w" "takers (set_taker t p w) = (takers w)(t := p)"
  "ceil (write_used v w) = (ceil w)\<lparr>used := v\<rparr>" "leases (write_used v w) = leases w"
  "history (write_used v w) = insert v (history w)" "takers (write_used v w) = takers w"
  by (simp_all add: set_taker_def write_used_def)

lemma budget_inv_exchanged:
  assumes inv: "budget_inv cap w" and t: "takers w t = Exchanging amount v" and cur: "used (ceil w) = v"
  shows "budget_inv cap
    (set_taker t Idle (write_used (v + amount) w)\<lparr>leases := add_mset \<lparr>held = amount\<rparr> (leases w)\<rparr>)"
proof -
  have "\<not> does_not_fit cap v amount" and "unat v \<le> unat cap"
    using inv t cur by (auto simp: budget_inv_def)
  note room = fits_no_wrap [OF this]
  show ?thesis
    using inv t cur room by (auto simp: budget_inv_def)
qed

lemma budget_inv_dropped:
  assumes inv: "budget_inv cap w" and l: "l \<in># leases w"
  shows "budget_inv cap ((write_used (used (ceil w) - held l) w)\<lparr>leases := leases w - {#l#}\<rparr>)"
proof -
  have "unat (held l) \<le> unat (used (ceil w))"
    using inv lent_remove [OF l] by (simp add: budget_inv_def)
  then have "unat (used (ceil w) - held l) = unat (used (ceil w)) - unat (held l)"
    by (simp add: unat_sub word_le_nat_alt)
  then show ?thesis
    using inv lent_remove [OF l] by (auto simp: budget_inv_def)
qed

interpretation budget_runs: inductive_invariant "budget_start cap" budget_step "budget_inv cap" for cap
proof unfold_locales
  fix w assume "budget_start cap w"
  then show "budget_inv cap w"
    by (simp add: budget_start_def budget_inv_def new_budget_def)
next
  fix w w' assume inv: "budget_inv cap w" and "budget_step w w'"
  from this(2) show "budget_inv cap w'"
  proof cases
    case (refuse t amount v)
    then show ?thesis
      using inv by (auto simp: budget_inv_def split: if_splits)
  next
    case (exchanged t amount v)
    then show ?thesis
      using budget_inv_exchanged [OF inv exchanged(2,3)] by simp
  next
    case (dropped l)
    then show ?thesis
      using budget_inv_dropped [OF inv dropped(2)] by simp
  qed (use inv in \<open>auto simp: budget_inv_def split: if_splits\<close>)
qed

lemmas budget_reachable = budget_runs.inv_reachable [unfolded budget_inv_def]

section \<open>Refinement of the atomic counter\<close>

text \<open>
  What the counter promises: it lends an amount if it fits, takes a lease back,
  and otherwise nothing happens.  The state is just the outstanding leases.
\<close>

inductive ceiling_spec :: "nat \<Rightarrow> lease multiset \<Rightarrow> lease multiset \<Rightarrow> bool" for cap where
  lend: "lent (add_mset l ls) \<le> cap \<Longrightarrow> ceiling_spec cap ls (add_mset l ls)"
| return: "l \<in># ls \<Longrightarrow> ceiling_spec cap ls (ls - {#l#})"
| stutter: "ceiling_spec cap ls ls"

lemma budget_step_refines:
  assumes inv: "budget_inv cap w" and step: "budget_step w w'"
  shows "ceiling_spec (unat cap) (leases w) (leases w')"
  using step
proof cases
  case (exchanged t amount v)
  have "budget_inv cap w'"
    using budget_runs.inv_step [OF inv step] .
  then show ?thesis
    using exchanged by (auto simp: budget_inv_def intro: ceiling_spec.lend)
next
  case (dropped l)
  then show ?thesis
    by (auto intro: ceiling_spec.return)
qed (auto intro: ceiling_spec.stutter)

text \<open>Every value a load may return is one the counter had at an earlier moment of the run.\<close>

lemma history_was_used:
  assumes "reachable (budget_start cap) budget_step w" and "v \<in> history w"
  shows "\<exists>w0. reachable (budget_start cap) budget_step w0 \<and> budget_step\<^sup>*\<^sup>* w0 w \<and> used (ceil w0) = v"
  using assms
proof (induction arbitrary: v rule: reachable.induct)
  case (reachable_init w)
  then show ?case
    by (auto simp: budget_start_def new_budget_def intro!: exI [of _ w] reachable.reachable_init)
next
  case (reachable_step w w')
  show ?case
  proof (cases "v = used (ceil w')")
    case True
    then show ?thesis
      using reachable_step.hyps by (blast intro: reachable.reachable_step)
  next
    case False
    from reachable_step.hyps(2) reachable_step.prems False have "v \<in> history w"
      by (cases rule: budget_step.cases) auto
    then show ?thesis
      using reachable_step.IH reachable_step.hyps(2) by (blast intro: rtranclp.rtrancl_into_rtrancl)
  qed
qed

text \<open>The loop of one thread: it returns as soon as its exchange succeeds or a value leaves no room.\<close>

lemma take_loop_verdict:
  "take_loop cap amount seen (map Observed vs @ [Exchanged]) =
     Some (list_all (\<lambda>v. \<not> does_not_fit cap v amount) (seen # vs))"
  by (induction vs arbitrary: seen) (simp_all add: take_loop.simps)

section \<open>Properties\<close>

text \<open>
  C12. However the threads interleave, and however stale their loads are, the
  counter is exactly the sum of the outstanding leases, never passes the
  capacity (so the addition never wraps), reads zero once every lease has been
  dropped, and the assertion in the release of any outstanding lease holds.
\<close>

theorem budget_counts_leases:
  assumes "reachable (budget_start cap) budget_step w"
  shows "unat (used (ceil w)) = lent (leases w) \<and> lent (leases w) \<le> unat cap \<and>
    (leases w = {#} \<longrightarrow> used (ceil w) = 0) \<and>
    (\<forall>l. l \<in># leases w \<longrightarrow> fst (drop_lease l (ceil w)))"
proof -
  note inv = budget_reachable [OF assms]
  have "fst (drop_lease l (ceil w))" if "l \<in># leases w" for l
    using inv lent_remove [OF that] by (simp add: drop_lease_def word_le_nat_alt)
  moreover have "used (ceil w) = 0" if "leases w = {#}"
    using inv that by (simp add: unat_eq_zero)
  ultimately show ?thesis
    using inv by blast
qed

definition budget_example :: budget_world where
  "budget_example = (set_taker 0 Idle (write_used (0 + 3)
      (set_taker 0 (Exchanging 3 0) (set_taker 0 (Comparing 3 0)
         \<lparr> ceil = new_budget 4, takers = (\<lambda>_. Idle), leases = {#}, history = {0} \<rparr>))))
      \<lparr>leases := {#\<lparr>held = 3\<rparr>#}\<rparr>"

lemma budget_example_reachable: "reachable (budget_start 4) budget_step budget_example"
proof -
  let ?w0 = "\<lparr> ceil = new_budget 4, takers = (\<lambda>_. Idle), leases = {#}, history = {0} \<rparr> :: budget_world"
  let ?w1 = "set_taker 0 (Comparing 3 0) ?w0"
  let ?w2 = "set_taker 0 (Exchanging 3 0) ?w1"
  have "reachable (budget_start 4) budget_step ?w0"
    by (rule reachable.reachable_init) (simp add: budget_start_def)
  moreover have "budget_step ?w0 ?w1"
    by (rule budget_step.load [where a = 0]) auto
  moreover have "budget_step ?w1 ?w2"
    by (rule budget_step.fits) (auto simp: does_not_fit_def saturating_sub_def new_budget_def)
  moreover have "budget_step ?w2 budget_example"
    using budget_step.exchanged [of ?w2 0 3 0] by (simp add: budget_example_def new_budget_def)
  ultimately show ?thesis
    by (blast intro: reachable.reachable_step)
qed

theorem budget_counts_leases_witness:
  "unat (used (ceil budget_example)) = 3 \<and> fst (drop_lease \<lparr>held = 3\<rparr> (ceil budget_example))"
  using budget_counts_leases [OF budget_example_reachable] by (simp add: budget_example_def)


definition budget_example_dropped :: budget_world where
  "budget_example_dropped = (write_used (used (ceil budget_example) - 3) budget_example)\<lparr>leases := {#}\<rparr>"


text \<open>
  A refusal is never made up: when a thread has been refused an amount, there
  was an earlier moment of the same run at which the outstanding leases left no
  room for it.
\<close>

theorem budget_refusal_justified:
  assumes "reachable (budget_start cap) budget_step w" and "takers w t = Refused amount"
  shows "\<exists>w0. reachable (budget_start cap) budget_step w0 \<and> budget_step\<^sup>*\<^sup>* w0 w \<and>
    unat cap < lent (leases w0) + unat amount"
proof -
  obtain v where "v \<in> history w" and full: "does_not_fit cap v amount"
    using budget_reachable [OF assms(1)] assms(2) by blast
  then obtain w0 where w0: "reachable (budget_start cap) budget_step w0" "budget_step\<^sup>*\<^sup>* w0 w" "used (ceil w0) = v"
    using history_was_used [OF assms(1)] by blast
  moreover have "unat cap < lent (leases w0) + unat amount"
    using budget_reachable [OF w0(1)] w0(3) full by (auto simp: does_not_fit_iff)
  ultimately show ?thesis
    by blast
qed

definition budget_example_refused :: budget_world where
  "budget_example_refused = set_taker 1 (Refused 2) (set_taker 1 (Comparing 2 3) budget_example)"

theorem budget_refusal_justified_witness:
  "\<exists>w0. reachable (budget_start 4) budget_step w0 \<and> 4 < lent (leases w0) + 2"
proof -
  let ?w1 = "set_taker 1 (Comparing 2 3) budget_example"
  have "budget_step budget_example ?w1"
    by (rule budget_step.load [where a = 0]) (auto simp: budget_example_def)
  moreover have "budget_step ?w1 budget_example_refused"
    unfolding budget_example_refused_def
    by (rule budget_step.refuse)
      (auto simp: does_not_fit_def saturating_sub_def budget_example_def new_budget_def)
  ultimately have "reachable (budget_start 4) budget_step budget_example_refused"
    by (blast intro: reachable.reachable_step budget_example_reachable)
  from budget_refusal_justified [OF this, of 1 2] show ?thesis
    by (auto simp: budget_example_refused_def)
qed

end
