(* ===== verification/Rust_Text.thy ===== *)
theory Rust_Text
  imports Prelude
begin

text \<open>
  The string operations of Rust's standard library that the program calls:
  ASCII case, splitting at a separator, trimming, decimal numbers and the lossy
  UTF-8 decoding of what Envoy hands over.  A \<open>str\<close> is its UTF-8 bytes; every
  separator the program uses is ASCII and so never splits a code point.
\<close>

section \<open>ASCII case\<close>

definition byte_val :: "byte \<Rightarrow> nat" where
  "byte_val c = of_char c"

definition byte_of :: "nat \<Rightarrow> byte" where
  "byte_of n = char_of n"

definition to_ascii_lowercase :: "byte \<Rightarrow> byte" where
  "to_ascii_lowercase c =
     (if 65 \<le> byte_val c \<and> byte_val c \<le> 90 then byte_of (byte_val c + 32) else c)"

definition to_ascii_uppercase :: "byte \<Rightarrow> byte" where
  "to_ascii_uppercase c =
     (if 97 \<le> byte_val c \<and> byte_val c \<le> 122 then byte_of (byte_val c - 32) else c)"

definition eq_ignore_ascii_case :: "string \<Rightarrow> string \<Rightarrow> bool" where
  "eq_ignore_ascii_case s t = (map to_ascii_lowercase s = map to_ascii_lowercase t)"

lemma eq_ignore_ascii_case_refl [simp]: "eq_ignore_ascii_case s s"
  by (simp add: eq_ignore_ascii_case_def)

lemma eq_ignore_ascii_case_sym: "eq_ignore_ascii_case s t \<longleftrightarrow> eq_ignore_ascii_case t s"
  by (auto simp: eq_ignore_ascii_case_def)

section \<open>Prefixes and separators\<close>

definition starts_with :: "string \<Rightarrow> string \<Rightarrow> bool" where
  "starts_with s p = (take (length p) s = p)"

definition strip_prefix :: "byte \<Rightarrow> string \<Rightarrow> string option" where
  "strip_prefix c s = (case s of [] \<Rightarrow> None | x # xs \<Rightarrow> if x = c then Some xs else None)"

text \<open>\<open>str::find\<close> of one byte: the index of its first occurrence.\<close>

fun find_byte :: "byte \<Rightarrow> string \<Rightarrow> nat option" where
  "find_byte c [] = None"
| "find_byte c (x # xs) = (if x = c then Some 0 else map_option Suc (find_byte c xs))"

fun split_once :: "byte \<Rightarrow> string \<Rightarrow> (string \<times> string) option" where
  "split_once c [] = None"
| "split_once c (x # xs) =
     (if x = c then Some ([], xs) else map_option (\<lambda>(a, b). (x # a, b)) (split_once c xs))"

definition rsplit_once :: "byte \<Rightarrow> string \<Rightarrow> (string \<times> string) option" where
  "rsplit_once c s = map_option (\<lambda>(a, b). (rev b, rev a)) (split_once c (rev s))"

text \<open>\<open>str::split\<close>: always at least one piece.\<close>

fun split_on :: "byte \<Rightarrow> string \<Rightarrow> string list" where
  "split_on c [] = [[]]"
| "split_on c (x # xs) =
     (if x = c then [] # split_on c xs
      else case split_on c xs of [] \<Rightarrow> [[x]] | p # ps \<Rightarrow> (x # p) # ps)"

lemma starts_with_Nil [simp]: "starts_with s []"
  by (simp add: starts_with_def)

lemma starts_with_append [simp]: "starts_with (p @ s) p"
  by (simp add: starts_with_def)

lemma starts_with_iff_prefix: "starts_with s p \<longleftrightarrow> prefix p s"
  by (auto simp: starts_with_def prefix_def) (metis append_take_drop_id)

lemma split_once_None_iff [simp]: "split_once c s = None \<longleftrightarrow> c \<notin> set s"
  by (induction s) auto

lemma split_once_append:
  "c \<notin> set a \<Longrightarrow> split_once c (a @ c # b) = Some (a, b)"
  by (induction a) auto

lemma split_once_SomeD:
  "split_once c s = Some (a, b) \<Longrightarrow> s = a @ c # b \<and> c \<notin> set a"
  by (induction s arbitrary: a) (auto split: if_splits)

lemma rsplit_once_None_iff [simp]: "rsplit_once c s = None \<longleftrightarrow> c \<notin> set s"
  by (simp add: rsplit_once_def)

lemma rsplit_once_append:
  "c \<notin> set b \<Longrightarrow> rsplit_once c (a @ c # b) = Some (a, b)"
  using split_once_append [of c "rev b" "rev a"] by (simp add: rsplit_once_def)

lemma rsplit_once_SomeD:
  "rsplit_once c s = Some (a, b) \<Longrightarrow> s = a @ c # b \<and> c \<notin> set b"
  by (auto simp: rsplit_once_def dest!: split_once_SomeD)
     (metis append_Cons append_assoc append_self_conv2 rev.simps(2) rev_append rev_rev_ident)

lemma find_byte_append: "c \<notin> set a \<Longrightarrow> find_byte c (a @ c # b) = Some (length a)"
  by (induction a) auto

lemma find_byte_SomeD: "find_byte c s = Some n \<Longrightarrow> n < length s \<and> s ! n = c \<and> c \<notin> set (take n s)"
  by (induction s arbitrary: n) (auto split: if_splits)

lemma split_on_not_Nil [simp]: "split_on c s \<noteq> []"
  by (cases s) (auto split: list.splits)

lemma split_on_no_sep: "p \<in> set (split_on c s) \<Longrightarrow> c \<notin> set p"
proof (induction s arbitrary: p)
  case Nil
  then show ?case by simp
next
  case (Cons x xs)
  then show ?case
    by (cases "split_on c xs") (auto split: if_splits)
qed

section \<open>Trimming white space\<close>

text \<open>
  \<open>str::trim\<close> removes code points with the Unicode property White_Space.
  These are their UTF-8 encodings: the ASCII ones, U+0085, U+00A0, U+1680,
  U+2000 to U+200A, U+2028, U+2029, U+202F, U+205F and U+3000.
\<close>

definition white_space :: "string list" where
  "white_space =
     map (\<lambda>n. [byte_of n]) [9, 10, 11, 12, 13, 32]
     @ map (map byte_of) [[194, 133], [194, 160], [225, 154, 128]]
     @ map (\<lambda>n. map byte_of [226, 128, n]) [128, 129, 130, 131, 132, 133, 134, 135, 136, 137, 138, 168, 169, 175]
     @ map (map byte_of) [[226, 129, 159], [227, 128, 128]]"

definition space_prefix :: "string list \<Rightarrow> string \<Rightarrow> nat" where
  "space_prefix ws s = (case find (starts_with s) ws of None \<Rightarrow> 0 | Some w \<Rightarrow> length w)"

text \<open>Each pass removes at least one byte, so the length of the text bounds the passes.\<close>

fun strip_spaces :: "string list \<Rightarrow> nat \<Rightarrow> string \<Rightarrow> string" where
  "strip_spaces ws 0 s = s"
| "strip_spaces ws (Suc n) s =
     (let k = space_prefix ws s in if k = 0 then s else strip_spaces ws n (drop k s))"

definition trim_start :: "string \<Rightarrow> string" where
  "trim_start s = strip_spaces white_space (length s) s"

definition trim_end :: "string \<Rightarrow> string" where
  "trim_end s = rev (strip_spaces (map rev white_space) (length s) (rev s))"

definition trim :: "string \<Rightarrow> string" where
  "trim s = trim_end (trim_start s)"

lemma strip_spaces_suffix: "suffix (strip_spaces ws n s) s"
  by (induction n arbitrary: s) (auto simp: Let_def intro: suffix_order.trans suffix_drop)

lemma strip_spaces_done: "length s \<le> n \<Longrightarrow> space_prefix ws (strip_spaces ws n s) = 0"
proof (induction n arbitrary: s)
  case 0
  then show ?case
    by (auto simp: space_prefix_def starts_with_def find_Some_iff split: option.splits)
next
  case (Suc n)
  then show ?case by (auto simp: Let_def)
qed

text \<open>Trimming really finishes: what is left neither begins nor ends with white space.\<close>

lemma trim_start_done: "space_prefix white_space (trim_start s) = 0"
  by (simp add: trim_start_def strip_spaces_done)

lemma trim_end_done: "space_prefix (map rev white_space) (rev (trim_end s)) = 0"
  by (simp add: trim_end_def strip_spaces_done)

lemma trim_sublist: "sublist (trim s) s"
proof -
  have "sublist (trim_start s) s"
    by (simp add: trim_start_def strip_spaces_suffix suffix_imp_sublist)
  moreover have "sublist (trim_end t) t" for t
    using strip_spaces_suffix [of "map rev white_space" "length t" "rev t"]
    by (simp add: trim_end_def suffix_to_prefix prefix_imp_sublist)
  ultimately show ?thesis
    by (metis trim_def sublist_order.order.trans)
qed

section \<open>Decimal numbers\<close>

definition digit_of :: "byte \<Rightarrow> nat option" where
  "digit_of c = (if 48 \<le> byte_val c \<and> byte_val c \<le> 57 then Some (byte_val c - 48) else None)"

fun parse_digits :: "nat \<Rightarrow> string \<Rightarrow> nat option" where
  "parse_digits acc [] = Some acc"
| "parse_digits acc (c # cs) =
     (case digit_of c of None \<Rightarrow> None | Some d \<Rightarrow> parse_digits (10 * acc + d) cs)"

text \<open>
  \<open>str::parse\<close> for an unsigned type whose greatest value is \<open>m\<close>: one leading
  plus sign is allowed, an empty text is refused, and so is a value over \<open>m\<close>.
\<close>

definition parse_uint :: "nat \<Rightarrow> string \<Rightarrow> nat option" where
  "parse_uint m s =
     (let ds = unwrap_or (strip_prefix (CHR ''+'') s) s
      in if ds = [] then None else opt_filter (\<lambda>n. n \<le> m) (parse_digits 0 ds))"

definition parse_u16 :: "string \<Rightarrow> u16 option" where
  "parse_u16 s = map_option word_of_nat (parse_uint 65535 s)"

text \<open>\<open>to_string\<close> of an unsigned integer.\<close>

fun show_nat :: "nat \<Rightarrow> string" where
  "show_nat n =
     (if n < 10 then [byte_of (48 + n)] else show_nat (n div 10) @ [byte_of (48 + n mod 10)])"

definition show_int :: "int \<Rightarrow> string" where
  "show_int i = (if i < 0 then CHR ''-'' # show_nat (nat (- i)) else show_nat (nat i))"

declare show_nat.simps [simp del]

lemma byte_val_of [simp]: "n < 256 \<Longrightarrow> byte_val (byte_of n) = n"
  by (simp add: byte_val_def byte_of_def)

lemma digit_of_byte [simp]: "d < 10 \<Longrightarrow> digit_of (byte_of (48 + d)) = Some d"
  by (simp add: digit_of_def)

lemma parse_digits_append:
  "parse_digits acc (xs @ ys) = Option.bind (parse_digits acc xs) (\<lambda>n. parse_digits n ys)"
  by (induction xs arbitrary: acc) (auto split: option.splits)

lemma show_nat_not_Nil [simp]: "show_nat n \<noteq> []"
  by (subst show_nat.simps) simp

lemma parse_digits_show: "parse_digits 0 (show_nat n) = Some n"
proof (induction n rule: show_nat.induct)
  case (1 n)
  show ?case
  proof (cases "n < 10")
    case True
    then show ?thesis by (subst show_nat.simps) simp
  next
    case False
    with 1 have "parse_digits 0 (show_nat (n div 10)) = Some (n div 10)" by simp
    moreover have "10 * (n div 10) + n mod 10 = n" by simp
    ultimately show ?thesis
      using False by (subst show_nat.simps) (simp add: parse_digits_append)
  qed
qed

lemma show_nat_bytes: "c \<in> set (show_nat n) \<Longrightarrow> 48 \<le> byte_val c \<and> byte_val c \<le> 57"
proof (induction n rule: show_nat.induct)
  case (1 n)
  then show ?case
    by (cases "n < 10") (auto simp: show_nat.simps [of n])
qed

lemma byte_val_lits [simp]:
  "byte_val (CHR ''+'') = 43" "byte_val (CHR '':'') = 58" "byte_val (CHR ''['') = 91"
  "byte_val (CHR '']'') = 93"
  by (simp_all add: byte_val_def)

lemma show_nat_no_sep: "48 > byte_val c \<or> byte_val c > 57 \<Longrightarrow> c \<notin> set (show_nat n)"
  using show_nat_bytes by fastforce

lemma strip_prefix_show [simp]: "strip_prefix (CHR ''+'') (show_nat n) = None"
proof (cases "show_nat n")
  case (Cons x xs)
  then have "x \<noteq> CHR ''+''" using show_nat_no_sep [of "CHR ''+''" n] by auto
  with Cons show ?thesis by (simp add: strip_prefix_def)
qed simp

text \<open>Printing and parsing a number within range is a round trip.\<close>

lemma parse_uint_show: "n \<le> m \<Longrightarrow> parse_uint m (show_nat n) = Some n"
  by (simp add: parse_uint_def parse_digits_show)

lemma parse_u16_show [simp]: "parse_u16 (show_nat (unat w)) = Some w" for w :: u16
proof -
  have "unat w < 2 ^ 16" using unsigned_less [of w] by simp
  then have "unat w \<le> 65535" by simp
  then show ?thesis by (simp add: parse_u16_def parse_uint_show)
qed

lemma parse_uint_bound: "parse_uint m s = Some n \<Longrightarrow> n \<le> m"
  by (auto simp: parse_uint_def Let_def result_simps split: if_splits)

section \<open>Lossy UTF-8\<close>

text \<open>
  \<open>String::from_utf8_lossy\<close> keeps well formed sequences and replaces each
  maximal ill formed prefix of a sequence by U+FFFD.  \<open>utf8_step\<close> reads one
  sequence: whether it is well formed, and how many bytes it takes.  A missing
  byte reads as zero, as the library's decoder does at the end of its input.
\<close>

definition byte_at :: "bytes \<Rightarrow> nat \<Rightarrow> nat" where
  "byte_at s i = (if i < length s then byte_val (s ! i) else 0)"

definition continues :: "nat \<Rightarrow> bool" where
  "continues n = (128 \<le> n \<and> n \<le> 191)"

definition utf8_second_of_three :: "nat \<Rightarrow> nat \<Rightarrow> bool" where
  "utf8_second_of_three a b =
     (if a = 224 then 160 \<le> b \<and> b \<le> 191
      else if a = 237 then 128 \<le> b \<and> b \<le> 159
      else continues b)"

definition utf8_second_of_four :: "nat \<Rightarrow> nat \<Rightarrow> bool" where
  "utf8_second_of_four a b =
     (if a = 240 then 144 \<le> b \<and> b \<le> 191
      else if a = 244 then 128 \<le> b \<and> b \<le> 143
      else continues b)"

definition utf8_decode :: "nat \<Rightarrow> nat \<Rightarrow> nat \<Rightarrow> nat \<Rightarrow> bool \<times> nat" where
  "utf8_decode a b c d =
     (if a < 128 then (True, 1)
      else if 194 \<le> a \<and> a \<le> 223 then
        (if continues b then (True, 2) else (False, 1))
      else if 224 \<le> a \<and> a \<le> 239 then
        (if \<not> utf8_second_of_three a b then (False, 1)
         else if continues c then (True, 3) else (False, 2))
      else if 240 \<le> a \<and> a \<le> 244 then
        (if \<not> utf8_second_of_four a b then (False, 1)
         else if \<not> continues c then (False, 2)
         else if continues d then (True, 4) else (False, 3))
      else (False, 1))"

definition utf8_step :: "bytes \<Rightarrow> bool \<times> nat" where
  "utf8_step s = utf8_decode (byte_at s 0) (byte_at s 1) (byte_at s 2) (byte_at s 3)"

definition replacement_character :: bytes where
  "replacement_character = map byte_of [239, 191, 189]"

lemma utf8_step_progress: "0 < snd (utf8_step s)"
  by (simp add: utf8_step_def utf8_decode_def)

text \<open>A well formed sequence of n bytes is decided by those bytes alone.\<close>

lemma utf8_decode_local:
  "utf8_decode a b c d = (True, n) \<Longrightarrow> n \<in> {1, 2, 3, 4}"
  "utf8_decode a b c d = (True, 1) \<Longrightarrow> utf8_decode a b' c' d' = (True, 1)"
  "utf8_decode a b c d = (True, 2) \<Longrightarrow> utf8_decode a b c' d' = (True, 2)"
  "utf8_decode a b c d = (True, 3) \<Longrightarrow> utf8_decode a b c d' = (True, 3)"
  by (auto simp: utf8_decode_def split: if_splits)

lemma utf8_decode_continues:
  "utf8_decode a b c d = (True, 2) \<Longrightarrow> continues b"
  "utf8_decode a b c d = (True, 3) \<Longrightarrow> continues c"
  "utf8_decode a b c d = (True, 4) \<Longrightarrow> continues d"
  by (auto simp: utf8_decode_def split: if_splits)

lemma utf8_step_shrinks: "(ok, n) = utf8_step s \<Longrightarrow> s \<noteq> [] \<Longrightarrow> length s - n < length s"
  using utf8_step_progress [of s] by (cases s) (auto dest: sym)

function from_utf8_lossy :: "bytes \<Rightarrow> string" where
  "from_utf8_lossy s =
     (if s = [] then []
      else (let (ok, n) = utf8_step s
            in (if ok then take n s else replacement_character) @ from_utf8_lossy (drop n s)))"
  by pat_completeness auto
termination
  by (relation "measure length") (auto dest: utf8_step_shrinks)

declare from_utf8_lossy.simps [simp del]

text \<open>Well formed UTF-8: every step succeeds.\<close>

function valid_utf8 :: "bytes \<Rightarrow> bool" where
  "valid_utf8 s =
     (if s = [] then True
      else (let (ok, n) = utf8_step s in if ok then valid_utf8 (drop n s) else False))"
  by pat_completeness auto
termination
  by (relation "measure length") (auto dest: utf8_step_shrinks)

declare valid_utf8.simps [simp del]

lemma from_utf8_lossy_Nil [simp]: "from_utf8_lossy [] = []"
  by (simp add: from_utf8_lossy.simps)

lemma valid_utf8_Nil [simp]: "valid_utf8 []"
  by (simp add: valid_utf8.simps)

text \<open>A \<open>String\<close> that is already well formed is copied unchanged.\<close>

lemma from_utf8_lossy_valid: "valid_utf8 s \<Longrightarrow> from_utf8_lossy s = s"
proof (induction s rule: valid_utf8.induct)
  case (1 s)
  show ?case
  proof (cases "s = []")
    case False
    obtain ok n where st: "utf8_step s = (ok, n)" by (cases "utf8_step s")
    with False 1 have "ok" "from_utf8_lossy (drop n s) = drop n s"
      by (auto simp: valid_utf8.simps [of s] split: if_splits)
    with st False show ?thesis by (simp add: from_utf8_lossy.simps [of s])
  qed simp
qed

lemma utf8_step_ascii: "s \<noteq> [] \<Longrightarrow> byte_val (hd s) < 128 \<Longrightarrow> utf8_step s = (True, 1)"
  by (cases s) (auto simp: utf8_step_def utf8_decode_def byte_at_def)

lemma from_utf8_lossy_ascii_Cons:
  "byte_val c < 128 \<Longrightarrow> from_utf8_lossy (c # s) = c # from_utf8_lossy s"
  by (subst from_utf8_lossy.simps) (simp add: utf8_step_ascii)

lemma from_utf8_lossy_ascii:
  "(\<And>c. c \<in> set s \<Longrightarrow> byte_val c < 128) \<Longrightarrow> from_utf8_lossy s = s"
  by (induction s) (auto simp: from_utf8_lossy_ascii_Cons)

text \<open>A well formed step takes whole bytes of the text and depends on nothing behind them.\<close>

lemma byte_at_continues: "continues (byte_at s i) \<Longrightarrow> i < length s"
  by (auto simp: continues_def byte_at_def split: if_splits)

lemma utf8_step_ok_len:
  assumes "s \<noteq> []" and "utf8_step s = (True, n)"
  shows "n \<le> length s"
proof -
  note st = assms(2) [unfolded utf8_step_def]
  consider "n = 1" | "n = 2" | "n = 3" | "n = 4"
    using utf8_decode_local(1) [OF st] by blast
  then show ?thesis
  proof cases
    case 1
    then show ?thesis using assms(1) by (cases s) auto
  next
    case 2
    then show ?thesis using byte_at_continues [OF utf8_decode_continues(1)] st by force
  next
    case 3
    then show ?thesis using byte_at_continues [OF utf8_decode_continues(2)] st by force
  next
    case 4
    then show ?thesis using byte_at_continues [OF utf8_decode_continues(3)] st by force
  qed
qed

lemma utf8_step_local:
  assumes "s \<noteq> []" and "utf8_step s = (True, n)"
  shows "utf8_step (take n s @ t) = (True, n)"
proof -
  note st = assms(2) [unfolded utf8_step_def]
  have len: "n \<le> length s" using assms by (rule utf8_step_ok_len)
  have at: "byte_at (take n s @ t) i = byte_at s i" if "i < n" for i
    using that len by (simp add: byte_at_def nth_append)
  consider "n = 1" | "n = 2" | "n = 3" | "n = 4"
    using utf8_decode_local(1) [OF st] by blast
  then show ?thesis
  proof cases
    case 1
    then show ?thesis
      unfolding utf8_step_def using at [of 0] utf8_decode_local(2) st by simp
  next
    case 2
    then show ?thesis
      unfolding utf8_step_def using at [of 0] at [of 1] utf8_decode_local(3) st by simp
  next
    case 3
    then show ?thesis
      unfolding utf8_step_def using at [of 0] at [of 1] at [of 2] utf8_decode_local(4) st by simp
  next
    case 4
    then show ?thesis
      unfolding utf8_step_def using at [of 0] at [of 1] at [of 2] at [of 3] st by simp
  qed
qed

lemma valid_utf8_step:
  assumes "s \<noteq> []" and "utf8_step s = (True, n)" and "valid_utf8 t"
  shows "valid_utf8 (take n s @ t)"
proof -
  have "n \<le> length s" using assms(1,2) by (rule utf8_step_ok_len)
  then have "drop n (take n s @ t) = t" by simp
  moreover have "utf8_step (take n s @ t) = (True, n)" using assms(1,2) by (rule utf8_step_local)
  ultimately show ?thesis using assms(3) by (simp add: valid_utf8.simps [of "take n s @ t"])
qed

lemma replacement_step: "utf8_step (replacement_character @ t) = (True, 3)"
  by (simp add: utf8_step_def utf8_decode_def byte_at_def replacement_character_def
      utf8_second_of_three_def continues_def)

text \<open>Whatever Envoy hands over, the text made of it is well formed.\<close>

lemma from_utf8_lossy_is_valid: "valid_utf8 (from_utf8_lossy s)"
proof (induction s rule: from_utf8_lossy.induct)
  case (1 s)
  show ?case
  proof (cases "s = []")
    case False
    obtain ok n where st: "utf8_step s = (ok, n)" by (cases "utf8_step s")
    with False 1 have IH: "valid_utf8 (from_utf8_lossy (drop n s))" by simp
    show ?thesis
    proof (cases ok)
      case True
      with st False IH show ?thesis
        by (simp add: from_utf8_lossy.simps [of s] valid_utf8_step)
    next
      case False
      have "valid_utf8 (replacement_character @ t)" if "valid_utf8 t" for t
        using that replacement_step [of t]
        by (simp add: valid_utf8.simps [of "replacement_character @ t"])
           (simp add: replacement_character_def)
      with st False \<open>s \<noteq> []\<close> IH show ?thesis
        by (simp add: from_utf8_lossy.simps [of s])
    qed
  qed simp
qed

lemma from_utf8_lossy_idem [simp]: "from_utf8_lossy (from_utf8_lossy s) = from_utf8_lossy s"
  by (rule from_utf8_lossy_valid) (rule from_utf8_lossy_is_valid)

end
