(* ===== verification/Bridge_Types.thy ===== *)
theory Bridge_Types
  imports Prelude Rust_Text
begin

text \<open>
  The data that crosses between an Envoy worker and the Ruby owner thread:
  errors with the text \<open>Display\<close> gives them (src/src/error.rs), responses
  (src/src/response.rs), requests (src/src/request.rs), Envoy's view of a
  request (src/src/context.rs), and the wakeup socket between the threads
  (src/src/wake.rs).

  Text made by code outside the repository (an operating system error, a Ruby
  exception) is an argument of the definition that quotes it.  Handles to shared
  objects inside a request are type parameters, which the component that owns
  the objects instantiates.
\<close>

section \<open>Errors\<close>

datatype bridge_error =
    Io string
  | Spawn string
  | Startup string
  | Ruby string
  | InvalidResponse string
  | Overloaded
  | RuntimeStopped
  | ResponseTimeout
  | RuntimePanicked string
  | Upstream string
  | UpstreamTooLarge string
  | UpstreamOverflow string

fun display_error :: "bridge_error \<Rightarrow> string" where
  "display_error (Io message) = ''bridge I/O error: '' @ message"
| "display_error (Spawn message) = ''failed to spawn Ruby runtime thread: '' @ message"
| "display_error (Startup message) = ''Ruby runtime startup failed: '' @ message"
| "display_error (Ruby message) = ''Ruby call failed: '' @ message"
| "display_error (InvalidResponse message) = ''invalid Rack-like response: '' @ message"
| "display_error Overloaded = ''Ruby runtime admission limit reached''"
| "display_error RuntimeStopped = ''Ruby runtime has stopped''"
| "display_error ResponseTimeout = ''timed out waiting for Ruby runtime''"
| "display_error (RuntimePanicked message) = ''Ruby runtime panicked: '' @ message"
| "display_error (Upstream message) = ''upstream call failed: '' @ message"
| "display_error (UpstreamTooLarge message) = ''upstream response too large: '' @ message"
| "display_error (UpstreamOverflow message) = ''upstream stream overflowed: '' @ message"

text \<open>The text of a Ruby exception is made by the magnus crate; it is an argument here.\<close>

definition ruby_error :: "string \<Rightarrow> string \<Rightarrow> bridge_error" where
  "ruby_error what error = Ruby (what @ '': '' @ error)"

text \<open>What \<open>catch_unwind\<close> hands over: a literal, an owned string, or anything else.\<close>

datatype panic_payload = Payload_str string | Payload_String string | Payload_other

fun panic_message :: "panic_payload \<Rightarrow> string" where
  "panic_message (Payload_str message) = message"
| "panic_message (Payload_String message) = message"
| "panic_message Payload_other = ''unknown panic payload''"

section \<open>Responses\<close>

type_synonym header_list = "(string \<times> string) list"

record response =
  resp_status :: u16
  resp_headers :: header_list
  resp_body :: bytes
  resp_thread :: u64

definition response_header :: "response \<Rightarrow> string \<Rightarrow> string option" where
  "response_header r name =
     map_option snd (find (\<lambda>(key, _). eq_ignore_ascii_case key name) (resp_headers r))"

record response_head =
  head_status :: u16
  head_headers :: header_list
  head_thread :: u64

section \<open>Envoy's view of a request\<close>

record connection_info =
  conn_id :: "u64 option"
  source_address :: "string option"
  source_port :: "u16 option"
  destination_address :: "string option"
  destination_port :: "u16 option"

record peer_certificate =
  cert_subject :: "string option"
  uri_san :: "string option"
  dns_san :: "string option"
  sha256 :: "string option"

record tls_info =
  tls_version :: string
  tls_server_name :: "string option"
  tls_peer_certificate :: "peer_certificate option"

text \<open>
  A double is carried through untouched, so it is its 64 bit pattern.  A list
  holds values again, exactly as the recursive enum does.
\<close>

datatype metadata_value =
    MString string
  | MNumber u64
  | MBool bool
  | MList "metadata_value list"

record metadata_namespace =
  ns_name :: string
  ns_fields :: "(string \<times> metadata_value) list"

record envoy_context =
  route_name :: "string option"
  ctx_connection :: connection_info
  ctx_tls :: "tls_info option"
  dynamic_metadata :: "metadata_namespace list"
  route_metadata :: "metadata_namespace list"

section \<open>Requests\<close>

record request_metadata =
  md_authority :: string
  md_scheme :: string
  md_server_name :: string
  md_server_port :: u16
  md_protocol :: string
  md_remote_addr :: "string option"

definition default_metadata :: request_metadata where
  "default_metadata =
     \<lparr> md_authority = ''localhost'', md_scheme = ''http'', md_server_name = ''localhost'',
       md_server_port = 80, md_protocol = ''HTTP/1.1'', md_remote_addr = None \<rparr>"

record request_diagnostics =
  received_at :: instant
  body_copy_time :: duration
  body_callbacks :: u64
  submitted_at :: "instant option"

definition new_diagnostics :: "instant \<Rightarrow> request_diagnostics" where
  "new_diagnostics received =
     \<lparr> received_at = received, body_copy_time = 0, body_callbacks = 0, submitted_at = None \<rparr>"

text \<open>
  \<open>'h\<close> is the handle of a body still arriving, \<open>'u\<close> the way to call upstream
  clusters; both are \<open>Arc\<close>s to objects another component owns.
\<close>

record ('h, 'u) request =
  req_method :: string
  req_path :: string
  req_body :: bytes
  body_stream :: "'h option"
  req_headers :: "(string \<times> bytes) list"
  req_metadata :: request_metadata
  req_context :: "envoy_context option"
  req_upstreams :: "'u option"
  force_gc :: bool
  diagnostics :: "request_diagnostics option"

definition new_request :: "string \<Rightarrow> string \<Rightarrow> bytes \<Rightarrow> ('h, 'u) request" where
  "new_request method path body =
     \<lparr> req_method = method, req_path = path, req_body = body, body_stream = None,
       req_headers = [], req_metadata = default_metadata, req_context = None,
       req_upstreams = None, force_gc = False, diagnostics = None \<rparr>"

definition with_header :: "string \<Rightarrow> bytes \<Rightarrow> ('h, 'u) request \<Rightarrow> ('h, 'u) request" where
  "with_header name v r = r\<lparr>req_headers := req_headers r @ [(name, v)]\<rparr>"

definition with_forced_gc :: "('h, 'u) request \<Rightarrow> ('h, 'u) request" where
  "with_forced_gc r = r\<lparr>force_gc := True\<rparr>"

definition with_metadata :: "request_metadata \<Rightarrow> ('h, 'u) request \<Rightarrow> ('h, 'u) request" where
  "with_metadata m r = r\<lparr>req_metadata := m\<rparr>"

section \<open>The wakeup socket\<close>

text \<open>
  What the operating system answers to one non-blocking \<open>write\<close> or \<open>read\<close>:
  a byte count, or an error of one of the kinds the code tells apart, with the
  text of the others.
\<close>

datatype io_answer = Io_ok nat | Interrupted | WouldBlock | Io_failed string

definition io_error :: "string \<Rightarrow> bridge_error" where
  "io_error error = Io error"

text \<open>
  \<open>UnixStream::pair\<close> and the two \<open>set_nonblocking\<close> calls, each of which the
  operating system may refuse with a text.
\<close>

definition pair ::
    "(string, 'r \<times> 'w) result \<Rightarrow> (string, unit) result \<Rightarrow> (string, unit) result
       \<Rightarrow> (bridge_error, 'r \<times> 'w) result" where
  "pair made reader_nonblocking writer_nonblocking =
     and_then (map_sum io_error id made) (\<lambda>p.
     and_then (map_sum io_error id reader_nonblocking) (\<lambda>_.
     and_then (map_sum io_error id writer_nonblocking) (\<lambda>_. Inr p)))"

text \<open>
  \<open>signal\<close> retries while the write is interrupted, \<open>drain\<close> reads until the
  socket is empty.  The answers of the operating system are the argument;
  \<^term>\<open>None\<close> says the loop has not returned after those.
\<close>

fun signal_loop :: "io_answer list \<Rightarrow> (bridge_error, unit) result option" where
  "signal_loop [] = None"
| "signal_loop (Io_ok n # rest) =
     (if n = 1 then Some (Inr ()) else Some (Inl (Io ''wake socket accepted zero bytes'')))"
| "signal_loop (Interrupted # rest) = signal_loop rest"
| "signal_loop (WouldBlock # rest) = Some (Inr ())"
| "signal_loop (Io_failed error # rest) = Some (Inl (io_error error))"

definition signal :: "bool \<Rightarrow> io_answer list \<Rightarrow> (bridge_error, unit) result option" where
  "signal poisoned answers =
     (if poisoned then Some (Inl (Io ''wake writer mutex was poisoned''))
      else signal_loop answers)"

fun drain :: "io_answer list \<Rightarrow> (bridge_error, unit) result option" where
  "drain [] = None"
| "drain (Io_ok n # rest) =
     (if n = 0 then Some (Inl (Io ''wake socket closed before shutdown'')) else drain rest)"
| "drain (Interrupted # rest) = drain rest"
| "drain (WouldBlock # rest) = Some (Inr ())"
| "drain (Io_failed error # rest) = Some (Inl (io_error error))"

datatype recv_timeout_error = Recv_Timeout | Recv_Disconnected

fun map_recv_timeout :: "recv_timeout_error \<Rightarrow> bridge_error" where
  "map_recv_timeout Recv_Timeout = ResponseTimeout"
| "map_recv_timeout Recv_Disconnected = RuntimeStopped"

definition recv_reply ::
    "(recv_timeout_error, (bridge_error, 'a) result) result
       \<Rightarrow> (bridge_error, (bridge_error, 'a) result) result" where
  "recv_reply received = map_sum map_recv_timeout id received"

section \<open>Facts about the data\<close>

lemma signal_loop_append_Interrupted:
  "signal_loop (replicate n Interrupted @ rest) = signal_loop rest"
  by (induction n) auto

lemma drain_skips:
  "\<forall>a \<in> set pre. a = Interrupted \<or> (\<exists>n. a = Io_ok (Suc n)) \<Longrightarrow> drain (pre @ rest) = drain rest"
  by (induction pre) auto

lemma drain_returns: "WouldBlock \<in> set answers \<Longrightarrow> \<exists>r. drain answers = Some r"
  by (induction answers rule: drain.induct) auto

lemma signal_returns:
  "\<exists>a \<in> set answers. a \<noteq> Interrupted \<Longrightarrow> \<exists>r. signal poisoned answers = Some r"
  unfolding signal_def by (induction answers rule: signal_loop.induct) auto

lemma response_header_case:
  "eq_ignore_ascii_case n m \<Longrightarrow> response_header r n = response_header r m"
  by (simp add: response_header_def eq_ignore_ascii_case_def)

end
