(* ===== verification/Response_Stream.thy ===== *)
theory Response_Stream
  imports Bridge_Types
begin

text \<open>
  The hand-off queue of src/src/stream.rs between the Ruby owner thread and one
  Envoy worker stream, and the list of streams whose parked fiber is owed a
  wakeup.

  Every method takes the one mutex for its whole body, so each is one atomic
  function on the record below, and every interleaving of the two threads is a
  sequence of \<open>stream_op\<close>s.  A poisoned mutex is entered as if it were not.
  The queue is bounded by bytes; \<open>buffered_bytes\<close> is a running count.
\<close>

section \<open>State\<close>

datatype stream_item =
    Head response_head
  | Chunk bytes
  | End
  | Failed bridge_error

text \<open>The \<open>Async::Variable\<close> a fiber is parked on, by identity.\<close>

type_synonym variable = nat

record response_stream =
  items :: "stream_item list"
  buffered_bytes :: nat
  cancelled :: bool
  ended :: bool
  paused :: bool
  waiter :: "variable option"
  max_buffered_bytes :: nat

definition new_stream :: "nat \<Rightarrow> response_stream" where
  "new_stream max_bytes =
     \<lparr> items = [], buffered_bytes = 0, cancelled = False, ended = False, paused = False,
       waiter = None, max_buffered_bytes = max max_bytes 1 \<rparr>"

section \<open>Operations\<close>

definition cancel :: "response_stream \<Rightarrow> response_stream" where
  "cancel s = s\<lparr>cancelled := True, items := [], buffered_bytes := 0\<rparr>"

definition full :: "response_stream \<Rightarrow> bool" where
  "full s \<longleftrightarrow> paused s \<or> buffered_bytes s \<ge> max_buffered_bytes s"

definition park :: "variable \<Rightarrow> response_stream \<Rightarrow> bool \<times> response_stream" where
  "park v s =
     (if buffered_bytes s > 0 \<or> ended s \<or> cancelled s then (False, s)
      else (True, s\<lparr>waiter := Some v\<rparr>))"

definition unpark :: "response_stream \<Rightarrow> variable option \<times> response_stream" where
  "unpark s = (waiter s, s\<lparr>waiter := None\<rparr>)"

definition park_writer :: "variable \<Rightarrow> response_stream \<Rightarrow> bool \<times> response_stream" where
  "park_writer v s =
     (if cancelled s \<or> \<not> full s then (False, s)
      else (True, s\<lparr>waiter := Some v\<rparr>))"

definition writer_owed_wakeup :: "response_stream \<Rightarrow> bool" where
  "writer_owed_wakeup s \<longleftrightarrow> waiter s \<noteq> None \<and> (cancelled s \<or> \<not> full s)"

definition is_finished :: "response_stream \<Rightarrow> bool" where
  "is_finished s \<longleftrightarrow> cancelled s \<or> (ended s \<and> buffered_bytes s = 0)"

definition is_cancelled :: "response_stream \<Rightarrow> bool" where
  "is_cancelled s = cancelled s"

definition set_paused :: "bool \<Rightarrow> response_stream \<Rightarrow> response_stream" where
  "set_paused p s = s\<lparr>paused := p\<rparr>"

definition buffered_bytes_of :: "response_stream \<Rightarrow> nat" where
  "buffered_bytes_of s = buffered_bytes s"

definition spare_capacity :: "response_stream \<Rightarrow> nat" where
  "spare_capacity s = max_buffered_bytes s - buffered_bytes s"

definition is_saturated :: "response_stream \<Rightarrow> bool" where
  "is_saturated s = full s"

definition push :: "stream_item \<Rightarrow> response_stream \<Rightarrow> bool \<times> response_stream" where
  "push item s =
     (if cancelled s \<or> ended s then (False, s)
      else
        let s1 = (case item of
                    Chunk chunk \<Rightarrow> s\<lparr>buffered_bytes := buffered_bytes s + length chunk\<rparr>
                  | End \<Rightarrow> s\<lparr>ended := True\<rparr>
                  | Failed _ \<Rightarrow> s\<lparr>ended := True\<rparr>
                  | Head _ \<Rightarrow> s)
        in (True, s1\<lparr>items := items s1 @ [item]\<rparr>))"

definition push_head :: "response_head \<Rightarrow> response_stream \<Rightarrow> bool \<times> response_stream" where
  "push_head head s = push (Head head) s"

definition push_chunk :: "bytes \<Rightarrow> response_stream \<Rightarrow> bool \<times> response_stream" where
  "push_chunk chunk s = push (Chunk chunk) s"

definition push_end :: "response_stream \<Rightarrow> bool \<times> response_stream" where
  "push_end s = push End s"

definition push_failure :: "bridge_error \<Rightarrow> response_stream \<Rightarrow> bool \<times> response_stream" where
  "push_failure error s = push (Failed error) s"

definition push_chunk_within_budget :: "bytes \<Rightarrow> response_stream \<Rightarrow> nat option \<times> response_stream" where
  "push_chunk_within_budget bs s =
     (if cancelled s \<or> ended s then (None, s)
      else
        let taken = min (length bs) (max_buffered_bytes s - buffered_bytes s)
        in (Some taken,
            if taken > 0
            then s\<lparr>buffered_bytes := buffered_bytes s + taken, items := items s @ [Chunk (take taken bs)]\<rparr>
            else s))"

definition push_chunk_if_room :: "bytes \<Rightarrow> response_stream \<Rightarrow> bool option \<times> response_stream" where
  "push_chunk_if_room chunk s =
     (if cancelled s \<or> ended s then (None, s)
      else
        let room = max_buffered_bytes s - buffered_bytes s
        in if buffered_bytes s > 0 \<and> length chunk > room then (Some False, s)
           else (Some True, s\<lparr>buffered_bytes := buffered_bytes s + length chunk,
                              items := items s @ [Chunk chunk]\<rparr>))"

definition take_next :: "response_stream \<Rightarrow> stream_item option \<times> response_stream" where
  "take_next s =
     (if paused s then (None, s)
      else case items s of
             [] \<Rightarrow> (None, s)
           | item # rest \<Rightarrow>
               (Some item,
                (case item of
                   Chunk chunk \<Rightarrow> s\<lparr>items := rest, buffered_bytes := buffered_bytes s - length chunk\<rparr>
                 | _ \<Rightarrow> s\<lparr>items := rest\<rparr>)))"

section \<open>Handles and owed wakeups\<close>

text \<open>
  A handle pairs a shared queue with the way to wake its worker.  Both are
  references, so they are type parameters here; \<open>wake\<close> is then applying the
  waker to the world it acts on.
\<close>

record ('ref, 'world) stream_handle =
  handle_stream :: 'ref
  handle_waker :: "'world \<Rightarrow> 'world"

definition new_handle :: "'ref \<Rightarrow> ('world \<Rightarrow> 'world) \<Rightarrow> ('ref, 'world) stream_handle" where
  "new_handle stream wk = \<lparr> handle_stream = stream, handle_waker = wk \<rparr>"

definition wake :: "('ref, 'world) stream_handle \<Rightarrow> 'world \<Rightarrow> 'world" where
  "wake h world = handle_waker h world"

definition owe :: "'ref \<Rightarrow> 'ref list \<Rightarrow> 'ref list" where
  "owe stream owed = owed @ [stream]"

definition take_owed :: "'ref list \<Rightarrow> 'ref list \<times> 'ref list" where
  "take_owed owed = (owed, [])"

section \<open>Interleavings\<close>

datatype stream_op =
    Op_cancel
  | Op_park variable
  | Op_unpark
  | Op_park_writer variable
  | Op_set_paused bool
  | Op_push_head response_head
  | Op_push_chunk bytes
  | Op_push_within_budget bytes
  | Op_push_if_room bytes
  | Op_push_end
  | Op_push_failure bridge_error
  | Op_take_next

primrec stream_act :: "stream_op \<Rightarrow> response_stream \<Rightarrow> response_stream" where
  "stream_act Op_cancel s = cancel s"
| "stream_act (Op_park v) s = snd (park v s)"
| "stream_act Op_unpark s = snd (unpark s)"
| "stream_act (Op_park_writer v) s = snd (park_writer v s)"
| "stream_act (Op_set_paused p) s = set_paused p s"
| "stream_act (Op_push_head h) s = snd (push_head h s)"
| "stream_act (Op_push_chunk c) s = snd (push_chunk c s)"
| "stream_act (Op_push_within_budget b) s = snd (push_chunk_within_budget b s)"
| "stream_act (Op_push_if_room c) s = snd (push_chunk_if_room c s)"
| "stream_act Op_push_end s = snd (push_end s)"
| "stream_act (Op_push_failure e) s = snd (push_failure e s)"
| "stream_act Op_take_next s = snd (take_next s)"

text \<open>
  What the producer has been told was accepted, read off the answers of the
  operations, and what the consumer was handed.
\<close>

primrec stream_accepts :: "stream_op \<Rightarrow> response_stream \<Rightarrow> stream_item list" where
  "stream_accepts Op_cancel s = []"
| "stream_accepts (Op_park v) s = []"
| "stream_accepts Op_unpark s = []"
| "stream_accepts (Op_park_writer v) s = []"
| "stream_accepts (Op_set_paused p) s = []"
| "stream_accepts (Op_push_head h) s = (if fst (push_head h s) then [Head h] else [])"
| "stream_accepts (Op_push_chunk c) s = (if fst (push_chunk c s) then [Chunk c] else [])"
| "stream_accepts (Op_push_within_budget b) s =
     (case fst (push_chunk_within_budget b s) of
        None \<Rightarrow> [] | Some n \<Rightarrow> if n = 0 then [] else [Chunk (take n b)])"
| "stream_accepts (Op_push_if_room c) s =
     (if fst (push_chunk_if_room c s) = Some True then [Chunk c] else [])"
| "stream_accepts Op_push_end s = (if fst (push_end s) then [End] else [])"
| "stream_accepts (Op_push_failure e) s = (if fst (push_failure e s) then [Failed e] else [])"
| "stream_accepts Op_take_next s = []"

definition stream_hands_out :: "stream_op \<Rightarrow> response_stream \<Rightarrow> stream_item list" where
  "stream_hands_out op s =
     (case op of
        Op_take_next \<Rightarrow> (case fst (take_next s) of None \<Rightarrow> [] | Some item \<Rightarrow> [item])
      | _ \<Rightarrow> [])"

section \<open>Well-formed streams\<close>

primrec is_terminal :: "stream_item \<Rightarrow> bool" where
  "is_terminal (Head h) = False"
| "is_terminal (Chunk c) = False"
| "is_terminal End = True"
| "is_terminal (Failed e) = True"

primrec item_bytes :: "stream_item \<Rightarrow> bytes" where
  "item_bytes (Head h) = []"
| "item_bytes (Chunk c) = c"
| "item_bytes End = []"
| "item_bytes (Failed e) = []"

text \<open>The bytes queued, recounted from the items.\<close>

definition queued_bytes :: "stream_item list \<Rightarrow> nat" where
  "queued_bytes xs = sum_list (map (\<lambda>i. length (item_bytes i)) xs)"

definition body_of :: "stream_item list \<Rightarrow> bytes" where
  "body_of xs = concat (map item_bytes xs)"

lemma queued_bytes_simps [simp]:
  "queued_bytes [] = 0"
  "queued_bytes (i # xs) = length (item_bytes i) + queued_bytes xs"
  "queued_bytes (xs @ ys) = queued_bytes xs + queued_bytes ys"
  by (simp_all add: queued_bytes_def)

lemma body_of_simps [simp]:
  "body_of [] = []"
  "body_of (i # xs) = item_bytes i @ body_of xs"
  "body_of (xs @ ys) = body_of xs @ body_of ys"
  by (simp_all add: body_of_def)

lemma queued_bytes_body: "queued_bytes xs = length (body_of xs)"
  by (induction xs) auto

text \<open>A terminal item can only be the last of what was accepted.\<close>

definition terminal_last :: "stream_item list \<Rightarrow> bool" where
  "terminal_last xs \<longleftrightarrow> list_all (\<lambda>i. \<not> is_terminal i) (butlast xs)"

definition stream_inv :: "response_stream \<Rightarrow> bool" where
  "stream_inv s \<longleftrightarrow>
     buffered_bytes s = queued_bytes (items s) \<and>
     max_buffered_bytes s \<ge> 1 \<and>
     (cancelled s \<longrightarrow> items s = []) \<and>
     terminal_last (items s) \<and>
     (\<not> ended s \<longrightarrow> list_all (\<lambda>i. \<not> is_terminal i) (items s))"

named_theorems stream_ops \<open>the definitions of the queue's methods\<close>

declare cancel_def [stream_ops] full_def [stream_ops] park_def [stream_ops] unpark_def [stream_ops]
  park_writer_def [stream_ops] set_paused_def [stream_ops] push_def [stream_ops]
  push_head_def [stream_ops] push_chunk_def [stream_ops] push_end_def [stream_ops]
  push_failure_def [stream_ops] push_chunk_within_budget_def [stream_ops]
  push_chunk_if_room_def [stream_ops] take_next_def [stream_ops]

lemma terminal_last_snoc:
  "terminal_last (xs @ [i]) \<longleftrightarrow> list_all (\<lambda>j. \<not> is_terminal j) xs"
  by (simp add: terminal_last_def)

lemma terminal_last_Nil [simp]: "terminal_last []"
  by (simp add: terminal_last_def)

lemma terminal_last_open: "list_all (\<lambda>j. \<not> is_terminal j) xs \<Longrightarrow> terminal_last xs"
  by (induction xs rule: rev_induct) (auto simp: terminal_last_snoc)

lemma terminal_last_tl: "terminal_last (i # xs) \<Longrightarrow> terminal_last xs"
  by (cases xs) (auto simp: terminal_last_def)

lemma stream_inv_new [simp]: "stream_inv (new_stream n)"
  by (simp add: stream_inv_def new_stream_def)

lemma take_next_shrinks: "take_next s = (Some i, s') \<Longrightarrow> length (items s') < length (items s)"
  by (auto simp: take_next_def split: if_splits list.splits stream_item.splits)

lemma push_terminal_settles: "is_terminal i \<Longrightarrow> cancelled (snd (push i s)) \<or> ended (snd (push i s))"
  by (cases i) (simp_all add: push_def)

lemma push_failure_settles: "cancelled (snd (push_failure e s)) \<or> ended (snd (push_failure e s))"
  unfolding push_failure_def by (rule push_terminal_settles) simp

lemma stream_inv_cancel: "stream_inv s \<Longrightarrow> stream_inv (cancel s)"
  by (auto simp: stream_inv_def cancel_def)

lemma stream_inv_push: "stream_inv s \<Longrightarrow> stream_inv (snd (push item s))"
  by (cases item) (auto simp: stream_inv_def push_def terminal_last_snoc)

lemma stream_inv_within: "stream_inv s \<Longrightarrow> stream_inv (snd (push_chunk_within_budget b s))"
  by (auto simp: stream_inv_def push_chunk_within_budget_def Let_def terminal_last_snoc)

lemma stream_inv_if_room: "stream_inv s \<Longrightarrow> stream_inv (snd (push_chunk_if_room b s))"
  by (auto simp: stream_inv_def push_chunk_if_room_def Let_def terminal_last_snoc)

lemma stream_inv_take_next: "stream_inv s \<Longrightarrow> stream_inv (snd (take_next s))"
  by (auto simp: stream_inv_def take_next_def dest: terminal_last_tl split: list.splits stream_item.splits)

lemma stream_inv_flags:
  "stream_inv s \<Longrightarrow> stream_inv (snd (park v s))"
  "stream_inv s \<Longrightarrow> stream_inv (snd (unpark s))"
  "stream_inv s \<Longrightarrow> stream_inv (snd (park_writer v s))"
  "stream_inv s \<Longrightarrow> stream_inv (set_paused p s)"
  by (auto simp: stream_inv_def stream_ops)

lemmas stream_inv_ops = stream_inv_cancel stream_inv_push stream_inv_within stream_inv_if_room
  stream_inv_take_next stream_inv_flags

interpretation stream_wf: operation_invariant stream_act stream_inv
proof unfold_locales
  fix s x assume "stream_inv s"
  then show "stream_inv (stream_act x s)"
    by (cases x) (simp_all add: stream_inv_ops push_head_def push_chunk_def push_end_def push_failure_def)
qed

section \<open>The queue as a channel\<close>

lemma stream_stays_cancelled: "cancelled s \<Longrightarrow> cancelled (stream_act x s)"
  by (cases x) (auto simp: stream_ops Let_def split: list.splits stream_item.splits)

lemma stream_live_fifo:
  "\<not> cancelled (stream_act x s) \<Longrightarrow>
   items s @ stream_accepts x s = stream_hands_out x s @ items (stream_act x s)"
  by (cases x)
    (auto simp: stream_hands_out_def stream_ops Let_def min_def split: list.splits stream_item.splits)

lemma stream_dead_silent:
  "stream_inv s \<Longrightarrow> cancelled s \<Longrightarrow> stream_accepts x s = [] \<and> stream_hands_out x s = []"
  by (cases x) (auto simp: stream_inv_def stream_hands_out_def stream_ops)

lemma only_cancel_kills: "\<not> cancelled s \<Longrightarrow> cancelled (stream_act x s) \<Longrightarrow> x = Op_cancel"
  by (cases x) (auto simp: stream_ops Let_def split: if_splits list.splits stream_item.splits)

interpretation stream_fifo: fifo_channel stream_act stream_inv items stream_accepts stream_hands_out cancelled
proof unfold_locales
  fix s x assume "\<not> cancelled s" and "cancelled (stream_act x s)"
  then have "x = Op_cancel"
    by (rule only_cancel_kills)
  then show "prefix (stream_hands_out x s) (items s @ stream_accepts x s)"
    by (simp add: stream_hands_out_def)
qed (auto simp: stream_live_fifo stream_stays_cancelled stream_dead_silent)

text \<open>Once the producer has ended the stream, nothing more is accepted.\<close>

lemma stream_stays_ended: "ended s \<Longrightarrow> ended (stream_act x s)"
  by (cases x) (auto simp: stream_ops Let_def split: list.splits stream_item.splits)

lemma ended_accepts_nothing: "ended s \<Longrightarrow> stream_accepts x s = []"
  by (cases x) (auto simp: stream_ops)

lemma accepts_terminal: "stream_accepts x s = xs @ [i] \<Longrightarrow> xs = [] \<and> (is_terminal i \<longrightarrow> ended (stream_act x s))"
  by (cases x) (auto simp: stream_ops Let_def split: if_splits option.splits)

lemma accepts_at_most_one: "stream_accepts x s = [] \<or> (\<exists>i. stream_accepts x s = [i])"
  by (cases x) (auto split: option.splits)

lemma ended_run_accepts_nothing: "ended s \<Longrightarrow> emitted stream_act stream_accepts xs s = []"
  by (induction xs arbitrary: s) (auto simp: ended_accepts_nothing stream_stays_ended)

lemma accepted_terminal_last: "terminal_last (emitted stream_act stream_accepts xs s)"
proof (induction xs arbitrary: s)
  case (Cons x xs)
  show ?case
  proof (cases "ended (stream_act x s)")
    case True
    then show ?thesis
      using accepts_at_most_one [of x s] ended_run_accepts_nothing
      by (auto simp: terminal_last_def)
  next
    case False
    then have "list_all (\<lambda>i. \<not> is_terminal i) (stream_accepts x s)"
      using accepts_at_most_one [of x s] accepts_terminal [of x s "[]"] by auto
    with Cons.IH [of "stream_act x s"] show ?thesis
      by (cases "emitted stream_act stream_accepts xs (stream_act x s) = []")
        (simp_all add: terminal_last_open, simp add: terminal_last_def butlast_append)
  qed
qed simp

section \<open>The byte budget\<close>

text \<open>Who keeps the budget: every writer but \<open>push_chunk\<close>, which queues whatever it is given.\<close>

primrec sliced_writes :: "stream_op \<Rightarrow> bool" where
  "sliced_writes Op_cancel = True"
| "sliced_writes (Op_park v) = True"
| "sliced_writes Op_unpark = True"
| "sliced_writes (Op_park_writer v) = True"
| "sliced_writes (Op_set_paused p) = True"
| "sliced_writes (Op_push_head h) = True"
| "sliced_writes (Op_push_chunk c) = False"
| "sliced_writes (Op_push_within_budget b) = True"
| "sliced_writes (Op_push_if_room c) = False"
| "sliced_writes Op_push_end = True"
| "sliced_writes (Op_push_failure e) = True"
| "sliced_writes Op_take_next = True"

lemma sliced_keeps_budget:
  "sliced_writes x \<Longrightarrow> buffered_bytes s \<le> max_buffered_bytes s \<Longrightarrow>
   buffered_bytes (stream_act x s) \<le> max_buffered_bytes (stream_act x s)"
  by (cases x) (auto simp: stream_ops Let_def split: list.splits stream_item.splits)

lemma sliced_run_keeps_budget:
  "list_all sliced_writes xs \<Longrightarrow> buffered_bytes s \<le> max_buffered_bytes s \<Longrightarrow>
   buffered_bytes (run stream_act xs s) \<le> max_buffered_bytes (run stream_act xs s)"
  by (induction xs arbitrary: s) (auto simp: sliced_keeps_budget)

text \<open>
  With whole deliveries added, the budget is passed only by a single delivery
  that found the queue empty.
\<close>

definition full_chunks :: "stream_item list \<Rightarrow> stream_item list" where
  "full_chunks xs = filter (\<lambda>i. item_bytes i \<noteq> []) xs"

definition one_delivery_over :: "response_stream \<Rightarrow> bool" where
  "one_delivery_over s \<longleftrightarrow>
     buffered_bytes s \<le> max_buffered_bytes s \<or> length (full_chunks (items s)) = 1"

lemma full_chunks_simps [simp]:
  "full_chunks [] = []"
  "full_chunks (i # xs) = (if item_bytes i = [] then full_chunks xs else i # full_chunks xs)"
  "full_chunks (xs @ ys) = full_chunks xs @ full_chunks ys"
  by (simp_all add: full_chunks_def)

lemma full_chunks_Nil_iff: "full_chunks xs = [] \<longleftrightarrow> queued_bytes xs = 0"
  by (induction xs) auto

definition whole_or_sliced :: "stream_op \<Rightarrow> bool" where
  "whole_or_sliced x \<longleftrightarrow> sliced_writes x \<or> (\<exists>c. x = Op_push_if_room c)"

lemma one_delivery_over_push:
  "\<not> (\<exists>c. item = Chunk c) \<Longrightarrow> one_delivery_over s \<Longrightarrow> one_delivery_over (snd (push item s))"
  by (cases item) (auto simp: one_delivery_over_def push_def)

lemma one_delivery_over_within:
  "stream_inv s \<Longrightarrow> one_delivery_over s \<Longrightarrow> one_delivery_over (snd (push_chunk_within_budget b s))"
  by (auto simp: one_delivery_over_def push_chunk_within_budget_def Let_def)

lemma one_delivery_over_if_room:
  "stream_inv s \<Longrightarrow> one_delivery_over s \<Longrightarrow> one_delivery_over (snd (push_chunk_if_room b s))"
proof (cases "b = [] \<or> buffered_bytes s = 0")
  case False
  then show "one_delivery_over s \<Longrightarrow> ?thesis"
    by (cases b) (auto simp: one_delivery_over_def push_chunk_if_room_def Let_def)
qed (auto simp: one_delivery_over_def push_chunk_if_room_def Let_def stream_inv_def full_chunks_Nil_iff)

lemma one_delivery_over_take_next:
  assumes "stream_inv s" and "one_delivery_over s"
  shows "one_delivery_over (snd (take_next s))"
proof (cases "items s")
  case (Cons i rest)
  have "full_chunks rest = [] \<Longrightarrow> queued_bytes rest = 0"
    by (simp add: full_chunks_Nil_iff)
  then show ?thesis
    using assms Cons
    by (cases i) (auto simp: one_delivery_over_def take_next_def stream_inv_def split: if_splits)
qed (use assms in \<open>simp add: take_next_def\<close>)

lemma one_delivery_over_flags:
  "one_delivery_over (cancel s)"
  "one_delivery_over s \<Longrightarrow> one_delivery_over (snd (park v s))"
  "one_delivery_over s \<Longrightarrow> one_delivery_over (snd (unpark s))"
  "one_delivery_over s \<Longrightarrow> one_delivery_over (snd (park_writer v s))"
  "one_delivery_over s \<Longrightarrow> one_delivery_over (set_paused p s)"
  by (auto simp: one_delivery_over_def cancel_def park_def unpark_def park_writer_def set_paused_def)

lemma one_delivery_over_act:
  assumes "stream_inv s" and "one_delivery_over s" and "whole_or_sliced x"
  shows "one_delivery_over (stream_act x s)"
  using assms
  by (cases x)
    (simp_all add: whole_or_sliced_def one_delivery_over_push one_delivery_over_within
      one_delivery_over_if_room one_delivery_over_take_next one_delivery_over_flags
      push_head_def push_end_def push_failure_def)

lemma one_delivery_over_run:
  "list_all whole_or_sliced xs \<Longrightarrow> stream_inv s \<Longrightarrow> one_delivery_over s \<Longrightarrow>
   one_delivery_over (run stream_act xs s)"
  by (induction xs arbitrary: s) (auto simp: one_delivery_over_act stream_wf.inv_act)

section \<open>Properties\<close>

lemma accepted_open:
  "ended (run stream_act xs s) \<or> list_all (\<lambda>i. \<not> is_terminal i) (emitted stream_act stream_accepts xs s)"
proof (induction xs arbitrary: s)
  case (Cons x xs)
  show ?case
  proof (cases "ended (run stream_act (x # xs) s)")
    case False
    have "\<not> ended (stream_act x s)"
    proof
      assume "ended (stream_act x s)"
      then have "ended (run stream_act xs (stream_act x s))"
        by (induction xs arbitrary: x s) (auto simp: stream_stays_ended)
      with False show False
        by simp
    qed
    then have "list_all (\<lambda>i. \<not> is_terminal i) (stream_accepts x s)"
      using accepts_at_most_one [of x s] accepts_terminal [of x s "[]"] by auto
    with Cons.IH [of "stream_act x s"] False show ?thesis
      by simp
  qed simp
qed simp

lemma items_new_stream [simp]: "items (new_stream n) = []"
  by (simp add: new_stream_def)

text \<open>
  Whatever the Ruby thread and the worker do, in whatever order, the worker
  is handed exactly the items the queue accepted, in the order it accepted them:
  what was handed out is a prefix of what was accepted, and until the stream is
  cancelled the rest is still queued, none lost and none repeated.
\<close>

theorem stream_delivers_in_order:
  "let final = run stream_act ops (new_stream n);
       accepted = emitted stream_act stream_accepts ops (new_stream n);
       delivered = emitted stream_act stream_hands_out ops (new_stream n)
   in prefix delivered accepted \<and> (cancelled final \<or> accepted = delivered @ items final)"
  using stream_fifo.hands_out_prefix [of "new_stream n" ops]
    stream_fifo.live_conserves [of "new_stream n" ops]
  by (auto simp: Let_def)

text \<open>
  C13. After any run the running byte count equals the bytes really queued, a
  cancelled stream holds nothing, and an end or a failure is accepted at most
  once and as the last thing ever accepted; as long as the stream has not ended,
  none was accepted.
\<close>

theorem stream_accounting:
  "let final = run stream_act ops (new_stream n);
       accepted = emitted stream_act stream_accepts ops (new_stream n)
   in buffered_bytes final = length (body_of (items final)) \<and>
      (cancelled final = (cancelled final \<and> items final = [])) \<and>
      terminal_last accepted \<and>
      (ended final \<or> list_all (\<lambda>i. \<not> is_terminal i) accepted)"
proof -
  have "stream_inv (run stream_act ops (new_stream n))"
    by (rule stream_wf.inv_run) simp
  then show ?thesis
    using accepted_terminal_last [of ops "new_stream n"] accepted_open [of ops "new_stream n"]
    by (auto simp: Let_def stream_inv_def queued_bytes_body)
qed

text \<open>
  C19. Memory stays bounded.  As long as body bytes enter only by the slicing
  push, the queue never holds more than its budget; when whole deliveries enter
  as well, it is above the budget only while it holds a single non-empty chunk.
\<close>

theorem stream_memory_bounded:
  assumes "list_all whole_or_sliced ops"
  shows "let final = run stream_act ops (new_stream n) in
    (list_all sliced_writes ops \<longrightarrow> buffered_bytes final \<le> max n 1) \<and>
    (buffered_bytes final \<le> max n 1 \<or> length (full_chunks (items final)) = 1)"
proof -
  have max: "max_buffered_bytes (run stream_act xs s) = max_buffered_bytes s" for xs s
  proof (induction xs arbitrary: s)
    case (Cons x xs)
    have "max_buffered_bytes (stream_act x s) = max_buffered_bytes s"
      by (cases x) (auto simp: stream_ops Let_def split: list.splits stream_item.splits)
    with Cons.IH show ?case
      by simp
  qed simp
  have new: "buffered_bytes (new_stream n) = 0" "max_buffered_bytes (new_stream n) = max n 1"
    by (simp_all add: new_stream_def)
  then have "one_delivery_over (run stream_act ops (new_stream n))"
    using assms by (intro one_delivery_over_run) (simp_all add: one_delivery_over_def)
  moreover have "list_all sliced_writes ops \<Longrightarrow> buffered_bytes (run stream_act ops (new_stream n)) \<le> max n 1"
    using sliced_run_keeps_budget [of ops "new_stream n"] new max by simp
  ultimately show ?thesis
    using max new by (simp add: Let_def one_delivery_over_def)
qed

theorem stream_memory_bounded_witness:
  "let final = run stream_act [Op_push_within_budget ''abcdef'', Op_push_if_room ''g''] (new_stream 4) in
     buffered_bytes final = 4 \<and> (buffered_bytes final \<le> max 4 1 \<or> length (full_chunks (items final)) = 1)"
  using stream_memory_bounded [of "[Op_push_within_budget ''abcdef'', Op_push_if_room ''g'']" 4]
  by (simp add: whole_or_sliced_def stream_ops new_stream_def Let_def)

end
