(* ===== verification/Fiber_Client.thy ===== *)
theory Fiber_Client
  imports Budget Response_Stream
begin

text \<open>
  How work reaches the Ruby owner thread (src/src/fiber.rs): the command channel
  with its wakeup socket, admission, owed wakeups, the reactor's pass over them,
  and the two ways of collecting a streamed response.

  The state every client handle shares is one record.  A request (\<open>'q\<close>), a
  stream handle (\<open>'h\<close>) and a stream (\<open>'r\<close>) are references and so type
  parameters.  What \<open>wake::signal\<close> answers comes from the operating system and
  is a field of the state; the calls into Ruby are arguments.
\<close>

section \<open>Commands\<close>

record ('q, 'h) fiber_call =
  fc_request :: 'q
  fc_handle :: 'h
  fc_permit :: lease

record admin_request =
  adm_method :: string
  adm_path :: string
  adm_body :: bytes
  adm_inflight :: u64

text \<open>A one-shot reply channel, by identity.\<close>

type_synonym reply = nat

datatype ('q, 'h) fiber_command =
    Cmd_call "('q, 'h) fiber_call"
  | Cmd_admin admin_request reply
  | Cmd_drain
  | Cmd_shutdown reply

text \<open>
  An admin request handed to Ruby with the way to answer it.  The first answer
  takes the channel; the result says what is sent on it, if anything.
\<close>

record admin_envelope =
  ae_request :: admin_request
  ae_reply :: "reply option"

definition admin_reply :: "nat \<Rightarrow> string \<Rightarrow> admin_envelope \<Rightarrow> (reply \<times> nat \<times> string) option \<times> admin_envelope" where
  "admin_reply status body e =
     (case ae_reply e of
        None \<Rightarrow> (None, e)
      | Some r \<Rightarrow> (Some (r, status, body), e\<lparr>ae_reply := None\<rparr>))"

text \<open>What Ruby reads of an admin request.\<close>

definition admin_http_method :: "admin_envelope \<Rightarrow> string" where
  "admin_http_method e = adm_method (ae_request e)"

definition admin_path :: "admin_envelope \<Rightarrow> string" where
  "admin_path e = adm_path (ae_request e)"

definition admin_body :: "admin_envelope \<Rightarrow> bytes" where
  "admin_body e = adm_body (ae_request e)"

definition admin_inflight :: "admin_envelope \<Rightarrow> u64" where
  "admin_inflight e = adm_inflight (ae_request e)"

text \<open>
  A call handed to Ruby: the call is taken out once it is executed, its stream is kept
  so that a fiber can still ask whether its client has gone.
\<close>

record ('q, 'h, 's) fiber_envelope =
  fe_stream :: 's
  fe_call :: "('q, 'h) fiber_call option"

definition envelope_cancelled :: "('s \<Rightarrow> response_stream) \<Rightarrow> ('q, 'h, 's) fiber_envelope \<Rightarrow> bool" where
  "envelope_cancelled heap e = is_cancelled (heap (fe_stream e))"

section \<open>The reactor's heartbeat\<close>

record reactor_heartbeat =
  hb_started_at :: instant
  last_pass_ms :: u64

definition new_heartbeat :: "instant \<Rightarrow> reactor_heartbeat" where
  "new_heartbeat now = \<lparr> hb_started_at = now, last_pass_ms = 0 \<rparr>"

text \<open>\<open>as u64\<close> keeps the low 64 bits of the milliseconds.\<close>

definition elapsed_ms :: "instant \<Rightarrow> reactor_heartbeat \<Rightarrow> u64" where
  "elapsed_ms now hb = word_of_nat ((now - hb_started_at hb) div 1000000)"

definition record_pass :: "instant \<Rightarrow> reactor_heartbeat \<Rightarrow> reactor_heartbeat" where
  "record_pass now hb = hb\<lparr>last_pass_ms := elapsed_ms now hb\<rparr>"

definition idle_for :: "instant \<Rightarrow> reactor_heartbeat \<Rightarrow> duration" where
  "idle_for now hb = unat (saturating_sub (elapsed_ms now hb) (last_pass_ms hb)) * 1000000"

section \<open>The client\<close>

record ('q, 'h, 'r) runtime =
  commands :: "('q, 'h) fiber_command list"
  receiver_alive :: bool
  admission :: ceiling
  owed :: "'r list"
  heartbeat :: reactor_heartbeat
  signal_answer :: "(bridge_error, unit) result"

definition inflight_requests :: "('q, 'h, 'r) runtime \<Rightarrow> u64" where
  "inflight_requests rt = budget_used (admission rt)"

definition reactor_idle_for :: "instant \<Rightarrow> ('q, 'h, 'r) runtime \<Rightarrow> duration" where
  "reactor_idle_for now rt = idle_for now (heartbeat rt)"

definition wake_body :: "'r \<Rightarrow> ('q, 'h, 'r) runtime \<Rightarrow> ('q, 'h, 'r) runtime" where
  "wake_body stream rt = rt\<lparr>owed := owe stream (owed rt)\<rparr>"

text \<open>
  Sending to a receiver that is gone fails and drops the command, and with it
  whatever the command held.
\<close>

definition drop_command :: "('q, 'h) fiber_command \<Rightarrow> ceiling \<Rightarrow> ceiling" where
  "drop_command c adm = (case c of Cmd_call call \<Rightarrow> snd (drop_lease (fc_permit call) adm) | _ \<Rightarrow> adm)"

definition send_and_wake ::
    "('q, 'h) fiber_command \<Rightarrow> ('q, 'h, 'r) runtime \<Rightarrow> (bridge_error, unit) result \<times> ('q, 'h, 'r) runtime" where
  "send_and_wake c rt =
     (if \<not> receiver_alive rt
      then (Inl RuntimeStopped, rt\<lparr>admission := drop_command c (admission rt)\<rparr>)
      else (signal_answer rt, rt\<lparr>commands := commands rt @ [c]\<rparr>))"

definition submit ::
    "'q \<Rightarrow> 'h \<Rightarrow> ('q, 'h, 'r) runtime \<Rightarrow> (bridge_error, unit) result \<times> ('q, 'h, 'r) runtime" where
  "submit request handle rt =
     (case try_acquire 1 (admission rt) of
        (None, adm) \<Rightarrow> (Inl Overloaded, rt\<lparr>admission := adm\<rparr>)
      | (Some permit, adm) \<Rightarrow>
          send_and_wake
            (Cmd_call \<lparr> fc_request = request, fc_handle = handle, fc_permit = permit \<rparr>)
            (rt\<lparr>admission := adm\<rparr>))"

text \<open>\<open>received\<close> is what \<open>recv_timeout\<close> on the reply channel returned.\<close>

definition admin_call ::
    "string \<Rightarrow> string \<Rightarrow> bytes \<Rightarrow> reply \<Rightarrow> (recv_timeout_error, nat \<times> string) result
       \<Rightarrow> ('q, 'h, 'r) runtime \<Rightarrow> (bridge_error, nat \<times> string) result \<times> ('q, 'h, 'r) runtime" where
  "admin_call method path body reply received rt =
     (let (sent, rt1) = send_and_wake
            (Cmd_admin \<lparr> adm_method = method, adm_path = path, adm_body = body,
                         adm_inflight = budget_used (admission rt) \<rparr> reply) rt
      in (and_then sent (\<lambda>_. map_sum map_recv_timeout id received), rt1))"

definition client_drain :: "('q, 'h, 'r) runtime \<Rightarrow> (bridge_error, unit) result \<times> ('q, 'h, 'r) runtime" where
  "client_drain rt = send_and_wake Cmd_drain rt"

definition request_shutdown ::
    "reply \<Rightarrow> (recv_timeout_error, unit) result \<Rightarrow> ('q, 'h, 'r) runtime
       \<Rightarrow> (bridge_error, unit) result \<times> ('q, 'h, 'r) runtime" where
  "request_shutdown reply received rt =
     (let (sent, rt1) = send_and_wake (Cmd_shutdown reply) rt
      in (and_then sent (\<lambda>_. map_sum map_recv_timeout id received), rt1))"

section \<open>The reactor's pass\<close>

text \<open>What one pass hands to the Ruby loop.\<close>

record ('q, 'h) batch =
  envelopes :: "('q, 'h) fiber_call list"
  admin :: "(admin_request \<times> reply) list"
  draining :: bool
  shutting_down :: bool
  shutdown_reply :: "reply option"

text \<open>
  The loop over the command channel: it ends at a shutdown command, when the
  channel is empty, or when every sender is gone and the channel is empty.  The
  second component is what it leaves in the channel.
\<close>

fun receive_commands ::
    "bool \<Rightarrow> ('q, 'h) batch \<Rightarrow> ('q, 'h) fiber_command list \<Rightarrow> ('q, 'h) batch \<times> ('q, 'h) fiber_command list" where
  "receive_commands senders b [] = (if senders then b else b\<lparr>shutting_down := True\<rparr>, [])"
| "receive_commands senders b (Cmd_call call # cs) =
     receive_commands senders (b\<lparr>envelopes := envelopes b @ [call]\<rparr>) cs"
| "receive_commands senders b (Cmd_admin request reply # cs) =
     receive_commands senders (b\<lparr>admin := admin b @ [(request, reply)]\<rparr>) cs"
| "receive_commands senders b (Cmd_drain # cs) =
     receive_commands senders (b\<lparr>draining := True\<rparr>) cs"
| "receive_commands senders b (Cmd_shutdown reply # cs) =
     (b\<lparr>shutdown_reply := Some reply, shutting_down := True\<rparr>, cs)"

definition empty_batch :: "('q, 'h) batch" where
  "empty_batch = \<lparr> envelopes = [], admin = [], draining = False, shutting_down = False, shutdown_reply = None \<rparr>"

text \<open>
  Resolving what is owed: every stream recorded so far is unparked, and the
  variable taken out of it, if any, is resolved.  \<open>get\<close> and \<open>put\<close> reach the
  stream a reference stands for in the heap.
\<close>

fun resolve_wakeups ::
    "('r \<Rightarrow> 'm \<Rightarrow> response_stream) \<Rightarrow> ('r \<Rightarrow> response_stream \<Rightarrow> 'm \<Rightarrow> 'm) \<Rightarrow> 'r list \<Rightarrow> 'm
       \<Rightarrow> variable list \<times> 'm" where
  "resolve_wakeups get put [] heap = ([], heap)"
| "resolve_wakeups get put (r # rs) heap =
     (let (v, s) = unpark (get r heap);
          (vs, heap1) = resolve_wakeups get put rs (put r s heap)
      in ((case v of None \<Rightarrow> vs | Some x \<Rightarrow> x # vs), heap1))"

text \<open>
  One pass: the heartbeat is recorded, owed wakeups are resolved, the wakeup
  bytes are consumed, and then the commands are read.  A broken socket ends the
  pass before any command is read.
\<close>

definition bridge_drain ::
    "('r \<Rightarrow> 'm \<Rightarrow> response_stream) \<Rightarrow> ('r \<Rightarrow> response_stream \<Rightarrow> 'm \<Rightarrow> 'm) \<Rightarrow> instant
       \<Rightarrow> (bridge_error, unit) result \<Rightarrow> bool \<Rightarrow> ('q, 'h, 'r) runtime \<Rightarrow> 'm
       \<Rightarrow> (bridge_error, ('q, 'h) batch) result \<times> variable list \<times> ('q, 'h, 'r) runtime \<times> 'm" where
  "bridge_drain get put now drained senders rt heap =
     (let (streams, left) = take_owed (owed rt);
          (resolved, heap1) = resolve_wakeups get put streams heap;
          rt1 = rt\<lparr>heartbeat := record_pass now (heartbeat rt), owed := left\<rparr>
      in case drained of
           Inl e \<Rightarrow> (Inl e, resolved, rt1, heap1)
         | Inr _ \<Rightarrow>
             let (b, cs) = receive_commands senders empty_batch (commands rt1)
             in (Inr b, resolved, rt1\<lparr>commands := cs\<rparr>, heap1))"

text \<open>
  Executing one call: it is taken out of its envelope, the Ruby classes the call
  needs are looked up (\<open>classes\<close> is what the lookup of \<open>StringIO\<close> returned), the
  application runs (\<open>outcome\<close> is what \<open>rack::call_streaming\<close> returned), a failure
  is reported on the stream and its worker is woken, and the permit is dropped.  A
  failing lookup returns early: the call is dropped with its permit, and nothing
  is pushed on the stream.
\<close>

definition bridge_execute ::
    "(string, unit) result \<Rightarrow> (bridge_error, unit) result \<Rightarrow> ('q, 'h) fiber_call option \<Rightarrow> ceiling \<Rightarrow> response_stream
       \<Rightarrow> (string, unit) result \<times> ('q, 'h) fiber_call option \<times> ceiling \<times> response_stream \<times> bool" where
  "bridge_execute classes outcome call adm stream =
     (case call of
        None \<Rightarrow> (Inl ''request reused'', None, adm, stream, False)
      | Some c \<Rightarrow>
          case classes of
            Inl e \<Rightarrow> (Inl e, None, snd (drop_lease (fc_permit c) adm), stream, False)
          | Inr _ \<Rightarrow>
              let (stream1, woken) =
                    (case outcome of
                       Inl e \<Rightarrow> (snd (push_failure e stream), True)
                     | Inr _ \<Rightarrow> (stream, False))
              in (Inr (), None, snd (drop_lease (fc_permit c) adm), stream1, woken))"

definition ack_shutdown :: "bool \<Rightarrow> reply option \<Rightarrow> bool \<times> reply option" where
  "ack_shutdown accepted slot = (slot \<noteq> None \<and> accepted, None)"

section \<open>Collecting a response\<close>

definition collected :: "response_head option \<Rightarrow> bytes \<Rightarrow> (bridge_error, response) result" where
  "collected head body =
     (case head of
        None \<Rightarrow> Inl (InvalidResponse ''stream ended without a head'')
      | Some h \<Rightarrow> Inr \<lparr> resp_status = head_status h, resp_headers = head_headers h, resp_body = body,
                        resp_thread = head_thread h \<rparr>)"

text \<open>The inner loop of \<open>call\<close> over the items at hand: a result, or what it has so far.\<close>

fun call_items ::
    "response_head option \<Rightarrow> bytes \<Rightarrow> stream_item list
       \<Rightarrow> (bridge_error, response) result + (response_head option \<times> bytes)" where
  "call_items head body [] = Inr (head, body)"
| "call_items head body (Head h # xs) = call_items (Some h) body xs"
| "call_items head body (Chunk c # xs) = call_items head (body @ c) xs"
| "call_items head body (Failed e # xs) = Inl (Inl e)"
| "call_items head body (End # xs) = Inl (collected head body)"

text \<open>
  The outer loop: each round is what arrived and how much of the deadline is
  left afterwards.  \<^term>\<open>None\<close> says the call is still waiting after those rounds.
\<close>

fun call_loop ::
    "response_head option \<Rightarrow> bytes \<Rightarrow> (stream_item list \<times> duration) list
       \<Rightarrow> (bridge_error, response) result option" where
  "call_loop head body [] = None"
| "call_loop head body ((xs, remaining) # rounds) =
     (case call_items head body xs of
        Inl r \<Rightarrow> Some r
      | Inr (head1, body1) \<Rightarrow>
          if remaining = 0 then Some (Inl ResponseTimeout) else call_loop head1 body1 rounds)"

text \<open>\<open>CollectingResponse\<close>: the completion is taken by the first result.\<close>

record collecting_response =
  cr_head :: "response_head option"
  cr_body :: bytes
  completion :: bool
  results :: "(bridge_error, response) result list"

definition new_collecting :: collecting_response where
  "new_collecting = \<lparr> cr_head = None, cr_body = [], completion = True, results = [] \<rparr>"

definition finish :: "(bridge_error, response) result \<Rightarrow> collecting_response \<Rightarrow> collecting_response" where
  "finish r c = (if completion c then c\<lparr>completion := False, results := results c @ [r]\<rparr> else c)"

fun collect_item :: "stream_item \<Rightarrow> collecting_response \<Rightarrow> collecting_response" where
  "collect_item (Head h) c = c\<lparr>cr_head := Some h\<rparr>"
| "collect_item (Chunk bs) c = c\<lparr>cr_body := cr_body c @ bs\<rparr>"
| "collect_item (Failed e) c = finish (Inl e) c"
| "collect_item End c =
     (case cr_head c of
        None \<Rightarrow> finish (Inl (InvalidResponse ''stream ended without a head'')) c
      | Some h \<Rightarrow> finish (collected (cr_head c) (cr_body c)) (c\<lparr>cr_head := None, cr_body := []\<rparr>))"

definition collect_wake :: "stream_item list \<Rightarrow> collecting_response \<Rightarrow> collecting_response" where
  "collect_wake xs c = run collect_item xs c"

section \<open>Admission\<close>

text \<open>
  The life of a runtime, at the grain of its atomic effects: requests are
  submitted, a pass takes commands out, a taken call finishes, and at the end the
  receiver goes away with what is left in the channel.  \<open>running\<close> holds the calls
  taken and not finished.
\<close>

record ('q, 'h, 'r) served =
  srv_runtime :: "('q, 'h, 'r) runtime"
  running :: "('q, 'h) fiber_call list"

datatype ('q, 'h) runtime_op =
    Rt_submit 'q 'h "(bridge_error, unit) result"
  | Rt_drain
  | Rt_pass
  | Rt_finish nat "(string, unit) result" "(bridge_error, unit) result" response_stream
  | Rt_receiver_gone

primrec runtime_act :: "('q, 'h) runtime_op \<Rightarrow> ('q, 'h, 'r) served \<Rightarrow> ('q, 'h, 'r) served" where
  "runtime_act (Rt_submit q h answer) s =
     s\<lparr>srv_runtime := snd (submit q h ((srv_runtime s)\<lparr>signal_answer := answer\<rparr>))\<rparr>"
| "runtime_act Rt_drain s = s\<lparr>srv_runtime := snd (client_drain (srv_runtime s))\<rparr>"
| "runtime_act Rt_pass s =
     (if receiver_alive (srv_runtime s) then
        let (b, cs) = receive_commands True empty_batch (commands (srv_runtime s))
        in s\<lparr>srv_runtime := (srv_runtime s)\<lparr>commands := cs\<rparr>, running := running s @ envelopes b\<rparr>
      else s)"
| "runtime_act (Rt_finish i classes outcome stream) s =
     (if i < length (running s) then
        let (_, _, adm, _, _) = bridge_execute classes outcome (Some (running s ! i)) (admission (srv_runtime s)) stream
        in s\<lparr>srv_runtime := (srv_runtime s)\<lparr>admission := adm\<rparr>,
             running := take i (running s) @ drop (Suc i) (running s)\<rparr>
      else s)"
| "runtime_act Rt_receiver_gone s =
     s\<lparr>srv_runtime := (srv_runtime s)\<lparr>receiver_alive := False, commands := [],
          admission := fold drop_command (commands (srv_runtime s)) (admission (srv_runtime s))\<rparr>\<rparr>"

section \<open>Facts about a pass\<close>

lemma empty_batch_simps [simp]: "envelopes empty_batch = []" "admin empty_batch = []"
  by (simp_all add: empty_batch_def)

fun calls_of :: "('q, 'h) fiber_command list \<Rightarrow> ('q, 'h) fiber_call list" where
  "calls_of [] = []"
| "calls_of (Cmd_call c # cs) = c # calls_of cs"
| "calls_of (_ # cs) = calls_of cs"

fun admins_of :: "('q, 'h) fiber_command list \<Rightarrow> (admin_request \<times> reply) list" where
  "admins_of [] = []"
| "admins_of (Cmd_admin r w # cs) = (r, w) # admins_of cs"
| "admins_of (_ # cs) = admins_of cs"

lemma calls_of_append [simp]: "calls_of (xs @ ys) = calls_of xs @ calls_of ys"
  by (induction xs rule: calls_of.induct) auto

lemma admins_of_append [simp]: "admins_of (xs @ ys) = admins_of xs @ admins_of ys"
  by (induction xs rule: admins_of.induct) auto

definition is_shutdown :: "('q, 'h) fiber_command \<Rightarrow> bool" where
  "is_shutdown c = (case c of Cmd_shutdown _ \<Rightarrow> True | _ \<Rightarrow> False)"

lemma is_shutdown_simps [simp]:
  "\<not> is_shutdown (Cmd_call c)" "\<not> is_shutdown (Cmd_admin r w)" "\<not> is_shutdown Cmd_drain"
  "is_shutdown (Cmd_shutdown w)"
  by (simp_all add: is_shutdown_def)

lemma receive_commands_splits:
  "receive_commands senders b cs = (b', rest) \<Longrightarrow>
   \<exists>taken. cs = taken @ rest \<and> envelopes b' = envelopes b @ calls_of taken \<and>
     admin b' = admin b @ admins_of taken \<and>
     (rest = [] \<or> list_ex is_shutdown taken) \<and> list_all (\<lambda>c. \<not> is_shutdown c) (butlast taken)"
proof (induction senders b cs arbitrary: b' rest rule: receive_commands.induct)
  case (2 senders b call cs)
  from 2(1) [of b' rest] 2(2) obtain taken where "cs = taken @ rest \<and>
      envelopes b' = envelopes b @ call # calls_of taken \<and> admin b' = admin b @ admins_of taken \<and>
      (rest = [] \<or> list_ex is_shutdown taken) \<and> list_all (\<lambda>c. \<not> is_shutdown c) (butlast taken)"
    by auto
  then show ?case
    by (intro exI [of _ "Cmd_call call # taken"]) auto
next
  case (3 senders b request reply cs)
  from 3(1) [of b' rest] 3(2) obtain taken where "cs = taken @ rest \<and>
      envelopes b' = envelopes b @ calls_of taken \<and> admin b' = admin b @ (request, reply) # admins_of taken \<and>
      (rest = [] \<or> list_ex is_shutdown taken) \<and> list_all (\<lambda>c. \<not> is_shutdown c) (butlast taken)"
    by auto
  then show ?case
    by (intro exI [of _ "Cmd_admin request reply # taken"]) auto
next
  case (4 senders b cs)
  from 4(1) [of b' rest] 4(2) obtain taken where "cs = taken @ rest \<and>
      envelopes b' = envelopes b @ calls_of taken \<and> admin b' = admin b @ admins_of taken \<and>
      (rest = [] \<or> list_ex is_shutdown taken) \<and> list_all (\<lambda>c. \<not> is_shutdown c) (butlast taken)"
    by auto
  then show ?case
    by (intro exI [of _ "Cmd_drain # taken"]) auto
next
  case (5 senders b reply cs)
  then show ?case
    by (intro exI [of _ "[Cmd_shutdown reply]"]) auto
qed (auto split: if_splits)

section \<open>Facts about admission\<close>

definition unit_permits :: "('q, 'h) fiber_call list \<Rightarrow> bool" where
  "unit_permits cs = list_all (\<lambda>c. held (fc_permit c) = 1) cs"

lemma unit_permits_simps [simp]:
  "unit_permits []" "unit_permits (c # cs) \<longleftrightarrow> held (fc_permit c) = 1 \<and> unit_permits cs"
  "unit_permits (xs @ ys) \<longleftrightarrow> unit_permits xs \<and> unit_permits ys"
  by (simp_all add: unit_permits_def)

definition served_inv :: "u64 \<Rightarrow> ('q, 'h, 'r) served \<Rightarrow> bool" where
  "served_inv cap s \<longleftrightarrow> (let rt = srv_runtime s; out = calls_of (commands rt) @ running s in
     capacity (admission rt) = cap \<and>
     used_count (admission rt) = length out \<and> length out \<le> unat cap \<and> unit_permits out \<and>
     (\<not> receiver_alive rt \<longrightarrow> commands rt = []))"

lemma drop_unit_permit:
  assumes "held l = 1" and "0 < used_count c"
  shows "used_count (snd (drop_lease l c)) = used_count c - 1" "capacity (snd (drop_lease l c)) = capacity c"
proof -
  show "used_count (snd (drop_lease l c)) = used_count c - 1"
    using budget.release_restores [of l c] assms by simp
  show "capacity (snd (drop_lease l c)) = capacity c"
    by (simp add: drop_lease_def)
qed

lemma try_acquire_one:
  assumes "try_acquire 1 c = (l, c')" and "used_count c \<le> unat (capacity c)"
  shows "capacity c' = capacity c"
    and "l = None \<Longrightarrow> c' = c \<and> used_count c = unat (capacity c)"
    and "l = Some p \<Longrightarrow> held p = 1 \<and> used_count c' = used_count c + 1 \<and> used_count c' \<le> unat (capacity c)"
proof -
  show cap: "capacity c' = capacity c"
    using assms(1) by (auto simp: try_acquire_def split: if_splits)
  show "l = None \<Longrightarrow> c' = c \<and> used_count c = unat (capacity c)"
    using budget.acquire_refuses [of 1 c c'] assms by (auto simp: capacity_count_def)
  have "l = Some p \<Longrightarrow> held p = 1"
    using assms(1) by (auto simp: try_acquire_def split: if_splits)
  moreover have "l = Some p \<Longrightarrow> used_count c' = used_count c + 1 \<and> used_count c' \<le> unat (capacity c)"
    using budget.acquire_lends [of 1 c p c'] assms cap by (auto simp: capacity_count_def)
  ultimately show "l = Some p \<Longrightarrow> held p = 1 \<and> used_count c' = used_count c + 1 \<and> used_count c' \<le> unat (capacity c)"
    by blast
qed

lemma fold_drop_command:
  assumes "unit_permits (calls_of cs)" and "length (calls_of cs) \<le> used_count c"
  shows "used_count (fold drop_command cs c) = used_count c - length (calls_of cs) \<and>
    capacity (fold drop_command cs c) = capacity c"
  using assms
proof (induction cs arbitrary: c rule: calls_of.induct)
  case (2 call cs)
  have "used_count (drop_command (Cmd_call call) c) = used_count c - 1"
      "capacity (drop_command (Cmd_call call) c) = capacity c"
    using drop_unit_permit [of "fc_permit call" c] 2(2,3) by (simp_all add: drop_command_def)
  then show ?case
    using 2(1) [of "drop_command (Cmd_call call) c"] 2(2,3) by simp
qed (auto simp: drop_command_def)

lemma served_inv_submit:
  assumes "served_inv cap s"
  shows "served_inv cap (runtime_act (Rt_submit q h answer) s)"
proof -
  define rt where "rt = (srv_runtime s)\<lparr>signal_answer := answer\<rparr>"
  obtain l adm where acq: "try_acquire 1 (admission rt) = (l, adm)"
    by (cases "try_acquire 1 (admission rt)")
  have le: "used_count (admission rt) \<le> unat (capacity (admission rt))"
    using assms by (simp add: served_inv_def rt_def Let_def)
  note facts = try_acquire_one [OF acq le]
  show ?thesis
  proof (cases l)
    case None
    then have "submit q h rt = (Inl Overloaded, rt\<lparr>admission := adm\<rparr>)" and "adm = admission rt"
      using acq facts(2) by (auto simp: submit_def)
    then show ?thesis
      using assms by (simp add: served_inv_def rt_def Let_def)
  next
    case (Some p)
    have unit: "held p = 1" and count: "used_count adm = used_count (admission rt) + 1"
        and bound: "used_count adm \<le> unat (capacity (admission rt))"
      using facts(3) [OF Some] by auto
    have returned: "used_count (snd (drop_lease p adm)) = used_count (admission rt)"
        "capacity (snd (drop_lease p adm)) = capacity (admission rt)"
      using drop_unit_permit [OF unit, of adm] count facts(1) by auto
    show ?thesis
      using assms acq Some unit count bound returned facts(1)
      by (auto simp: served_inv_def submit_def send_and_wake_def drop_command_def Let_def rt_def)
  qed
qed

lemma served_inv_finish:
  assumes "served_inv cap s"
  shows "served_inv cap (runtime_act (Rt_finish i classes outcome stream) s)"
proof (cases "i < length (running s)")
  case True
  define c where "c = running s ! i"
  have split: "running s = take i (running s) @ c # drop (Suc i) (running s)"
    using True by (simp add: c_def id_take_nth_drop)
  have "unit_permits (running s)" and "0 < used_count (admission (srv_runtime s))"
    using assms True by (auto simp: served_inv_def Let_def)
  then have unit: "held (fc_permit c) = 1" "unit_permits (take i (running s) @ drop (Suc i) (running s))"
    by (metis split unit_permits_simps(2,3))+
  note dropped = drop_unit_permit [OF unit(1) \<open>0 < used_count (admission (srv_runtime s))\<close>]
  show ?thesis
    using assms True unit dropped
    by (auto simp: served_inv_def bridge_execute_def Let_def simp flip: c_def split: sum.splits)
qed (simp add: assms)

interpretation served_wf: operation_invariant runtime_act "served_inv cap" for cap
proof unfold_locales
  fix s :: "('q, 'h, 'r) served" and x
  assume inv: "served_inv cap s"
  show "served_inv cap (runtime_act x s)"
  proof (cases x)
    case Rt_drain
    then show ?thesis
      using inv by (auto simp: served_inv_def client_drain_def send_and_wake_def drop_command_def Let_def)
  next
    case Rt_pass
    obtain b cs where rc: "receive_commands True empty_batch (commands (srv_runtime s)) = (b, cs)"
      by (cases "receive_commands True empty_batch (commands (srv_runtime s))")
    obtain taken where "commands (srv_runtime s) = taken @ cs" "envelopes b = calls_of taken"
      using receive_commands_splits [OF rc] by auto
    then show ?thesis
      using inv rc Rt_pass by (auto simp: served_inv_def Let_def)
  next
    case Rt_receiver_gone
    then show ?thesis
      using inv fold_drop_command [of "commands (srv_runtime s)" "admission (srv_runtime s)"]
      by (auto simp: served_inv_def Let_def)
  qed (simp_all only: served_inv_submit [OF inv] served_inv_finish [OF inv])
qed

section \<open>Facts about collecting\<close>

lemma call_items_append:
  "call_items head body (xs @ ys) =
     (case call_items head body xs of Inl r \<Rightarrow> Inl r | Inr (head1, body1) \<Rightarrow> call_items head1 body1 ys)"
  by (induction head body xs rule: call_items.induct) auto

lemma call_loop_batches:
  "list_all (\<lambda>(_, remaining). remaining > 0) rounds \<Longrightarrow>
   call_loop head body rounds =
     (case call_items head body (concat (map fst rounds)) of Inl r \<Rightarrow> Some r | Inr _ \<Rightarrow> None)"
  by (induction rounds arbitrary: head body) (auto simp: call_items_append split: sum.splits)

lemma call_items_body:
  "call_items head body xs = Inl (Inr resp) \<Longrightarrow> terminal_last xs \<Longrightarrow> resp_body resp = body @ body_of xs"
proof (induction head body xs rule: call_items.induct)
  case (5 head body xs)
  then show ?case
    by (cases xs) (auto simp: terminal_last_def collected_def split: option.splits)
qed (auto dest: terminal_last_tl)

lemma collect_wake_agrees:
  assumes "terminal_last xs" and "completion c" and "results c = []"
  shows "results (collect_wake xs c) =
    (case call_items (cr_head c) (cr_body c) xs of Inl r \<Rightarrow> [r] | Inr _ \<Rightarrow> [])"
  using assms unfolding collect_wake_def
proof (induction xs arbitrary: c)
  case (Cons i xs)
  have last: "is_terminal i \<Longrightarrow> xs = []"
    using Cons.prems(1) by (cases xs) (auto simp: terminal_last_def)
  show ?case
    using Cons.IH [of "collect_item i c"] Cons.prems last terminal_last_tl [OF Cons.prems(1)]
    by (cases i) (auto simp: finish_def collected_def split: option.splits)
qed simp

section \<open>Properties\<close>

definition new_runtime :: "u64 \<Rightarrow> ('q, 'h, 'r) runtime" where
  "new_runtime cap =
     \<lparr> commands = [], receiver_alive = True, admission = new_budget cap, owed = [],
       heartbeat = new_heartbeat 0, signal_answer = Inr () \<rparr>"

text \<open>
  C8. Admission bounds the work in the runtime: after any sequence of
  submissions, passes, completions and a receiver that goes away, the counter is
  the number of requests queued or running, and that never exceeds the limit.
\<close>

theorem admission_bounds_inflight:
  "let s = run runtime_act ops \<lparr> srv_runtime = (new_runtime cap :: ('q, 'h, 'r) runtime), running = [] \<rparr>;
       rt = srv_runtime s
   in unat (inflight_requests rt) = length (calls_of (commands rt)) + length (running s) \<and>
      unat (inflight_requests rt) \<le> unat cap"
proof -
  have "served_inv cap \<lparr> srv_runtime = (new_runtime cap :: ('q, 'h, 'r) runtime), running = [] \<rparr>"
    by (simp add: served_inv_def new_runtime_def new_budget_def used_count_def Let_def)
  from served_wf.inv_run [OF this, of ops] show ?thesis
    by (simp add: served_inv_def inflight_requests_def budget_used_def used_count_def Let_def)
qed

text \<open>
  What a submission does on every path: over the limit or with the runtime
  gone it is refused and leaves no command and no permit behind; otherwise the
  request is queued with its permit, and the answer is that of the wakeup alone,
  so an error then does not mean the request will not run.
\<close>

theorem submit_branches:
  assumes "used_count (admission rt) \<le> unat (capacity (admission rt))"
  shows "let (answer, rt') = submit q h rt in
    (if used_count (admission rt) = unat (capacity (admission rt))
     then answer = Inl Overloaded \<and> rt' = rt
     else if \<not> receiver_alive rt
     then answer = Inl RuntimeStopped \<and> commands rt' = commands rt \<and>
       used_count (admission rt') = used_count (admission rt)
     else answer = signal_answer rt \<and>
       (\<exists>p. commands rt' = commands rt @ [Cmd_call \<lparr> fc_request = q, fc_handle = h, fc_permit = p \<rparr>]) \<and>
       used_count (admission rt') = used_count (admission rt) + 1)"
proof -
  obtain l adm where acq: "try_acquire 1 (admission rt) = (l, adm)"
    by (cases "try_acquire 1 (admission rt)")
  note facts = try_acquire_one [OF acq assms]
  show ?thesis
  proof (cases l)
    case None
    then show ?thesis
      using facts(2) acq by (simp add: submit_def)
  next
    case (Some p)
    have p: "held p = 1" "used_count adm = used_count (admission rt) + 1"
        "used_count adm \<le> unat (capacity (admission rt))"
      using facts(3) [OF Some] by auto
    then have "used_count (snd (drop_lease p adm)) = used_count (admission rt)"
      using drop_unit_permit [of p adm] by simp
    then show ?thesis
      using p acq Some by (auto simp: submit_def send_and_wake_def drop_command_def)
  qed
qed

theorem submit_branches_witness:
  "fst (submit ''q'' ''h'' (new_runtime 0 :: (string, string, nat) runtime)) = Inl Overloaded"
  using submit_branches [of "new_runtime 0 :: (string, string, nat) runtime" "''q''" "''h''"]
  by (simp add: new_runtime_def new_budget_def used_count_def split: prod.splits)

text \<open>
  One pass hands the application every queued call and admin request in
  order, up to and including the first shutdown command and never past it; what
  is left in the channel lies behind that shutdown.
\<close>

theorem pass_takes_in_order:
  "let (b, rest) = receive_commands senders empty_batch cs in
   \<exists>taken. cs = taken @ rest \<and> envelopes b = calls_of taken \<and> admin b = admins_of taken \<and>
     (rest = [] \<or> list_ex is_shutdown taken) \<and> list_all (\<lambda>c. \<not> is_shutdown c) (butlast taken)"
proof (cases "receive_commands senders empty_batch cs")
  case (Pair b rest)
  from receive_commands_splits [OF this] show ?thesis
    by (simp add: Pair)
qed

text \<open>
  C23. The two ways of collecting a response agree, however the items are spread
  over wakeups: as long as the deadline holds, the waiting call returns exactly
  what the completion is given, once; and a collected body is all the chunks of
  the stream in order.
\<close>

theorem collecting_agrees:
  assumes "terminal_last (concat (map fst rounds))"
    and "list_all (\<lambda>(_, remaining). remaining > 0) rounds"
  shows "results (run collect_wake (map fst rounds) new_collecting) =
      (case call_loop None [] rounds of None \<Rightarrow> [] | Some r \<Rightarrow> [r]) \<and>
    (\<forall>resp. call_loop None [] rounds = Some (Inr resp) \<longrightarrow>
      resp_body resp = body_of (concat (map fst rounds)))"
proof -
  have "run collect_wake xss c = collect_wake (concat xss) c" for xss c
    by (induction xss arbitrary: c) (simp_all add: collect_wake_def)
  then have "results (run collect_wake (map fst rounds) new_collecting) =
      (case call_items None [] (concat (map fst rounds)) of Inl r \<Rightarrow> [r] | Inr _ \<Rightarrow> [])"
    using collect_wake_agrees [OF assms(1), of new_collecting] by (simp add: new_collecting_def)
  then show ?thesis
    using call_loop_batches [OF assms(2), of None "[]"] call_items_body [OF _ assms(1), of None "[]"]
    by (auto split: sum.splits)
qed

theorem collecting_agrees_witness:
  "results (run collect_wake [[Chunk ''ab''], [Failed Overloaded]] new_collecting) = [Inl Overloaded]"
  using collecting_agrees [of "[([Chunk ''ab''], 1), ([Failed Overloaded], 1)]"]
  by (simp add: terminal_last_def)

end
