(* ===== verification/Wakeup_Protocol.thy ===== *)
theory Wakeup_Protocol
  imports Fiber_Client
begin

text \<open>
  The two places where a thread sleeps until another one wakes it, at the grain
  of single locks: the reactor that waits on the wakeup socket (send and signal
  in src/src/fiber.rs and src/src/wake.rs against the pass of \<open>FiberBridge::drain\<close>),
  and the fiber parked on a full response queue (\<open>park_writer\<close> and
  \<open>writer_owed_wakeup\<close> in src/src/stream.rs against \<open>drain_stream\<close> and the
  watermark callbacks of the worker).
\<close>

section \<open>The reactor and its socket\<close>

text \<open>
  A pass of the reactor is four steps: it returns from the wait (because the
  socket is readable or its deadline passed), resolves what is owed, consumes
  the bytes, and reads commands until there are none.
\<close>

datatype reactor_pc = Waiting | Resolving | Consuming | Receiving | Stopped

text \<open>
  \<open>unsignalled\<close> counts the producers that have queued something and have not yet
  written their byte.  A producer writes one byte, or none when the socket is
  full, which means a byte is already there.
\<close>

record ('q, 'h, 'r) reactor_world =
  rw_commands :: "('q, 'h) fiber_command list"
  rw_owed :: "'r list"
  wake_bytes :: nat
  unsignalled :: nat
  rpc :: reactor_pc

definition reactor_start :: "('q, 'h, 'r) reactor_world \<Rightarrow> bool" where
  "reactor_start w \<longleftrightarrow>
     w = \<lparr> rw_commands = [], rw_owed = [], wake_bytes = 0, unsignalled = 0, rpc = Waiting \<rparr>"

inductive reactor_step :: "('q, 'h, 'r) reactor_world \<Rightarrow> ('q, 'h, 'r) reactor_world \<Rightarrow> bool" where
  producer_sends: "reactor_step w (w\<lparr>rw_commands := rw_commands w @ [c], unsignalled := unsignalled w + 1\<rparr>)"
| producer_owes: "reactor_step w (w\<lparr>rw_owed := owe r (rw_owed w), unsignalled := unsignalled w + 1\<rparr>)"
| producer_signals: "unsignalled w > 0 \<Longrightarrow>
    reactor_step w (w\<lparr>unsignalled := unsignalled w - 1, wake_bytes := wake_bytes w + 1\<rparr>)"
| producer_would_block: "unsignalled w > 0 \<Longrightarrow> wake_bytes w > 0 \<Longrightarrow>
    reactor_step w (w\<lparr>unsignalled := unsignalled w - 1\<rparr>)"
| reactor_wakes: "rpc w = Waiting \<Longrightarrow> reactor_step w (w\<lparr>rpc := Resolving\<rparr>)"
| reactor_resolves: "rpc w = Resolving \<Longrightarrow>
    reactor_step w (w\<lparr>rw_owed := snd (take_owed (rw_owed w)), rpc := Consuming\<rparr>)"
| reactor_consumes: "rpc w = Consuming \<Longrightarrow> reactor_step w (w\<lparr>wake_bytes := 0, rpc := Receiving\<rparr>)"
| reactor_receives: "rpc w = Receiving \<Longrightarrow> rw_commands w = c # cs \<Longrightarrow>
    reactor_step w (w\<lparr>rw_commands := cs, rpc := (if is_shutdown c then Stopped else Receiving)\<rparr>)"
| reactor_waits: "rpc w = Receiving \<Longrightarrow> rw_commands w = [] \<Longrightarrow> reactor_step w (w\<lparr>rpc := Waiting\<rparr>)"

definition reactor_inv :: "('q, 'h, 'r) reactor_world \<Rightarrow> bool" where
  "reactor_inv w \<longleftrightarrow>
     (rpc w = Waiting \<and> rw_commands w \<noteq> [] \<longrightarrow> wake_bytes w > 0 \<or> unsignalled w > 0)"

interpretation reactor_runs: inductive_invariant reactor_start reactor_step reactor_inv
proof unfold_locales
  fix w w' :: "('q, 'h, 'r) reactor_world"
  assume "reactor_inv w" and "reactor_step w w'"
  from this(2,1) show "reactor_inv w'"
    by (cases rule: reactor_step.cases) (auto simp: reactor_inv_def split: if_splits)
qed (simp add: reactor_start_def reactor_inv_def)

section \<open>A parked writer\<close>

text \<open>
  The worker's drain is a loop of single \<open>take_next\<close> calls followed by one
  \<open>writer_owed_wakeup\<close>; the filter forgets the stream when it takes the end.
\<close>

datatype worker_pc = W_idle | W_draining | W_checking | W_finished | W_dropping | W_gone

record writer_world =
  queue :: response_stream
  event_scheduled :: bool
  wakeup_owed :: bool
  wpc :: worker_pc

definition writer_start :: "nat \<Rightarrow> writer_world \<Rightarrow> bool" where
  "writer_start n w \<longleftrightarrow>
     w = \<lparr> queue = new_stream n, event_scheduled = False, wakeup_owed = False, wpc = W_idle \<rparr>"

text \<open>The pushes of the Ruby side, each followed by the waker that schedules the worker.\<close>

definition producer_op :: "stream_op \<Rightarrow> bool" where
  "producer_op x = (case x of
      Op_push_head _ \<Rightarrow> True | Op_push_within_budget _ \<Rightarrow> True | Op_push_end \<Rightarrow> True
    | Op_push_failure _ \<Rightarrow> True | _ \<Rightarrow> False)"

inductive writer_step :: "writer_world \<Rightarrow> writer_world \<Rightarrow> bool" where
  fiber_pushes: "producer_op x \<Longrightarrow>
    writer_step w (w\<lparr>queue := stream_act x (queue w), event_scheduled := True\<rparr>)"
| fiber_parks: "writer_step w (w\<lparr>queue := snd (park_writer v (queue w))\<rparr>)"
| fiber_gives_up: "writer_step w (w\<lparr>queue := snd (unpark (queue w))\<rparr>)"
| reactor_resolves_writer: "wakeup_owed w \<Longrightarrow>
    writer_step w (w\<lparr>queue := snd (unpark (queue w)), wakeup_owed := False\<rparr>)"
| worker_begins: "wpc w = W_idle \<Longrightarrow> event_scheduled w \<Longrightarrow>
    writer_step w (w\<lparr>event_scheduled := False, wpc := W_draining\<rparr>)"
| worker_takes: "wpc w = W_draining \<Longrightarrow> take_next (queue w) = (Some item, q) \<Longrightarrow>
    writer_step w (w\<lparr>queue := q, wpc := (if is_terminal item then W_finished else W_draining)\<rparr>)"
| worker_empties: "wpc w = W_draining \<Longrightarrow> take_next (queue w) = (None, q) \<Longrightarrow>
    writer_step w (w\<lparr>queue := q, wpc := W_checking\<rparr>)"
| worker_checks: "wpc w = W_checking \<Longrightarrow>
    writer_step w (w\<lparr>wakeup_owed := (wakeup_owed w \<or> writer_owed_wakeup (queue w)), wpc := W_idle\<rparr>)"
| above_watermark: "wpc w \<notin> {W_finished, W_gone} \<Longrightarrow>
    writer_step w (w\<lparr>queue := set_paused True (queue w)\<rparr>)"
| below_watermark: "wpc w \<notin> {W_finished, W_gone} \<Longrightarrow>
    writer_step w (w\<lparr>queue := set_paused False (queue w), event_scheduled := True\<rparr>)"
| worker_drops: "wpc w = W_idle \<Longrightarrow>
    writer_step w (w\<lparr>queue := cancel (queue w), wpc := W_dropping\<rparr>)"
| worker_dropped: "wpc w = W_dropping \<Longrightarrow>
    writer_step w (w\<lparr>wakeup_owed := (wakeup_owed w \<or> writer_owed_wakeup (queue w)), wpc := W_gone\<rparr>)"

text \<open>
  While the queue is not paused, whatever it holds is going to be drained; and a
  parked writer is going to be looked at, or is already owed its wakeup.
\<close>

definition drain_coming :: "writer_world \<Rightarrow> bool" where
  "drain_coming w \<longleftrightarrow> event_scheduled w \<or> wpc w = W_draining"

definition writer_inv :: "writer_world \<Rightarrow> bool" where
  "writer_inv w \<longleftrightarrow>
     stream_inv (queue w) \<and>
     (wpc w \<in> {W_dropping, W_gone} \<longrightarrow> cancelled (queue w)) \<and>
     (items (queue w) \<noteq> [] \<and> \<not> paused (queue w) \<and> wpc w \<noteq> W_finished \<longrightarrow> drain_coming w) \<and>
     (waiter (queue w) \<noteq> None \<and> \<not> paused (queue w) \<and> wpc w \<noteq> W_finished \<longrightarrow>
        drain_coming w \<or> wpc w \<in> {W_checking, W_dropping} \<or> wakeup_owed w)"

lemma full_has_items: "stream_inv s \<Longrightarrow> full s \<Longrightarrow> \<not> paused s \<Longrightarrow> items s \<noteq> []"
  by (auto simp: stream_inv_def full_def)

lemma writer_inv_parks:
  assumes "writer_inv w"
  shows "writer_inv (w\<lparr>queue := snd (park_writer v (queue w))\<rparr>)"
proof (cases "cancelled (queue w) \<or> \<not> full (queue w)")
  case True
  then show ?thesis
    using assms by (simp add: park_writer_def)
next
  case False
  then have "\<not> paused (queue w) \<Longrightarrow> items (queue w) \<noteq> []"
    using assms full_has_items by (simp add: writer_inv_def)
  moreover have "stream_inv (snd (park_writer v (queue w)))"
    using assms by (simp add: writer_inv_def stream_inv_flags)
  ultimately show ?thesis
    using assms False by (auto simp: writer_inv_def park_writer_def drain_coming_def)
qed

lemma writer_inv_check:
  assumes "writer_inv w" and "\<not> writer_owed_wakeup (queue w)" and "wpc w = W_checking"
  shows "waiter (queue w) \<noteq> None \<and> \<not> paused (queue w) \<longrightarrow> event_scheduled w"
  using assms full_has_items [of "queue w"]
  by (auto simp: writer_inv_def writer_owed_wakeup_def drain_coming_def)

lemma push_keeps:
  assumes "producer_op x"
  shows "paused (stream_act x s) = paused s" and "waiter (stream_act x s) = waiter s"
    and "cancelled (stream_act x s) = cancelled s"
  using assms
  by (auto simp: producer_op_def stream_ops Let_def split: stream_op.splits stream_item.splits if_splits)

lemma take_keeps:
  assumes "take_next s = (i, q)"
  shows "paused q = paused s" "waiter q = waiter s" "cancelled q = cancelled s"
    and "i = None \<Longrightarrow> q = s \<and> (paused s \<or> items s = [])"
  using assms by (auto simp: take_next_def split: if_splits list.splits stream_item.splits)

lemma writer_inv_step: "writer_inv w \<Longrightarrow> writer_step w w' \<Longrightarrow> writer_inv w'"
proof -
  assume inv: "writer_inv w" and "writer_step w w'"
  have good: "stream_inv (queue w)" using inv by (simp add: writer_inv_def)
  from \<open>writer_step w w'\<close> show ?thesis
  proof cases
    case (fiber_pushes x)
    then show ?thesis
      using inv push_keeps [OF fiber_pushes(2)] stream_wf.inv_act [OF good, of x]
      by (auto simp: writer_inv_def drain_coming_def)
  next
    case (fiber_parks v)
    then show ?thesis
      using writer_inv_parks [OF inv] by simp
  next
    case (worker_takes item q)
    then show ?thesis
      using inv take_keeps [OF worker_takes(3)] stream_inv_take_next [OF good]
      by (auto simp: writer_inv_def drain_coming_def)
  next
    case (worker_empties q)
    then show ?thesis
      using inv take_keeps [OF worker_empties(3)] by (auto simp: writer_inv_def drain_coming_def)
  next
    case worker_checks
    then show ?thesis
      using inv writer_inv_check [OF inv] by (auto simp: writer_inv_def drain_coming_def)
  next
    case worker_dropped
    then show ?thesis
      using inv by (auto simp: writer_inv_def drain_coming_def writer_owed_wakeup_def)
  next
    case worker_drops
    then show ?thesis
      using inv stream_inv_cancel [OF good] by (auto simp: writer_inv_def cancel_def drain_coming_def)
  next
    case above_watermark
    then show ?thesis
      using inv stream_inv_flags(4) [OF good, of True] by (auto simp: writer_inv_def set_paused_def)
  next
    case below_watermark
    then show ?thesis
      using inv stream_inv_flags(4) [OF good, of False]
      by (auto simp: writer_inv_def set_paused_def drain_coming_def)
  qed (use inv stream_inv_flags(2) [OF good] in \<open>auto simp: writer_inv_def unpark_def drain_coming_def\<close>)
qed

interpretation writer_runs: inductive_invariant "writer_start n" writer_step writer_inv for n
proof unfold_locales
  fix w assume "writer_start n w"
  then show "writer_inv w"
    by (simp add: writer_start_def writer_inv_def) (simp add: new_stream_def)
qed (rule writer_inv_step)

section \<open>Properties\<close>


definition reactor_idle :: "(nat, nat, nat) reactor_world" where
  "reactor_idle = \<lparr> rw_commands = [], rw_owed = [], wake_bytes = 0, unsignalled = 0, rpc = Waiting \<rparr>"


text \<open>
  C25. An owed wakeup has no such guarantee, because the pass resolves wakeups
  before it consumes the bytes: a worker that records and signals one in between
  has its byte consumed with the wakeup still waiting, and the reactor goes back
  to sleep on an empty socket.  Only its deadline brings it back.
\<close>

theorem wakeup_outlives_its_byte:
  "\<exists>w :: (nat, nat, nat) reactor_world. reachable reactor_start reactor_step w \<and> rpc w = Waiting \<and>
     wake_bytes w = 0 \<and> unsignalled w = 0 \<and> rw_owed w \<noteq> []"
proof -
  let ?w = "\<lambda>ow b u p. \<lparr> rw_commands = [], rw_owed = ow, wake_bytes = b, unsignalled = u, rpc = p \<rparr> ::
    (nat, nat, nat) reactor_world"
  have s0: "reachable reactor_start reactor_step (?w [] 0 0 Waiting)"
    by (rule reachable.reachable_init) (simp add: reactor_start_def)
  have s1: "reactor_step (?w [] 0 0 Waiting) (?w [] 0 0 Resolving)"
    using reactor_step.reactor_wakes [of "?w [] 0 0 Waiting"] by simp
  have s2: "reactor_step (?w [] 0 0 Resolving) (?w [] 0 0 Consuming)"
    using reactor_step.reactor_resolves [of "?w [] 0 0 Resolving"] by (simp add: take_owed_def)
  have s3: "reactor_step (?w [] 0 0 Consuming) (?w [7] 0 1 Consuming)"
    using reactor_step.producer_owes [of "?w [] 0 0 Consuming" 7] by (simp add: owe_def)
  have s4: "reactor_step (?w [7] 0 1 Consuming) (?w [7] 1 0 Consuming)"
    using reactor_step.producer_signals [of "?w [7] 0 1 Consuming"] by simp
  have s5: "reactor_step (?w [7] 1 0 Consuming) (?w [7] 0 0 Receiving)"
    using reactor_step.reactor_consumes [of "?w [7] 1 0 Consuming"] by simp
  have s6: "reactor_step (?w [7] 0 0 Receiving) (?w [7] 0 0 Waiting)"
    using reactor_step.reactor_waits [of "?w [7] 0 0 Receiving"] by simp
  note step = reachable.reachable_step
  have "reachable reactor_start reactor_step (?w [7] 0 0 Waiting)"
    by (rule step [OF step [OF step [OF step [OF step [OF step [OF s0 s1] s2] s3] s4] s5] s6])
  then show ?thesis
    by (intro exI [of _ "?w [7] 0 0 Waiting"]) simp
qed

text \<open>
  C26. A fiber parked on a full queue is never forgotten while the worker still
  holds the stream: unless the downstream is paused, a drain is scheduled or
  running, its final check is still to come, or the wakeup is already owed.
  That holds however pushes, parks, drains, watermarks and the drop of the
  filter interleave.
\<close>

theorem parked_writer_not_forgotten:
  assumes "reachable (writer_start n) writer_step w" and "waiter (queue w) \<noteq> None"
    and "\<not> paused (queue w)" and "wpc w \<noteq> W_finished"
  shows "event_scheduled w \<or> wpc w \<in> {W_draining, W_checking, W_dropping} \<or> wakeup_owed w"
  using writer_runs.inv_reachable [OF assms(1)] assms(2-4) by (auto simp: writer_inv_def drain_coming_def)

lemmas writer_eval = producer_op_def stream_ops writer_owed_wakeup_def new_stream_def Let_def

definition parked_world :: writer_world where
  "parked_world = \<lparr> queue = snd (park_writer 5 (snd (push_chunk_within_budget ''a'' (new_stream 1)))),
     event_scheduled = True, wakeup_owed = False, wpc = W_idle \<rparr>"

lemma parked_world_reachable: "reachable (writer_start 1) writer_step parked_world"
proof -
  let ?w0 = "\<lparr> queue = new_stream 1, event_scheduled = False, wakeup_owed = False, wpc = W_idle \<rparr>"
  let ?w1 = "?w0\<lparr>queue := stream_act (Op_push_within_budget ''a'') (queue ?w0), event_scheduled := True\<rparr>"
  have "reachable (writer_start 1) writer_step ?w0"
    by (rule reachable.reachable_init) (simp add: writer_start_def)
  moreover have "writer_step ?w0 ?w1"
    by (rule writer_step.fiber_pushes) (simp add: producer_op_def)
  moreover have "writer_step ?w1 parked_world"
    using writer_step.fiber_parks [of ?w1 5] by (simp add: parked_world_def)
  ultimately show ?thesis
    by (blast intro: reachable.reachable_step)
qed

theorem parked_writer_not_forgotten_witness:
  "waiter (queue parked_world) = Some 5 \<and>
   (event_scheduled parked_world \<or> wpc parked_world \<in> {W_draining, W_checking, W_dropping} \<or> wakeup_owed parked_world)"
proof -
  have "waiter (queue parked_world) = Some 5" "\<not> paused (queue parked_world)" "wpc parked_world \<noteq> W_finished"
    by (simp_all add: parked_world_def writer_eval)
  then show ?thesis
    using parked_writer_not_forgotten [OF parked_world_reachable] by simp
qed

text \<open>
  C27. Taking the end is the exception: the worker lets go of the stream without
  that last check, so a fiber still parked when another fiber ends the stream
  stays parked with room in the queue, no event scheduled and nothing owed.
\<close>

theorem end_leaves_writer_parked:
  "\<exists>w. reachable (writer_start 1) writer_step w \<and> waiter (queue w) \<noteq> None \<and> \<not> full (queue w) \<and>
     \<not> event_scheduled w \<and> \<not> wakeup_owed w \<and> wpc w = W_finished"
proof -
  let ?q = "\<lambda>xs n e. \<lparr> items = xs, buffered_bytes = n, cancelled = False, ended = e, paused = False,
    waiter = Some 5, max_buffered_bytes = 1 \<rparr>"
  let ?w = "\<lambda>q e p. \<lparr> queue = q, event_scheduled = e, wakeup_owed = False, wpc = p \<rparr>"
  have "parked_world = ?w (?q [Chunk ''a''] 1 False) True W_idle"
    by (simp add: parked_world_def writer_eval)
  then have s0: "reachable (writer_start 1) writer_step (?w (?q [Chunk ''a''] 1 False) True W_idle)"
    using parked_world_reachable by simp
  have s1: "writer_step (?w (?q [Chunk ''a''] 1 False) True W_idle) (?w (?q [Chunk ''a'', End] 1 True) True W_idle)"
    using writer_step.fiber_pushes [of Op_push_end "?w (?q [Chunk ''a''] 1 False) True W_idle"]
    by (simp add: writer_eval)
  have s2: "writer_step (?w (?q [Chunk ''a'', End] 1 True) True W_idle) (?w (?q [Chunk ''a'', End] 1 True) False W_draining)"
    using writer_step.worker_begins [of "?w (?q [Chunk ''a'', End] 1 True) True W_idle"] by simp
  have s3: "writer_step (?w (?q [Chunk ''a'', End] 1 True) False W_draining) (?w (?q [End] 0 True) False W_draining)"
    using writer_step.worker_takes [of "?w (?q [Chunk ''a'', End] 1 True) False W_draining" "Chunk ''a''" "?q [End] 0 True"]
    by (simp add: take_next_def)
  have s4: "writer_step (?w (?q [End] 0 True) False W_draining) (?w (?q [] 0 True) False W_finished)"
    using writer_step.worker_takes [of "?w (?q [End] 0 True) False W_draining" End "?q [] 0 True"]
    by (simp add: take_next_def)
  from s0 s1 have "reachable (writer_start 1) writer_step (?w (?q [Chunk ''a'', End] 1 True) True W_idle)"
    by (rule reachable.reachable_step)
  from this s2 have "reachable (writer_start 1) writer_step (?w (?q [Chunk ''a'', End] 1 True) False W_draining)"
    by (rule reachable.reachable_step)
  from this s3 have "reachable (writer_start 1) writer_step (?w (?q [End] 0 True) False W_draining)"
    by (rule reachable.reachable_step)
  from this s4 have "reachable (writer_start 1) writer_step (?w (?q [] 0 True) False W_finished)"
    by (rule reachable.reachable_step)
  then show ?thesis
    by (intro exI [of _ "?w (?q [] 0 True) False W_finished"]) (simp add: full_def)
qed

end
