(* ===== verification/Upstream_Route.thy ===== *)
theory Upstream_Route
  imports Response_Stream
begin

text \<open>
  The route from the application to the clusters its worker can reach
  (src/src/upstream.rs): the terms of the calls, the two queues of one streamed
  call with their flags, and the list of calls waiting for the worker.

  A \<open>StreamChannel\<close> creates its two queues itself and reaches them only through
  itself, so they are part of its value here.  References to a response queue
  (\<open>'r\<close>) and to a channel (\<open>'c\<close>) are type parameters.
\<close>

section \<open>Terms of a call\<close>

record upstream_settings =
  clusters :: "string list"
  call_timeout :: duration
  max_response_bytes :: nat
  stream_buffer_bytes :: nat

definition allows :: "upstream_settings \<Rightarrow> string \<Rightarrow> bool" where
  "allows s cluster = list_ex (\<lambda>allowed. allowed = cluster) (clusters s)"

record 'r upstream_request =
  ur_cluster :: string
  ur_headers :: "(string \<times> bytes) list"
  ur_body :: bytes
  ur_timeout :: duration
  ur_response :: 'r

record 'c upstream_stream_request =
  us_cluster :: string
  us_headers :: "(string \<times> bytes) list"
  us_timeout :: duration
  us_channel :: 'c

section \<open>One streamed call\<close>

record stream_channel =
  ch_response :: response_stream
  ch_request :: response_stream
  reset_wanted :: bool
  ch_timed_out :: bool
  ch_trailers :: "header_list option"

definition new_channel :: "nat \<Rightarrow> stream_channel" where
  "new_channel budget =
     \<lparr> ch_response = new_stream budget, ch_request = new_stream budget,
       reset_wanted = False, ch_timed_out = False, ch_trailers = None \<rparr>"

definition on_response :: "(response_stream \<Rightarrow> response_stream) \<Rightarrow> stream_channel \<Rightarrow> stream_channel" where
  "on_response f c = c\<lparr>ch_response := f (ch_response c)\<rparr>"

definition on_request :: "(response_stream \<Rightarrow> response_stream) \<Rightarrow> stream_channel \<Rightarrow> stream_channel" where
  "on_request f c = c\<lparr>ch_request := f (ch_request c)\<rparr>"

definition close_channel :: "stream_channel \<Rightarrow> stream_channel" where
  "close_channel c = (on_request cancel (on_response cancel c))\<lparr>reset_wanted := True\<rparr>"

definition time_out :: "stream_channel \<Rightarrow> stream_channel" where
  "time_out c = close_channel (c\<lparr>ch_timed_out := True\<rparr>)"

definition timed_out :: "stream_channel \<Rightarrow> bool" where
  "timed_out c = ch_timed_out c"

definition fail_channel :: "bridge_error \<Rightarrow> stream_channel \<Rightarrow> stream_channel" where
  "fail_channel error c =
     (on_request cancel (on_response (\<lambda>s. snd (push_failure error s)) c))\<lparr>reset_wanted := True\<rparr>"

definition wants_reset :: "stream_channel \<Rightarrow> bool" where
  "wants_reset c = reset_wanted c"

definition set_trailers :: "header_list \<Rightarrow> stream_channel \<Rightarrow> stream_channel" where
  "set_trailers t c = c\<lparr>ch_trailers := Some t\<rparr>"

definition trailers_of :: "stream_channel \<Rightarrow> header_list option" where
  "trailers_of c = ch_trailers c"

text \<open>
  The fiber and the worker share a channel, and only the single locks and atomic
  stores inside these methods are atomic.  These are the atomic steps, so that
  an interleaving of the two sides is a list of them; the methods above are the
  lists below run without interruption.
\<close>

datatype channel_op =
    On_response stream_op
  | On_request stream_op
  | Want_reset
  | Mark_timed_out
  | Put_trailers header_list

primrec channel_act :: "channel_op \<Rightarrow> stream_channel \<Rightarrow> stream_channel" where
  "channel_act (On_response x) c = on_response (stream_act x) c"
| "channel_act (On_request x) c = on_request (stream_act x) c"
| "channel_act Want_reset c = c\<lparr>reset_wanted := True\<rparr>"
| "channel_act Mark_timed_out c = c\<lparr>ch_timed_out := True\<rparr>"
| "channel_act (Put_trailers t) c = set_trailers t c"

definition close_steps :: "channel_op list" where
  "close_steps = [On_response Op_cancel, On_request Op_cancel, Want_reset]"

definition time_out_steps :: "channel_op list" where
  "time_out_steps = Mark_timed_out # close_steps"

definition fail_steps :: "bridge_error \<Rightarrow> channel_op list" where
  "fail_steps error = [On_response (Op_push_failure error), On_request Op_cancel, Want_reset]"

section \<open>Calls waiting for the worker\<close>

record ('r, 'c) calls =
  queued :: "'r upstream_request list"
  queued_streams :: "'c upstream_stream_request list"
  closed :: bool

record ('r, 'c) unsent =
  unsent_calls :: "'r upstream_request list"
  unsent_streams :: "'c upstream_stream_request list"

text \<open>
  \<open>Upstreams\<close> pairs the settings with the shared list and the waker; the list is
  the shared state, so the operations are functions on it.  A push says whether
  the call was accepted and whether the worker was woken.
\<close>

definition new_calls :: "('r, 'c) calls" where
  "new_calls = \<lparr> queued = [], queued_streams = [], closed = False \<rparr>"

definition push_call ::
    "(('r, 'c) calls \<Rightarrow> ('r, 'c) calls) \<Rightarrow> ('r, 'c) calls
       \<Rightarrow> (bridge_error, unit) result \<times> bool \<times> ('r, 'c) calls" where
  "push_call add cs =
     (if closed cs
      then (Inl (Upstream ''the request this call belongs to has finished''), False, cs)
      else (Inr (), True, add cs))"

definition queue_call ::
    "'r upstream_request \<Rightarrow> ('r, 'c) calls \<Rightarrow> (bridge_error, unit) result \<times> bool \<times> ('r, 'c) calls" where
  "queue_call r cs = push_call (\<lambda>s. s\<lparr>queued := queued s @ [r]\<rparr>) cs"

definition queue_stream ::
    "'c upstream_stream_request \<Rightarrow> ('r, 'c) calls
       \<Rightarrow> (bridge_error, unit) result \<times> bool \<times> ('r, 'c) calls" where
  "queue_stream r cs = push_call (\<lambda>s. s\<lparr>queued_streams := queued_streams s @ [r]\<rparr>) cs"

definition take_queued :: "('r, 'c) calls \<Rightarrow> 'r upstream_request list \<times> ('r, 'c) calls" where
  "take_queued cs = (queued cs, cs\<lparr>queued := []\<rparr>)"

definition take_queued_streams ::
    "('r, 'c) calls \<Rightarrow> 'c upstream_stream_request list \<times> ('r, 'c) calls" where
  "take_queued_streams cs = (queued_streams cs, cs\<lparr>queued_streams := []\<rparr>)"

definition close_calls :: "('r, 'c) calls \<Rightarrow> ('r, 'c) unsent \<times> ('r, 'c) calls" where
  "close_calls cs =
     (\<lparr> unsent_calls = queued cs, unsent_streams = queued_streams cs \<rparr>,
      cs\<lparr>closed := True, queued := [], queued_streams := []\<rparr>)"

section \<open>Facts about a channel\<close>

lemma close_is_steps: "close_channel c = run channel_act close_steps c"
  by (simp add: close_channel_def close_steps_def on_response_def on_request_def)

lemma time_out_is_steps: "time_out c = run channel_act time_out_steps c"
  by (simp add: time_out_def time_out_steps_def close_is_steps)

lemma fail_is_steps: "fail_channel e c = run channel_act (fail_steps e) c"
  by (simp add: fail_channel_def fail_steps_def on_response_def on_request_def)

definition channel_inv :: "stream_channel \<Rightarrow> bool" where
  "channel_inv c \<longleftrightarrow> stream_inv (ch_response c) \<and> stream_inv (ch_request c)"

lemma channel_inv_new [simp]: "channel_inv (new_channel n)"
  by (simp add: channel_inv_def new_channel_def)

interpretation channel_wf: operation_invariant channel_act channel_inv
  by unfold_locales
    (case_tac x; simp add: channel_inv_def on_response_def on_request_def set_trailers_def stream_wf.inv_act)

lemma channel_flags_stay:
  "reset_wanted c \<Longrightarrow> reset_wanted (run channel_act xs c)"
  "ch_timed_out c \<Longrightarrow> ch_timed_out (run channel_act xs c)"
proof (induction xs arbitrary: c)
  case (Cons x xs)
  { case 1 then show ?case
      using Cons.IH(1) by (cases x) (simp_all add: on_response_def on_request_def set_trailers_def) }
  { case 2 then show ?case
      using Cons.IH(2) by (cases x) (simp_all add: on_response_def on_request_def set_trailers_def) }
qed simp_all

section \<open>Facts about the waiting calls\<close>

datatype ('r, 'c) call_op =
    Call_queue "'r upstream_request"
  | Call_queue_stream "'c upstream_stream_request"
  | Call_take
  | Call_take_streams
  | Call_close

primrec call_act :: "('r, 'c) call_op \<Rightarrow> ('r, 'c) calls \<Rightarrow> ('r, 'c) calls" where
  "call_act (Call_queue r) cs = snd (snd (queue_call r cs))"
| "call_act (Call_queue_stream r) cs = snd (snd (queue_stream r cs))"
| "call_act Call_take cs = snd (take_queued cs)"
| "call_act Call_take_streams cs = snd (take_queued_streams cs)"
| "call_act Call_close cs = snd (close_calls cs)"

text \<open>Calls the route accepted, calls it handed to the worker, and wakes of the worker.\<close>

primrec call_accepts :: "('r, 'c) call_op \<Rightarrow> ('r, 'c) calls \<Rightarrow> 'r upstream_request list" where
  "call_accepts (Call_queue r) cs = (if fst (queue_call r cs) = Inr () then [r] else [])"
| "call_accepts (Call_queue_stream r) cs = []"
| "call_accepts Call_take cs = []"
| "call_accepts Call_take_streams cs = []"
| "call_accepts Call_close cs = []"

primrec call_hands_out :: "('r, 'c) call_op \<Rightarrow> ('r, 'c) calls \<Rightarrow> 'r upstream_request list" where
  "call_hands_out (Call_queue r) cs = []"
| "call_hands_out (Call_queue_stream r) cs = []"
| "call_hands_out Call_take cs = fst (take_queued cs)"
| "call_hands_out Call_take_streams cs = []"
| "call_hands_out Call_close cs = unsent_calls (fst (close_calls cs))"

primrec stream_call_accepts :: "('r, 'c) call_op \<Rightarrow> ('r, 'c) calls \<Rightarrow> 'c upstream_stream_request list" where
  "stream_call_accepts (Call_queue r) cs = []"
| "stream_call_accepts (Call_queue_stream r) cs = (if fst (queue_stream r cs) = Inr () then [r] else [])"
| "stream_call_accepts Call_take cs = []"
| "stream_call_accepts Call_take_streams cs = []"
| "stream_call_accepts Call_close cs = []"

primrec stream_call_hands_out :: "('r, 'c) call_op \<Rightarrow> ('r, 'c) calls \<Rightarrow> 'c upstream_stream_request list" where
  "stream_call_hands_out (Call_queue r) cs = []"
| "stream_call_hands_out (Call_queue_stream r) cs = []"
| "stream_call_hands_out Call_take cs = []"
| "stream_call_hands_out Call_take_streams cs = fst (take_queued_streams cs)"
| "stream_call_hands_out Call_close cs = unsent_streams (fst (close_calls cs))"

primrec call_wakes :: "('r, 'c) call_op \<Rightarrow> ('r, 'c) calls \<Rightarrow> unit list" where
  "call_wakes (Call_queue r) cs = (if fst (snd (queue_call r cs)) then [()] else [])"
| "call_wakes (Call_queue_stream r) cs = (if fst (snd (queue_stream r cs)) then [()] else [])"
| "call_wakes Call_take cs = []"
| "call_wakes Call_take_streams cs = []"
| "call_wakes Call_close cs = []"

lemmas call_defs = push_call_def queue_call_def queue_stream_def take_queued_def
  take_queued_streams_def close_calls_def

definition calls_inv :: "('r, 'c) calls \<Rightarrow> bool" where
  "calls_inv cs \<longleftrightarrow> (closed cs \<longrightarrow> queued cs = [] \<and> queued_streams cs = [])"

interpretation call_queue: fifo_channel call_act calls_inv queued call_accepts call_hands_out "\<lambda>_. False"
  by unfold_locales (case_tac x; simp add: call_defs calls_inv_def)+

interpretation stream_call_queue:
  fifo_channel call_act calls_inv queued_streams stream_call_accepts stream_call_hands_out "\<lambda>_. False"
  by unfold_locales (case_tac x; simp add: call_defs calls_inv_def)+

lemma closed_act: "closed cs \<Longrightarrow> closed (call_act x cs)"
  by (cases x) (simp_all add: call_defs)

lemma closed_stays: "closed cs \<Longrightarrow> closed (run call_act xs cs)"
  by (induction xs arbitrary: cs) (simp_all add: closed_act)

lemma closed_is_silent:
  "closed cs \<Longrightarrow> call_accepts x cs = [] \<and> stream_call_accepts x cs = [] \<and> call_wakes x cs = []"
  by (cases x) (simp_all add: call_defs)

lemma closed_run_silent:
  "closed cs \<Longrightarrow> emitted call_act call_accepts xs cs = [] \<and>
     emitted call_act stream_call_accepts xs cs = [] \<and> emitted call_act call_wakes xs cs = []"
  by (induction xs arbitrary: cs) (simp_all add: closed_act closed_is_silent)

lemma wakes_count:
  "length (emitted call_act call_wakes xs cs) =
   length (emitted call_act call_accepts xs cs) + length (emitted call_act stream_call_accepts xs cs)"
proof (induction xs arbitrary: cs)
  case (Cons x xs)
  then show ?case
    by (cases x) (simp_all add: call_defs)
qed simp

section \<open>Properties\<close>

text \<open>
  C20. The application and the worker may queue, take and close in any order:
  every call and every stream the route accepted is handed to the worker exactly
  once and in order, or is still queued; each acceptance woke the worker once.
  Once the route is closed nothing is queued any more, so each accepted call was
  either taken for sending or handed back by the close.
\<close>

theorem route_hands_out_exactly_once:
  "let cs0 = (new_calls :: ('r, 'c) calls); cs = run call_act ops cs0 in
     emitted call_act call_accepts ops cs0 = emitted call_act call_hands_out ops cs0 @ queued cs \<and>
     emitted call_act stream_call_accepts ops cs0 =
       emitted call_act stream_call_hands_out ops cs0 @ queued_streams cs \<and>
     length (emitted call_act call_wakes ops cs0) =
       length (emitted call_act call_accepts ops cs0) + length (emitted call_act stream_call_accepts ops cs0) \<and>
     closed cs = (closed cs \<and> queued cs = [] \<and> queued_streams cs = [])"
proof -
  have inv: "calls_inv (new_calls :: ('r, 'c) calls)"
    by (simp add: calls_inv_def new_calls_def)
  have "calls_inv (run call_act ops (new_calls :: ('r, 'c) calls))"
    by (rule call_queue.inv_run [OF inv])
  then show ?thesis
    using call_queue.live_conserves [OF inv, of ops] stream_call_queue.live_conserves [OF inv, of ops]
      wakes_count [of ops new_calls]
    by (auto simp: Let_def new_calls_def calls_inv_def)
qed

text \<open>
  Closing ends the route for good: whatever is tried afterwards, nothing is
  accepted, no worker is woken, and nothing is handed out again; a queued call
  is answered with an error.
\<close>

theorem closed_route_refuses:
  "let cs = snd (close_calls cs0) in
     emitted call_act call_accepts ops cs = [] \<and> emitted call_act stream_call_accepts ops cs = [] \<and>
     emitted call_act call_wakes ops cs = [] \<and> emitted call_act call_hands_out ops cs = [] \<and>
     emitted call_act stream_call_hands_out ops cs = [] \<and>
     fst (queue_call r (run call_act ops cs)) =
       Inl (Upstream ''the request this call belongs to has finished'')"
proof -
  define cs where "cs = snd (close_calls cs0)"
  have closed: "closed cs" and inv: "calls_inv cs"
    by (simp_all add: cs_def close_calls_def calls_inv_def)
  have "queued cs = []" "queued_streams cs = []"
    by (simp_all add: cs_def close_calls_def)
  moreover have "closed (run call_act ops cs)"
    by (rule closed_stays [OF closed])
  ultimately show ?thesis
    using closed_run_silent [OF closed, of ops] call_queue.live_conserves [OF inv, of ops]
      stream_call_queue.live_conserves [OF inv, of ops]
    by (simp add: Let_def queue_call_def push_call_def flip: cs_def)
qed

end
