(* ===== verification/Envoy_Host.thy ===== *)
theory Envoy_Host
  imports Bridge_Types
begin

text \<open>
  Envoy as the filter sees it, and the metrics published through it
  (src/crates/ruvoy-envoy-fiber/src/metrics.rs).

  The Envoy SDK is not part of the repository.  What the code reads from Envoy
  is a record of functions of an opaque state \<open>'e\<close>, an argument of every
  definition that uses it; what the code asks of Envoy is a value of
  \<open>envoy_call\<close>, and \<open>react\<close> is how Envoy's state changes on it.  Every call is
  also appended to a log, so that theorems can speak about what was sent.  Envoy
  may call back into the filter before a call returns; \<open>reenters\<close> lists those
  callbacks.
\<close>

section \<open>What Envoy reports\<close>

type_synonym envoy_buffer = bytes
type_synonym envoy_headers = "(envoy_buffer \<times> envoy_buffer) list"

datatype init_result =
    Init_Success
  | ClusterNotFound
  | MissingRequiredHeaders
  | DuplicateCalloutId
  | CannotCreateRequest

datatype callout_result = Callout_Success | Callout_Reset | ExceedResponseBufferLimit

datatype stream_reset_reason =
    ConnectionFailure
  | ConnectionTermination
  | LocalReset
  | LocalRefusedStreamReset
  | Reset_Overflow
  | RemoteReset
  | RemoteRefusedStreamReset
  | ProtocolError

datatype attribute_id =
    RequestScheme
  | RequestHost
  | RequestProtocol
  | SourceAddress
  | SourcePort
  | DestinationAddress
  | DestinationPort
  | ConnectionId
  | ConnectionTlsVersion
  | ConnectionMtls
  | ConnectionRequestedServerName
  | ConnectionSubjectPeerCertificate
  | ConnectionUriSanPeerCertificate
  | ConnectionDnsSanPeerCertificate
  | ConnectionSha256PeerCertificateDigest
  | XdsRouteName

datatype metadata_source = Dynamic | Route

text \<open>Callbacks Envoy makes about calls and streams the filter started.\<close>

datatype callback =
    Callout_done u64 callout_result "envoy_headers option" "envoy_buffer list option"
  | Stream_headers u64 envoy_headers bool
  | Stream_data u64 "envoy_buffer list" bool
  | Stream_trailers u64 envoy_headers
  | Stream_complete u64
  | Stream_reset u64 stream_reset_reason

section \<open>What is asked of Envoy\<close>

datatype metric_call =
    Increment_counter nat u64
  | Increment_counter_vec nat "string list" u64
  | Record_histogram nat u64
  | Record_histogram_vec nat "string list" u64

datatype envoy_call =
    Send_response nat "(string \<times> bytes) list" "bytes option" "string option"
  | Send_response_headers "(string \<times> bytes) list" bool
  | Send_response_data bytes bool
  | Reset_stream stream_reset_reason string
  | Send_http_callout string "(string \<times> bytes) list" "bytes option" u64
  | Start_http_stream string "(string \<times> bytes) list" "bytes option" bool u64
  | Send_http_stream_data u64 bytes bool
  | Reset_http_stream u64
  | Drain_received_request_body nat
  | Drain_buffered_request_body nat
  | Commit u64
  | Metric metric_call

record 'e ehf =
  get_request_headers :: "'e \<Rightarrow> envoy_headers"
  get_request_header_value :: "'e \<Rightarrow> string \<Rightarrow> envoy_buffer option"
  get_attribute_string :: "'e \<Rightarrow> attribute_id \<Rightarrow> envoy_buffer option"
  get_attribute_int :: "'e \<Rightarrow> attribute_id \<Rightarrow> int option"
  get_attribute_bool :: "'e \<Rightarrow> attribute_id \<Rightarrow> bool option"
  get_metadata_keys :: "'e \<Rightarrow> metadata_source \<Rightarrow> string \<Rightarrow> envoy_buffer list option"
  get_metadata_string :: "'e \<Rightarrow> metadata_source \<Rightarrow> string \<Rightarrow> string \<Rightarrow> envoy_buffer option"
  get_metadata_number :: "'e \<Rightarrow> metadata_source \<Rightarrow> string \<Rightarrow> string \<Rightarrow> u64 option"
  get_metadata_bool :: "'e \<Rightarrow> metadata_source \<Rightarrow> string \<Rightarrow> string \<Rightarrow> bool option"
  get_metadata_list_size :: "'e \<Rightarrow> metadata_source \<Rightarrow> string \<Rightarrow> string \<Rightarrow> nat option"
  get_metadata_list_string :: "'e \<Rightarrow> metadata_source \<Rightarrow> string \<Rightarrow> string \<Rightarrow> nat \<Rightarrow> envoy_buffer option"
  get_metadata_list_number :: "'e \<Rightarrow> metadata_source \<Rightarrow> string \<Rightarrow> string \<Rightarrow> nat \<Rightarrow> u64 option"
  get_metadata_list_bool :: "'e \<Rightarrow> metadata_source \<Rightarrow> string \<Rightarrow> string \<Rightarrow> nat \<Rightarrow> bool option"
  received_buffered_request_body :: "'e \<Rightarrow> bool"
  get_buffered_request_body_size :: "'e \<Rightarrow> nat"
  get_received_request_body_size :: "'e \<Rightarrow> nat"
  get_buffered_request_body :: "'e \<Rightarrow> envoy_buffer list option"
  get_received_request_body :: "'e \<Rightarrow> envoy_buffer list option"
  instant_now :: "'e \<Rightarrow> instant"
  init_answer :: "envoy_call \<Rightarrow> 'e \<Rightarrow> init_result \<times> u64"
  reenters :: "envoy_call \<Rightarrow> 'e \<Rightarrow> callback list"
  react :: "envoy_call \<Rightarrow> 'e \<Rightarrow> 'e"

text \<open>Envoy's state and the calls made so far, newest last.\<close>

record 'e host =
  env :: 'e
  elog :: "envoy_call list"

definition perform :: "'e ehf \<Rightarrow> envoy_call \<Rightarrow> 'e host \<Rightarrow> 'e host" where
  "perform ehf c h = h\<lparr>env := react ehf c (env h), elog := elog h @ [c]\<rparr>"

lemma perform_simps [simp]:
  "env (perform ehf c h) = react ehf c (env h)"
  "elog (perform ehf c h) = elog h @ [c]"
  by (simp_all add: perform_def)

section \<open>Durations and counters\<close>

definition as_millis :: "duration \<Rightarrow> nat" where
  "as_millis d = d div 1000000"

text \<open>\<open>as u64\<close> truncates; \<open>u64::try_from(...).unwrap_or(u64::MAX)\<close> saturates.\<close>

definition millis_u64 :: "duration \<Rightarrow> u64" where
  "millis_u64 d = word_of_nat (as_millis d)"

definition millis_saturated :: "duration \<Rightarrow> u64" where
  "millis_saturated d = (if as_millis d < 2 ^ 64 then word_of_nat (as_millis d) else - 1)"

lemma unat_millis_saturated: "unat (millis_saturated d) = min (as_millis d) (2 ^ 64 - 1)"
proof (cases "as_millis d < 2 ^ 64")
  case True
  then show ?thesis
    by (simp add: millis_saturated_def unat_of_nat)
next
  case False
  moreover have "unat (- 1 :: u64) = 2 ^ 64 - 1"
    by (simp add: unsigned_minus_1_eq_mask mask_eq_exp_minus_1)
  ultimately show ?thesis
    by (simp add: millis_saturated_def)
qed

section \<open>Metrics\<close>

definition REJECTED_ADMISSION :: string where
  "REJECTED_ADMISSION = ''admission''"

definition REJECTED_INVALID_REQUEST :: string where
  "REJECTED_INVALID_REQUEST = ''invalid_request''"

definition REJECTED_INTERNAL :: string where
  "REJECTED_INTERNAL = ''internal''"

definition OUTCOME_COMPLETED :: string where
  "OUTCOME_COMPLETED = ''completed''"

definition OUTCOME_FAILED :: string where
  "OUTCOME_FAILED = ''failed''"

definition OUTCOME_CANCELLED :: string where
  "OUTCOME_CANCELLED = ''cancelled''"

datatype call_outcome =
    Completed
  | Call_refused
  | TimedOut
  | Overflow
  | TooLarge
  | Reset
  | Abandoned

primrec outcome_label :: "call_outcome \<Rightarrow> string" where
  "outcome_label Completed = ''completed''"
| "outcome_label Call_refused = ''refused''"
| "outcome_label TimedOut = ''timed_out''"
| "outcome_label Overflow = ''overflow''"
| "outcome_label TooLarge = ''too_large''"
| "outcome_label Reset = ''reset''"
| "outcome_label Abandoned = ''abandoned''"

record metrics =
  m_requests :: nat
  m_rejected :: nat
  m_responses :: nat
  m_duration_ms :: nat
  m_upstream_calls :: nat
  m_upstream_duration_ms :: nat

text \<open>
  The definitions Envoy is asked for, in order; the first one it refuses ends
  the attempt and the module runs without metrics.
\<close>

datatype metric_definition =
    Define_counter string
  | Define_counter_vec string "string list"
  | Define_histogram string
  | Define_histogram_vec string "string list"

type_synonym 'c definer = "metric_definition \<Rightarrow> 'c \<Rightarrow> nat option \<times> 'c"

definition metric_definitions :: "metric_definition list" where
  "metric_definitions =
     [Define_counter ''requests_total'',
      Define_counter_vec ''rejected_total'' [''reason''],
      Define_counter_vec ''responses_total'' [''outcome''],
      Define_histogram ''duration_ms'',
      Define_counter_vec ''upstream_calls_total'' [''cluster'', ''outcome''],
      Define_histogram_vec ''upstream_duration_ms'' [''cluster'']]"

fun define_each :: "'c definer \<Rightarrow> metric_definition list \<Rightarrow> 'c \<Rightarrow> nat list option \<times> 'c" where
  "define_each define_one [] c = (Some [], c)"
| "define_each define_one (d # ds) c =
     (case define_one d c of
        (None, c') \<Rightarrow> (None, c')
      | (Some i, c') \<Rightarrow>
          (case define_each define_one ds c' of
             (None, c'') \<Rightarrow> (None, c'')
           | (Some ids, c'') \<Rightarrow> (Some (i # ids), c'')))"

definition define_metrics :: "'c definer \<Rightarrow> 'c \<Rightarrow> metrics option \<times> 'c" where
  "define_metrics define_one c =
     (case define_each define_one metric_definitions c of
        (Some [a, b, r, d, u, v], c') \<Rightarrow>
          (Some \<lparr> m_requests = a, m_rejected = b, m_responses = r, m_duration_ms = d,
                  m_upstream_calls = u, m_upstream_duration_ms = v \<rparr>, c')
      | (_, c') \<Rightarrow> (None, c'))"

definition submitted :: "'e ehf \<Rightarrow> metrics \<Rightarrow> 'e host \<Rightarrow> 'e host" where
  "submitted ehf m h = perform ehf (Metric (Increment_counter (m_requests m) 1)) h"

definition rejected :: "'e ehf \<Rightarrow> metrics \<Rightarrow> string \<Rightarrow> 'e host \<Rightarrow> 'e host" where
  "rejected ehf m reason h = perform ehf (Metric (Increment_counter_vec (m_rejected m) [reason] 1)) h"

definition responded :: "'e ehf \<Rightarrow> metrics \<Rightarrow> string \<Rightarrow> duration \<Rightarrow> 'e host \<Rightarrow> 'e host" where
  "responded ehf m outcome duration h =
     perform ehf (Metric (Record_histogram (m_duration_ms m) (millis_u64 duration)))
       (perform ehf (Metric (Increment_counter_vec (m_responses m) [outcome] 1)) h)"

definition upstream_call :: "'e ehf \<Rightarrow> metrics \<Rightarrow> string \<Rightarrow> call_outcome \<Rightarrow> 'e host \<Rightarrow> 'e host" where
  "upstream_call ehf m cluster outcome h =
     perform ehf (Metric (Increment_counter_vec (m_upstream_calls m) [cluster, outcome_label outcome] 1)) h"

definition upstream_answered :: "'e ehf \<Rightarrow> metrics \<Rightarrow> string \<Rightarrow> duration \<Rightarrow> 'e host \<Rightarrow> 'e host" where
  "upstream_answered ehf m cluster waited h =
     perform ehf (Metric (Record_histogram_vec (m_upstream_duration_ms m) [cluster] (millis_u64 waited))) h"

text \<open>The labels tell the outcomes apart.\<close>

lemma outcome_label_inject: "outcome_label a = outcome_label b \<longleftrightarrow> a = b"
  by (cases a; cases b) simp_all

lemma define_each_length: "define_each f ds c = (Some ids, c') \<Longrightarrow> length ids = length ds"
  by (induction ds arbitrary: ids c c') (auto split: prod.splits option.splits)

end
