(* ===== verification/Upstream_Calls.thy ===== *)
theory Upstream_Calls
  imports Upstream_Route Envoy_Host "HOL-Library.AList"
begin

text \<open>
  The worker's side of the application's calls and streams
  (src/crates/ruvoy-envoy-fiber/src/upstream.rs): what goes out with a call, how
  a refusal and an answer reach the fiber, and the life of an open stream.

  A hash table of calls or streams is an association list; the runs of a filter
  (Worker_Properties) may find its entries in any order.  An open stream holds a reference \<open>'c\<close> to its channel,
  whose value the operations take and return.
\<close>

section \<open>Calls\<close>

definition TRACE_HEADERS :: "string list" where
  "TRACE_HEADERS =
     [''traceparent'', ''tracestate'', ''x-request-id'', ''b3'', ''x-b3-traceid'', ''x-b3-spanid'',
      ''x-b3-parentspanid'', ''x-b3-sampled'', ''x-b3-flags'']"

record 'r pending_call =
  pc_response :: 'r
  pc_cluster :: string
  pc_sent_at :: instant

definition waited :: "instant \<Rightarrow> 'r pending_call \<Rightarrow> duration" where
  "waited now c = now - pc_sent_at c"

type_synonym 'r in_flight = "(u64 \<times> 'r pending_call) list"

definition with_trace :: "(string \<times> bytes) list \<Rightarrow> (string \<times> bytes) list \<Rightarrow> (string \<times> bytes) list" where
  "with_trace headers trace =
     headers @ filter (\<lambda>(name, _). \<not> list_ex (\<lambda>(own, _). own = name) headers) trace"

primrec refusal :: "init_result \<Rightarrow> string \<Rightarrow> string option" where
  "refusal Init_Success cluster = None"
| "refusal ClusterNotFound cluster = Some (''cluster '' @ cluster @ '' does not exist'')"
| "refusal CannotCreateRequest cluster =
     Some (''cluster '' @ cluster @ '' turned the call away at once, for example because it has no healthy host or a circuit breaker is open'')"
| "refusal MissingRequiredHeaders cluster = Some ''the call is missing :method, :path or host''"
| "refusal DuplicateCalloutId cluster = Some ''Envoy handed out a call id that was already in use''"

definition callout_timeout :: "duration \<Rightarrow> u64" where
  "callout_timeout t = max (millis_saturated t) 1"

definition callout_of :: "'r upstream_request \<Rightarrow> (string \<times> bytes) list \<Rightarrow> envoy_call" where
  "callout_of r trace =
     Send_http_callout (ur_cluster r) (with_trace (ur_headers r) trace)
       (if ur_body r \<noteq> [] then Some (ur_body r) else None) (callout_timeout (ur_timeout r))"

text \<open>
  \<open>heap\<close> holds the response queues.  The result names the queue and cluster of
  a refused call, for the caller to wake its fiber.
\<close>

definition send ::
    "'e ehf \<Rightarrow> 'r upstream_request \<Rightarrow> (string \<times> bytes) list \<Rightarrow> 'r in_flight
       \<Rightarrow> ('r \<Rightarrow> response_stream) \<Rightarrow> 'e host
       \<Rightarrow> ('r \<times> string) option \<times> 'r in_flight \<times> ('r \<Rightarrow> response_stream) \<times> 'e host" where
  "send ehf r trace in_flight heap h =
     (let call = callout_of r trace;
          sent_at = instant_now ehf (env h);
          (result, callout_id) = init_answer ehf call (env h);
          h1 = perform ehf call h
      in case refusal result (ur_cluster r) of
           None \<Rightarrow>
             (None,
              AList.update callout_id
                \<lparr> pc_response = ur_response r, pc_cluster = ur_cluster r, pc_sent_at = sent_at \<rparr> in_flight,
              heap, h1)
         | Some why \<Rightarrow>
             (Some (ur_response r, ur_cluster r), in_flight,
              heap(ur_response r := snd (push_failure (Upstream why) (heap (ur_response r)))), h1))"

section \<open>Answers\<close>

definition concatenate :: "envoy_buffer list \<Rightarrow> bytes" where
  "concatenate chunks = concat chunks"

text \<open>One header of a response head: the status so far and the fields kept so far.\<close>

definition head_field ::
    "u16 option \<times> header_list \<Rightarrow> envoy_buffer \<times> envoy_buffer \<Rightarrow> u16 option \<times> header_list" where
  "head_field acc nv =
     (case (acc, nv) of ((status, kept), (n, v)) \<Rightarrow>
       let name = from_utf8_lossy n; text = from_utf8_lossy v in
       if name = '':status'' then (parse_u16 text, kept)
       else if \<not> starts_with name '':'' then (status, kept @ [(name, text)])
       else (status, kept))"

definition head_of :: "envoy_headers \<Rightarrow> response_head option" where
  "head_of headers =
     (case foldl head_field (None, []) headers of
        (None, _) \<Rightarrow> None
      | (Some status, kept) \<Rightarrow> Some \<lparr> head_status = status, head_headers = kept, head_thread = 0 \<rparr>)"

definition answer ::
    "envoy_headers \<Rightarrow> envoy_buffer list \<Rightarrow> nat \<Rightarrow> (bridge_error, response_head \<times> bytes) result" where
  "answer headers body max_bytes =
     (let size = total_len body in
      if size > max_bytes
      then Inl (UpstreamTooLarge (''the '' @ show_nat size @ '' byte response body is over the '' @
             show_nat max_bytes @ '' byte limit''))
      else and_then (ok_or (head_of headers) (Upstream ''the response carried no valid :status''))
             (\<lambda>head. Inr (head, concatenate body)))"

fun failed :: "bridge_error \<Rightarrow> call_outcome" where
  "failed (UpstreamOverflow _) = Overflow"
| "failed (UpstreamTooLarge _) = TooLarge"
| "failed _ = Reset"

definition call_result ::
    "callout_result \<Rightarrow> envoy_headers option \<Rightarrow> envoy_buffer list option \<Rightarrow> nat
       \<Rightarrow> (bridge_error, response_head \<times> bytes) result" where
  "call_result result headers body max_bytes =
     (case result of
        Callout_Success \<Rightarrow> answer (unwrap_or headers []) (unwrap_or body []) max_bytes
      | Callout_Reset \<Rightarrow> Inl (Upstream ''the upstream stream was reset'')
      | ExceedResponseBufferLimit \<Rightarrow> Inl (UpstreamTooLarge ''the response exceeded Envoy's buffer limit''))"

definition deliver ::
    "response_stream \<Rightarrow> callout_result \<Rightarrow> envoy_headers option \<Rightarrow> envoy_buffer list option \<Rightarrow> nat
       \<Rightarrow> call_outcome \<times> response_stream" where
  "deliver response result headers body max_bytes =
     (case call_result result headers body max_bytes of
        Inr (head, body) \<Rightarrow>
          let s1 = snd (push_head head response);
              s2 = (if body \<noteq> [] then snd (push_chunk body s1) else s1)
          in (Completed, snd (push_end s2))
      | Inl error \<Rightarrow> (failed error, snd (push_failure error response)))"

section \<open>Open streams\<close>

record 'c open_stream =
  os_channel :: 'c
  os_cluster :: string
  started_at :: instant
  os_outcome :: "call_outcome option"
  request_ended :: bool
  response_ended :: bool
  reset_sent :: bool
  upgraded :: bool

type_synonym 'c open_streams = "(u64 \<times> 'c open_stream) list"

datatype stream_action = Action_reset | Action_send bytes bool

datatype 'c started =
    Started_open u64 "'c open_stream"
  | Started_refused 'c string
  | Started_skipped string

definition new_open_stream :: "instant \<Rightarrow> 'c \<Rightarrow> string \<Rightarrow> bool \<Rightarrow> 'c open_stream" where
  "new_open_stream now channel cluster req_ended =
     \<lparr> os_channel = channel, os_cluster = cluster, started_at = now, os_outcome = None,
       request_ended = req_ended, response_ended = False, reset_sent = False, upgraded = False \<rparr>"

text \<open>The stream and the value of its channel, which every method below may change.\<close>

type_synonym 'c os_state = "'c open_stream \<times> stream_channel"

definition next_action :: "'c os_state \<Rightarrow> stream_action option \<times> 'c os_state" where
  "next_action s = (case s of (os, ch) \<Rightarrow>
     if wants_reset ch then
       (if reset_sent os then (None, os, ch)
        else (Some Action_reset, os\<lparr>reset_sent := True\<rparr>, ch))
     else if request_ended os then (None, os, ch)
     else
       let (item, req) = take_next (ch_request ch); ch1 = ch\<lparr>ch_request := req\<rparr> in
       case item of
         Some (Chunk chunk) \<Rightarrow> (Some (Action_send chunk False), os, ch1)
       | Some End \<Rightarrow> (Some (Action_send [] True), os\<lparr>request_ended := True\<rparr>, ch1)
       | _ \<Rightarrow> (None, os, ch1))"

definition os_set_outcome :: "call_outcome \<Rightarrow> 'c open_stream \<Rightarrow> 'c open_stream" where
  "os_set_outcome x os = os\<lparr>os_outcome := get_or_insert (os_outcome os) x\<rparr>"

definition end_stream :: "'c os_state \<Rightarrow> 'c os_state" where
  "end_stream s = (case s of (os, ch) \<Rightarrow>
     (os_set_outcome Completed (os\<lparr>response_ended := True\<rparr>), on_response (\<lambda>r. snd (push_end r)) ch))"

definition fail_stream :: "bridge_error \<Rightarrow> 'c os_state \<Rightarrow> 'c os_state" where
  "fail_stream error s = (case s of (os, ch) \<Rightarrow>
     (os_set_outcome (failed error) (os\<lparr>response_ended := True\<rparr>), fail_channel error ch))"

definition gone :: "'c os_state \<Rightarrow> 'c os_state" where
  "gone s = (case s of (os, ch) \<Rightarrow> (os, on_request cancel ch))"

definition stopped_by_fiber :: "'c os_state \<Rightarrow> call_outcome" where
  "stopped_by_fiber s = (case s of (os, ch) \<Rightarrow>
     if timed_out ch then TimedOut else if upgraded os then Completed else Abandoned)"

definition headers_arrived :: "instant \<Rightarrow> envoy_headers \<Rightarrow> bool \<Rightarrow> 'c os_state \<Rightarrow> duration option \<times> 'c os_state" where
  "headers_arrived now headers end_str s = (case s of (os, ch) \<Rightarrow>
     if response_ended os then (None, s)
     else case head_of headers of
            None \<Rightarrow> (None, fail_stream (Upstream ''the response carried no valid :status'') s)
          | Some head \<Rightarrow>
              let s1 = (os\<lparr>upgraded := (head_status head = 101)\<rparr>, on_response (\<lambda>r. snd (push_head head r)) ch)
              in (Some (now - started_at os), if end_str then end_stream s1 else s1))"

definition outcome_of :: "'c open_stream \<Rightarrow> call_outcome" where
  "outcome_of os = unwrap_or (os_outcome os) Abandoned"

definition data_arrived :: "envoy_buffer list \<Rightarrow> bool \<Rightarrow> 'c os_state \<Rightarrow> bool \<times> 'c os_state" where
  "data_arrived data end_str s = (case s of (os, ch) \<Rightarrow>
     if response_ended os then (False, s)
     else
       let bs = concatenate data;
           finish = (\<lambda>t. (False, if end_str then end_stream t else t))
       in if bs \<noteq> [] then
            (let (fits, resp) = push_chunk_if_room bs (ch_response ch);
                 ch1 = ch\<lparr>ch_response := resp\<rparr>
             in case fits of
                  Some True \<Rightarrow> finish (os, ch1)
                | Some False \<Rightarrow>
                    (True, fail_stream (UpstreamOverflow
                       ''the upstream sent faster than the application read, past the stream's buffer'') (os, ch1))
                | None \<Rightarrow>
                    (False, os_set_outcome (stopped_by_fiber (os, ch1)) (os\<lparr>response_ended := True\<rparr>), ch1))
          else finish (os, ch))"

definition trailers_arrived :: "envoy_headers \<Rightarrow> 'c os_state \<Rightarrow> 'c os_state" where
  "trailers_arrived trailers s = (case s of (os, ch) \<Rightarrow>
     if response_ended os then s
     else end_stream
            (os, set_trailers (map (\<lambda>(n, v). (from_utf8_lossy n, from_utf8_lossy v)) trailers) ch))"

definition completed :: "'c os_state \<Rightarrow> 'c os_state" where
  "completed s = gone (if \<not> response_ended (fst s) then end_stream s else s)"

primrec reset_reason_text :: "stream_reset_reason \<Rightarrow> string" where
  "reset_reason_text ConnectionFailure = ''the upstream could not be reached''"
| "reset_reason_text ConnectionTermination = ''the upstream connection closed''"
| "reset_reason_text LocalReset = ''the stream was reset locally''"
| "reset_reason_text LocalRefusedStreamReset = ''the stream was refused locally''"
| "reset_reason_text Reset_Overflow =
     ''Envoy turned the stream away, for example because a circuit breaker is open''"
| "reset_reason_text RemoteReset = ''the upstream reset the stream''"
| "reset_reason_text RemoteRefusedStreamReset = ''the upstream refused the stream''"
| "reset_reason_text ProtocolError = ''the upstream broke the HTTP protocol''"

definition reset_by_envoy :: "stream_reset_reason \<Rightarrow> 'c os_state \<Rightarrow> 'c os_state" where
  "reset_by_envoy reason s = (case s of (os, ch) \<Rightarrow>
     if upgraded os \<and> \<not> reset_sent os then completed s
     else
       let os1 = (if reset_sent os \<and> os_outcome os = None
                  then os\<lparr>os_outcome := Some (stopped_by_fiber s)\<rparr> else os);
           os2 = (if reason = Reset_Overflow then os_set_outcome Call_refused os1 else os1);
           s2 = (os2, ch)
       in gone (if \<not> response_ended os2 then fail_stream (Upstream (reset_reason_text reason)) s2 else s2))"

definition abandon :: "'c os_state \<Rightarrow> 'c os_state" where
  "abandon s = (case s of (os, ch) \<Rightarrow>
     let s1 = (os_set_outcome (if upgraded os then Completed else Abandoned) os, ch) in
     gone (if \<not> response_ended os
           then fail_stream (Upstream ''the request finished before the stream did'') s1 else s1))"

section \<open>Starting a stream\<close>

definition stream_timeout :: "duration \<Rightarrow> u64" where
  "stream_timeout t = (if t = 0 then 0 else max (millis_saturated t) 1)"

text \<open>What goes out with the headers: the first piece of the body, or its end.\<close>

definition first_piece :: "stream_item option \<Rightarrow> bytes option \<times> bool" where
  "first_piece first =
     (case first of
        Some End \<Rightarrow> (None, True)
      | Some (Chunk chunk) \<Rightarrow> (Some chunk, False)
      | _ \<Rightarrow> (None, False))"

definition start ::
    "'e ehf \<Rightarrow> 'c upstream_stream_request \<Rightarrow> (string \<times> bytes) list \<Rightarrow> stream_channel \<Rightarrow> 'e host
       \<Rightarrow> 'c started \<times> stream_channel \<times> 'e host \<times> callback list" where
  "start ehf r trace ch h =
     (if wants_reset ch then (Started_skipped (us_cluster r), ch, h, [])
      else
        let (first, req) = take_next (ch_request ch);
            ch1 = ch\<lparr>ch_request := req\<rparr>;
            (body, req_ended) = first_piece first;
            call = Start_http_stream (us_cluster r) (with_trace (us_headers r) trace) body req_ended
                     (stream_timeout (us_timeout r));
            (result, handle) = init_answer ehf call (env h);
            back = reenters ehf call (env h);
            h1 = perform ehf call h
        in case refusal result (us_cluster r) of
             Some why \<Rightarrow>
               (Started_refused (us_channel r) (us_cluster r), fail_channel (Upstream why) ch1, h1, back)
           | None \<Rightarrow>
               (Started_open handle
                  (new_open_stream (instant_now ehf (env h1)) (us_channel r) (us_cluster r) req_ended),
                ch1, h1, back))"

section \<open>The life of an open stream\<close>

text \<open>
  What can happen to an open stream: the worker's turns, Envoy's reports, and,
  between them, any atomic step of the fiber on the shared channel.
\<close>

datatype open_event =
    Ev_next
  | Ev_headers instant envoy_headers bool
  | Ev_data "envoy_buffer list" bool
  | Ev_trailers envoy_headers
  | Ev_completed
  | Ev_reset stream_reset_reason
  | Ev_abandon
  | Ev_fiber channel_op

primrec os_act :: "open_event \<Rightarrow> 'c os_state \<Rightarrow> 'c os_state" where
  "os_act Ev_next s = snd (next_action s)"
| "os_act (Ev_headers now hs e) s = snd (headers_arrived now hs e s)"
| "os_act (Ev_data d e) s = snd (data_arrived d e s)"
| "os_act (Ev_trailers ts) s = trailers_arrived ts s"
| "os_act Ev_completed s = completed s"
| "os_act (Ev_reset r) s = reset_by_envoy r s"
| "os_act Ev_abandon s = abandon s"
| "os_act (Ev_fiber x) s = (fst s, channel_act x (snd s))"

definition os_actions :: "open_event \<Rightarrow> 'c os_state \<Rightarrow> stream_action list" where
  "os_actions ev s =
     (case ev of
        Ev_next \<Rightarrow> (case fst (next_action s) of None \<Rightarrow> [] | Some a \<Rightarrow> [a])
      | _ \<Rightarrow> [])"

named_theorems os_defs \<open>the definitions of the methods of an open stream\<close>

declare next_action_def [os_defs] headers_arrived_def [os_defs] data_arrived_def [os_defs]
  trailers_arrived_def [os_defs] completed_def [os_defs] reset_by_envoy_def [os_defs]
  abandon_def [os_defs] gone_def [os_defs] end_stream_def [os_defs] fail_stream_def [os_defs]
  os_set_outcome_def [os_defs] on_response_def [os_defs] on_request_def [os_defs]
  fail_channel_def [os_defs] wants_reset_def [os_defs] set_trailers_def [os_defs]

lemma os_set_outcome_simps [simp]:
  "request_ended (os_set_outcome x os) = request_ended os"
  "response_ended (os_set_outcome x os) = response_ended os"
  "reset_sent (os_set_outcome x os) = reset_sent os"
  "upgraded (os_set_outcome x os) = upgraded os"
  "os_outcome (os_set_outcome x os) = get_or_insert (os_outcome os) x"
  by (simp_all add: os_set_outcome_def)

text \<open>The flags only ever go up, and an outcome once set stays.\<close>

definition flags_grow :: "'c os_state \<Rightarrow> 'c os_state \<Rightarrow> bool" where
  "flags_grow s t \<longleftrightarrow>
     (os_outcome (fst s) \<noteq> None \<longrightarrow> os_outcome (fst t) = os_outcome (fst s)) \<and>
     (request_ended (fst s) \<longrightarrow> request_ended (fst t)) \<and>
     (response_ended (fst s) \<longrightarrow> response_ended (fst t)) \<and>
     (reset_sent (fst s) \<longrightarrow> reset_sent (fst t)) \<and>
     (reset_wanted (snd s) \<longrightarrow> reset_wanted (snd t))"

lemma flags_grow_refl [simp]: "flags_grow s s"
  by (simp add: flags_grow_def)

lemma flags_grow_trans: "flags_grow s t \<Longrightarrow> flags_grow t u \<Longrightarrow> flags_grow s u"
  by (auto simp: flags_grow_def)

lemma flags_grow_end: "flags_grow s (end_stream s)"
  by (cases s; cases "os_outcome (fst s)") (auto simp: flags_grow_def end_stream_def on_response_def)

lemma flags_grow_fail: "flags_grow s (fail_stream e s)"
  by (cases s; cases "os_outcome (fst s)") (auto simp: flags_grow_def fail_stream_def fail_channel_def)

lemma flags_grow_gone: "flags_grow s (gone s)"
  by (cases s) (auto simp: flags_grow_def gone_def on_request_def)

lemma flags_grow_outcome: "flags_grow (os, ch) (os_set_outcome x os, ch)"
  by (cases "os_outcome os") (auto simp: flags_grow_def)

lemma flags_grow_channel: "flags_grow (os, ch) (os, ch')" if "reset_wanted ch \<longrightarrow> reset_wanted ch'"
  using that by (simp add: flags_grow_def)

lemma flags_grow_completed: "flags_grow s (completed s)"
  unfolding completed_def
  by (auto intro: flags_grow_trans [OF _ flags_grow_gone] flags_grow_end)

lemma flags_grow_next: "flags_grow s (snd (next_action s))"
  by (auto simp: flags_grow_def next_action_def Let_def split: prod.splits option.splits stream_item.splits)

lemma flags_grow_headers: "flags_grow s (snd (headers_arrived now hs e s))"
proof (cases s)
  case (Pair os ch)
  have "flags_grow s (os\<lparr>upgraded := u\<rparr>, on_response f ch)" for u f
    by (simp add: Pair flags_grow_def on_response_def)
  then show ?thesis
    unfolding headers_arrived_def Pair
    by (auto simp: Let_def flags_grow_fail split: option.splits
        intro: flags_grow_trans [OF _ flags_grow_end])
qed

lemma flags_grow_data: "flags_grow s (snd (data_arrived d e s))"
proof (cases s)
  case (Pair os ch)
  have ch: "flags_grow (os, ch) (os, ch\<lparr>ch_response := r\<rparr>)" for r
    by (rule flags_grow_channel) simp
  have stopped: "flags_grow (os, ch) (os_set_outcome x (os\<lparr>response_ended := True\<rparr>), ch\<lparr>ch_response := r\<rparr>)" for x r
    by (cases "os_outcome os") (auto simp: flags_grow_def)
  show ?thesis
    unfolding data_arrived_def Pair
    by (auto simp: Let_def ch stopped flags_grow_end split: prod.splits option.splits bool.splits
        intro: flags_grow_trans [OF ch flags_grow_end] flags_grow_trans [OF ch flags_grow_fail])
qed

lemma flags_grow_trailers: "flags_grow s (trailers_arrived ts s)"
proof (cases s)
  case (Pair os ch)
  have "flags_grow (os, ch) (os, set_trailers t ch)" for t
    by (rule flags_grow_channel) (simp add: set_trailers_def)
  then show ?thesis
    unfolding trailers_arrived_def Pair
    by (auto intro: flags_grow_trans [OF _ flags_grow_end])
qed

lemma flags_grow_reset: "flags_grow s (reset_by_envoy r s)"
proof (cases s)
  case (Pair os ch)
  define os1 where "os1 = (if reset_sent os \<and> os_outcome os = None
    then os\<lparr>os_outcome := Some (stopped_by_fiber s)\<rparr> else os)"
  define os2 where "os2 = (if r = Reset_Overflow then os_set_outcome Call_refused os1 else os1)"
  have "flags_grow (os, ch) (os1, ch)"
    by (auto simp: os1_def flags_grow_def)
  moreover have "flags_grow (os1, ch) (os2, ch)"
    by (simp add: os2_def flags_grow_outcome)
  ultimately have 12: "flags_grow s (os2, ch)"
    unfolding Pair by (rule flags_grow_trans)
  moreover have "reset_by_envoy r s = (if upgraded os \<and> \<not> reset_sent os then completed s
      else gone (if \<not> response_ended os2 then fail_stream (Upstream (reset_reason_text r)) (os2, ch) else (os2, ch)))"
    by (simp add: Pair reset_by_envoy_def os1_def os2_def Let_def)
  ultimately show ?thesis
    using flags_grow_completed [of s]
    by (auto intro: flags_grow_trans [OF flags_grow_trans [OF 12 flags_grow_fail] flags_grow_gone]
        flags_grow_trans [OF 12 flags_grow_gone])
qed

lemma flags_grow_abandon: "flags_grow s (abandon s)"
proof (cases s)
  case (Pair os ch)
  note set = flags_grow_outcome [of os ch]
  show ?thesis
    unfolding Pair abandon_def
    by (auto simp: Let_def intro: flags_grow_trans [OF flags_grow_trans [OF set flags_grow_fail] flags_grow_gone]
        flags_grow_trans [OF set flags_grow_gone])
qed

lemma flags_grow_act: "flags_grow s (os_act ev s)"
proof (cases ev)
  case (Ev_fiber x)
  then show ?thesis
    by (cases x) (auto simp: flags_grow_def on_response_def on_request_def set_trailers_def)
qed (simp_all add: flags_grow_next flags_grow_headers flags_grow_data flags_grow_trailers
    flags_grow_completed flags_grow_reset flags_grow_abandon)

lemma flags_grow_run: "flags_grow s (run os_act evs s)"
proof (induction evs arbitrary: s)
  case (Cons ev evs)
  then show ?case
    using flags_grow_trans [OF flags_grow_act Cons.IH] by simp
qed simp

section \<open>An open stream is settled when it ends\<close>

definition response_settled :: "stream_channel \<Rightarrow> bool" where
  "response_settled ch \<longleftrightarrow> ended (ch_response ch) \<or> cancelled (ch_response ch)"

definition os_inv :: "'c os_state \<Rightarrow> bool" where
  "os_inv s \<longleftrightarrow> (case s of (os, ch) \<Rightarrow>
     (response_ended os \<longrightarrow> response_settled ch \<and> os_outcome os \<noteq> None) \<and>
     (reset_sent os \<longrightarrow> reset_wanted ch))"

lemma push_settles [simp]:
  "cancelled (snd (push i s)) = cancelled s"
  "is_terminal i \<Longrightarrow> ended (snd (push i s)) = (\<not> cancelled s \<or> ended s)"
  by (cases i; auto simp: push_def)+

lemma settled_stays: "response_settled ch \<Longrightarrow> response_settled (channel_act x ch)"
  by (cases x) (auto simp: response_settled_def on_response_def on_request_def set_trailers_def
      stream_stays_ended stream_stays_cancelled)

lemma os_inv_end: "os_inv s \<Longrightarrow> os_inv (end_stream s)"
  by (auto simp: os_inv_def end_stream_def response_settled_def on_response_def push_end_def)

lemma os_inv_fail: "os_inv s \<Longrightarrow> os_inv (fail_stream e s)"
  by (auto simp: os_inv_def fail_stream_def fail_channel_def response_settled_def on_response_def
      on_request_def push_failure_def)

lemma os_inv_gone: "os_inv s \<Longrightarrow> os_inv (gone s)"
  by (auto simp: os_inv_def gone_def response_settled_def on_request_def)

lemma os_inv_completed: "os_inv s \<Longrightarrow> os_inv (completed s)"
  by (auto simp: completed_def os_inv_gone os_inv_end)

lemma os_inv_next: "os_inv s \<Longrightarrow> os_inv (snd (next_action s))"
  by (auto simp: os_inv_def next_action_def wants_reset_def response_settled_def Let_def
      split: prod.splits option.splits stream_item.splits)

lemma os_inv_headers: "os_inv s \<Longrightarrow> os_inv (snd (headers_arrived now hs e s))"
proof (cases s)
  case (Pair os ch)
  assume inv: "os_inv s"
  have "\<not> response_ended os \<Longrightarrow> os_inv (os\<lparr>upgraded := u\<rparr>, on_response f ch)" for u f
    using inv by (simp add: Pair os_inv_def on_response_def)
  then show ?thesis
    using inv unfolding headers_arrived_def Pair
    by (auto simp: Let_def os_inv_fail os_inv_end split: option.splits)
qed

lemma os_inv_data: "os_inv s \<Longrightarrow> os_inv (snd (data_arrived d e s))"
proof (cases s)
  case (Pair os ch)
  assume inv: "os_inv s"
  have open_inv: "\<not> response_ended os \<Longrightarrow> os_inv (os, ch\<lparr>ch_response := r\<rparr>)" for r
    using inv by (simp add: Pair os_inv_def)
  have stopped: "os_inv (os_set_outcome x (os\<lparr>response_ended := True\<rparr>), ch\<lparr>ch_response := r\<rparr>)"
    if "push_chunk_if_room b (ch_response ch) = (None, r)" for x b r
    using inv that
    by (auto simp: Pair os_inv_def response_settled_def push_chunk_if_room_def Let_def split: if_splits)
  show ?thesis
    using inv unfolding data_arrived_def Pair
    by (auto simp: Let_def open_inv stopped os_inv_end os_inv_fail
        split: prod.splits option.splits bool.splits)
qed

lemma os_inv_trailers: "os_inv s \<Longrightarrow> os_inv (trailers_arrived ts s)"
proof (cases s)
  case (Pair os ch)
  assume inv: "os_inv s"
  then have "os_inv (os, set_trailers t ch)" for t
    by (simp add: Pair os_inv_def set_trailers_def response_settled_def)
  then show ?thesis
    using inv unfolding trailers_arrived_def Pair by (auto intro: os_inv_end)
qed

lemma os_inv_outcome: "os_inv (os, ch) \<Longrightarrow> os_inv (os_set_outcome x os, ch)"
  by (auto simp: os_inv_def)

lemma os_inv_reset: "os_inv s \<Longrightarrow> os_inv (reset_by_envoy r s)"
proof (cases s)
  case (Pair os ch)
  assume inv: "os_inv s"
  define os1 where "os1 = (if reset_sent os \<and> os_outcome os = None
    then os\<lparr>os_outcome := Some (stopped_by_fiber s)\<rparr> else os)"
  define os2 where "os2 = (if r = Reset_Overflow then os_set_outcome Call_refused os1 else os1)"
  have "os_inv (os1, ch)"
    using inv by (auto simp: Pair os1_def os_inv_def)
  then have "os_inv (os2, ch)"
    by (simp add: os2_def os_inv_outcome)
  moreover have "reset_by_envoy r s = (if upgraded os \<and> \<not> reset_sent os then completed s
      else gone (if \<not> response_ended os2 then fail_stream (Upstream (reset_reason_text r)) (os2, ch) else (os2, ch)))"
    by (simp add: Pair reset_by_envoy_def os1_def os2_def Let_def)
  ultimately show ?thesis
    using os_inv_completed [OF inv] by (simp add: os_inv_gone os_inv_fail)
qed

lemma os_inv_abandon: "os_inv s \<Longrightarrow> os_inv (abandon s)"
  by (cases s) (simp add: abandon_def Let_def os_inv_gone os_inv_fail os_inv_outcome)

interpretation os_wf: operation_invariant os_act os_inv
proof unfold_locales
  fix s ev assume inv: "os_inv s"
  show "os_inv (os_act ev s)"
  proof (cases ev)
    case (Ev_fiber x)
    then show ?thesis
      using inv settled_stays [of "snd s" x] channel_flags_stay(1) [of "snd s" "[x]"]
      by (auto simp: os_inv_def)
  qed (simp_all add: inv os_inv_next os_inv_headers os_inv_data os_inv_trailers os_inv_completed
      os_inv_reset os_inv_abandon)
qed

section \<open>What a stream asks of Envoy\<close>

text \<open>
  The order an upstream stream is driven in: data while the body is open, at
  most one end, at most one reset, and nothing after the reset.  The two flags
  say whether the end and the reset have been asked for already.
\<close>

fun ok_actions :: "bool \<Rightarrow> bool \<Rightarrow> stream_action list \<Rightarrow> bool" where
  "ok_actions body_ended reset [] = True"
| "ok_actions body_ended reset (Action_send d fin # xs) =
     (\<not> body_ended \<and> \<not> reset \<and> (fin \<longrightarrow> d = []) \<and> ok_actions fin reset xs)"
| "ok_actions body_ended reset (Action_reset # xs) = (\<not> reset \<and> ok_actions body_ended True xs)"

lemma ok_actions_weaken:
  "ok_actions b' r' xs \<Longrightarrow> (b \<longrightarrow> b') \<Longrightarrow> (r \<longrightarrow> r') \<Longrightarrow> ok_actions b r xs"
proof (induction xs arbitrary: b r b' r')
  case (Cons a xs)
  then show ?case
    by (cases a) auto
qed simp

lemma next_action_cases:
  assumes "os_inv s" and "next_action s = (Some a, t)"
  shows "(\<exists>d fin. a = Action_send d fin \<and> \<not> request_ended (fst s) \<and> \<not> reset_sent (fst s) \<and>
            (fin \<longrightarrow> d = []) \<and> request_ended (fst t) = fin) \<or>
         (a = Action_reset \<and> \<not> reset_sent (fst s) \<and> reset_sent (fst t) \<and>
            request_ended (fst t) = request_ended (fst s))"
  using assms
  by (auto simp: next_action_def os_inv_def wants_reset_def Let_def
      split: prod.splits if_splits option.splits stream_item.splits)

lemma os_actions_ok:
  "os_inv s \<Longrightarrow> ok_actions (request_ended (fst s)) (reset_sent (fst s)) (emitted os_act os_actions evs s)"
proof (induction evs arbitrary: s)
  case (Cons ev evs)
  let ?t = "os_act ev s"
  have IH: "ok_actions (request_ended (fst ?t)) (reset_sent (fst ?t)) (emitted os_act os_actions evs ?t)"
    using Cons by (simp add: os_wf.inv_act)
  have grow: "request_ended (fst s) \<longrightarrow> request_ended (fst ?t)" "reset_sent (fst s) \<longrightarrow> reset_sent (fst ?t)"
    using flags_grow_act [of s ev] by (auto simp: flags_grow_def)
  show ?case
  proof (cases "os_actions ev s")
    case Nil
    then show ?thesis
      using ok_actions_weaken [OF IH grow] by simp
  next
    case (Cons a as)
    then have ev: "ev = Ev_next" and turn: "next_action s = (Some a, ?t)" and [simp]: "as = []"
      by (auto simp: os_actions_def split: open_event.splits option.splits intro: prod_eqI)
    show ?thesis
      using next_action_cases [OF Cons.prems turn] IH grow
      by (auto simp: Cons elim: ok_actions_weaken)
  qed
qed simp

section \<open>The request body of a stream\<close>

definition os_req_accepts :: "open_event \<Rightarrow> 'c os_state \<Rightarrow> stream_item list" where
  "os_req_accepts ev s =
     (case ev of
        Ev_fiber x \<Rightarrow> (case x of On_request y \<Rightarrow> stream_accepts y (ch_request (snd s)) | _ \<Rightarrow> [])
      | _ \<Rightarrow> [])"

definition os_req_hands_out :: "open_event \<Rightarrow> 'c os_state \<Rightarrow> stream_item list" where
  "os_req_hands_out ev s =
     (case ev of
        Ev_next \<Rightarrow>
          (if wants_reset (snd s) \<or> request_ended (fst s) then []
           else stream_hands_out Op_take_next (ch_request (snd s)))
      | Ev_fiber x \<Rightarrow> (case x of On_request y \<Rightarrow> stream_hands_out y (ch_request (snd s)) | _ \<Rightarrow> [])
      | _ \<Rightarrow> [])"

text \<open>Every event is, on the request queue, one queue operation or none.\<close>

definition os_req_op :: "open_event \<Rightarrow> 'c os_state \<Rightarrow> stream_op option" where
  "os_req_op ev s =
     (case ev of
        Ev_next \<Rightarrow> (if wants_reset (snd s) \<or> request_ended (fst s) then None else Some Op_take_next)
      | Ev_fiber x \<Rightarrow> (case x of On_request y \<Rightarrow> Some y | _ \<Rightarrow> None)
      | _ \<Rightarrow> (if ch_request (snd (os_act ev s)) = ch_request (snd s) then None else Some Op_cancel))"

lemma request_end_fail [simp]:
  "ch_request (snd (end_stream s)) = ch_request (snd s)"
  "ch_request (snd (fail_stream e s)) = cancel (ch_request (snd s))"
  "ch_request (snd (gone s)) = cancel (ch_request (snd s))"
  by (cases s; simp add: end_stream_def fail_stream_def fail_channel_def gone_def on_response_def on_request_def)+

lemma cancel_idem [simp]: "cancel (cancel s) = cancel s"
  by (simp add: cancel_def)

lemma request_of_act:
  assumes "ev \<noteq> Ev_next" and "\<And>x. ev \<noteq> Ev_fiber x"
  shows "ch_request (snd (os_act ev s)) \<in> {ch_request (snd s), cancel (ch_request (snd s))}"
proof (cases ev)
  case (Ev_headers now hs e)
  then show ?thesis
    by (cases s) (auto simp: headers_arrived_def on_response_def Let_def split: option.splits)
next
  case (Ev_data d e)
  then show ?thesis
    by (cases s) (auto simp: data_arrived_def Let_def split: prod.splits option.splits bool.splits)
next
  case (Ev_trailers ts)
  then show ?thesis
    by (cases s) (auto simp: trailers_arrived_def set_trailers_def)
next
  case Ev_completed
  then show ?thesis
    by (simp add: completed_def)
next
  case (Ev_reset r)
  then show ?thesis
    by (cases s) (simp add: reset_by_envoy_def completed_def Let_def)
next
  case Ev_abandon
  then show ?thesis
    by (cases s) (simp add: abandon_def Let_def)
qed (use assms in simp_all)

lemma request_of_next:
  "ch_request (snd (snd (next_action s))) =
     (if wants_reset (snd s) \<or> request_ended (fst s) then ch_request (snd s)
      else snd (take_next (ch_request (snd s))))"
  by (auto simp: next_action_def Let_def split: prod.splits option.splits stream_item.splits)

lemma request_simulates:
  "ch_request (snd (os_act ev s)) =
     (case os_req_op ev s of None \<Rightarrow> ch_request (snd s) | Some x \<Rightarrow> stream_act x (ch_request (snd s))) \<and>
   os_req_accepts ev s =
     (case os_req_op ev s of None \<Rightarrow> [] | Some x \<Rightarrow> stream_accepts x (ch_request (snd s))) \<and>
   os_req_hands_out ev s =
     (case os_req_op ev s of None \<Rightarrow> [] | Some x \<Rightarrow> stream_hands_out x (ch_request (snd s)))"
proof (cases "ev = Ev_next \<or> (\<exists>x. ev = Ev_fiber x)")
  case True
  then show ?thesis
    by (auto simp: request_of_next os_req_op_def os_req_accepts_def os_req_hands_out_def
        on_response_def on_request_def set_trailers_def split: channel_op.splits)
next
  case False
  then show ?thesis
    using request_of_act [of ev s]
    by (cases ev) (auto simp: os_req_op_def os_req_accepts_def os_req_hands_out_def stream_hands_out_def)
qed

definition os_req_inv :: "'c os_state \<Rightarrow> bool" where
  "os_req_inv s = stream_inv (ch_request (snd s))"

interpretation request_body: fifo_channel os_act os_req_inv "\<lambda>s. items (ch_request (snd s))"
  os_req_accepts os_req_hands_out "\<lambda>s. cancelled (ch_request (snd s))"
proof unfold_locales
  fix s :: "'c os_state" and ev
  note sim = request_simulates [of ev s]
  show "os_req_inv s \<Longrightarrow> os_req_inv (os_act ev s)"
    using sim by (auto simp: os_req_inv_def stream_wf.inv_act split: option.splits)
  show "os_req_inv s \<Longrightarrow> \<not> cancelled (ch_request (snd s)) \<Longrightarrow> \<not> cancelled (ch_request (snd (os_act ev s))) \<Longrightarrow>
      items (ch_request (snd s)) @ os_req_accepts ev s =
      os_req_hands_out ev s @ items (ch_request (snd (os_act ev s)))"
    using sim stream_fifo.live_fifo by (auto simp: os_req_inv_def split: option.splits)
  show "os_req_inv s \<Longrightarrow> \<not> cancelled (ch_request (snd s)) \<Longrightarrow> cancelled (ch_request (snd (os_act ev s))) \<Longrightarrow>
      prefix (os_req_hands_out ev s) (items (ch_request (snd s)) @ os_req_accepts ev s)"
    using sim stream_fifo.dies_quietly by (auto simp: os_req_inv_def split: option.splits)
  show "cancelled (ch_request (snd s)) \<Longrightarrow> cancelled (ch_request (snd (os_act ev s)))"
    using sim by (auto simp: stream_stays_cancelled split: option.splits)
  show "os_req_inv s \<Longrightarrow> cancelled (ch_request (snd s)) \<Longrightarrow> os_req_accepts ev s = [] \<and> os_req_hands_out ev s = []"
    using sim stream_dead_silent by (auto simp: os_req_inv_def split: option.splits)
qed

primrec action_data :: "stream_action \<Rightarrow> bytes" where
  "action_data Action_reset = []"
| "action_data (Action_send d fin) = d"

definition fiber_keeps_off :: "open_event \<Rightarrow> bool" where
  "fiber_keeps_off ev \<longleftrightarrow> ev \<noteq> Ev_fiber (On_request Op_take_next)"

lemma sent_is_handed_out:
  assumes "fiber_keeps_off ev"
  shows "concat (map action_data (os_actions ev s)) = body_of (os_req_hands_out ev s)"
proof (cases ev)
  case Ev_next
  then show ?thesis
    by (auto simp: os_actions_def os_req_hands_out_def stream_hands_out_def next_action_def Let_def
        split: prod.splits option.splits stream_item.splits)
next
  case (Ev_fiber x)
  then show ?thesis
    using assms by (cases x)
      (auto simp: os_actions_def os_req_hands_out_def stream_hands_out_def fiber_keeps_off_def
        split: stream_op.splits)
qed (simp_all add: os_actions_def os_req_hands_out_def)

lemma sent_run_is_handed_out:
  "list_all fiber_keeps_off evs \<Longrightarrow>
   concat (map action_data (emitted os_act os_actions evs s)) = body_of (emitted os_act os_req_hands_out evs s)"
  by (induction evs arbitrary: s) (simp_all add: sent_is_handed_out)

lemma body_of_prefix: "prefix xs ys \<Longrightarrow> prefix (body_of xs) (body_of ys)"
  by (auto simp: prefix_def)

lemma unat_max_one: "unat (max x 1) = max (unat x) 1" for x :: u64
  by (simp add: max_def word_le_nat_alt)

section \<open>Properties\<close>

definition opened :: "nat \<Rightarrow> unit os_state" where
  "opened n = (new_open_stream 0 () ''api'' False, new_channel n)"

text \<open>
  C14. An open stream drives Envoy in order.  However worker turns, Envoy's
  reports and the fiber's steps interleave, the stream sends data only while its
  body is open, ends it at most once and with an empty piece, resets at most
  once, and asks nothing more after the reset.
\<close>

theorem open_stream_action_order:
  "ok_actions req_ended False
     (emitted os_act os_actions evs (new_open_stream now c cluster req_ended, ch))"
  using os_actions_ok [of "(new_open_stream now c cluster req_ended, ch)" evs]
  by (simp add: new_open_stream_def os_inv_def)

text \<open>
  C21. The pieces sent upstream, put together, are a prefix of the bytes the
  fiber wrote into the request queue, in the order it wrote them: no byte is
  sent twice, skipped or reordered, whatever else happens to the stream.
\<close>

theorem open_stream_body_in_order:
  assumes "channel_inv ch" and "list_all fiber_keeps_off evs"
  shows "prefix (concat (map action_data (emitted os_act os_actions evs (os, ch))))
    (body_of (items (ch_request ch) @ emitted os_act os_req_accepts evs (os, ch)))"
proof -
  have "os_req_inv (os, ch)"
    using assms(1) by (simp add: os_req_inv_def channel_inv_def)
  from body_of_prefix [OF request_body.hands_out_prefix [OF this, of evs]]
  show ?thesis
    by (simp add: sent_run_is_handed_out [OF assms(2)])
qed

theorem open_stream_body_in_order_witness:
  "prefix (concat (map action_data (emitted os_act os_actions
      [Ev_fiber (On_request (Op_push_within_budget ''abcdef'')), Ev_next] (opened 4)))) ''abcd''"
  using open_stream_body_in_order [of "snd (opened 4)"
      "[Ev_fiber (On_request (Op_push_within_budget ''abcdef'')), Ev_next]" "fst (opened 4)"]
  by (simp add: fiber_keeps_off_def opened_def os_req_accepts_def push_chunk_within_budget_def
      new_channel_def new_stream_def next_action_def wants_reset_def new_open_stream_def
      on_request_def take_next_def channel_inv_def os_actions_def stream_inv_def)

text \<open>
  C22. When Envoy reports a stream complete or reset, or the request abandons it,
  the stream is settled whatever happened before: the fiber's response queue has
  been ended, failed or cancelled, so a reader cannot wait forever; the request
  queue is cancelled, so a writer cannot either; an outcome is recorded.  And an
  outcome, once recorded, never changes afterwards.
\<close>

theorem open_stream_settles:
  assumes "last_event \<in> {Ev_completed, Ev_reset reason, Ev_abandon}"
  shows "let s = run os_act (evs @ [last_event]) (new_open_stream now c cluster req_ended, ch) in
    response_settled (snd s) \<and> cancelled (ch_request (snd s)) \<and> os_outcome (fst s) \<noteq> None \<and>
    os_outcome (fst (run os_act later s)) = os_outcome (fst s)"
proof -
  let ?s0 = "(new_open_stream now c cluster req_ended, ch)"
  define t where "t = run os_act evs ?s0"
  define s where "s = os_act last_event t"
  have "os_inv ?s0"
    by (simp add: os_inv_def new_open_stream_def)
  then have "os_inv t"
    unfolding t_def by (rule os_wf.inv_run)
  then have inv: "os_inv s"
    unfolding s_def by (rule os_wf.inv_act)
  have ended: "response_ended (fst s) \<and> cancelled (ch_request (snd s))"
    using assms unfolding s_def
    by (cases t) (auto simp: completed_def reset_by_envoy_def abandon_def gone_def end_stream_def
        fail_stream_def on_request_def cancel_def Let_def)
  then have "response_settled (snd s)" "os_outcome (fst s) \<noteq> None"
    using inv by (auto simp: os_inv_def split: prod.splits)
  moreover from this have "os_outcome (fst (run os_act later s)) = os_outcome (fst s)"
    using flags_grow_run [of s later] by (simp add: flags_grow_def)
  ultimately show ?thesis
    using ended by (simp add: Let_def s_def t_def)
qed

theorem open_stream_settles_witness:
  "let s = run os_act [Ev_data [''x''] False, Ev_reset RemoteReset] (opened 4) in
     response_settled (snd s) \<and> cancelled (ch_request (snd s)) \<and> os_outcome (fst s) \<noteq> None"
  using open_stream_settles [of "Ev_reset RemoteReset" RemoteReset "[Ev_data [''x''] False]" 0 "()" "''api''" False
      "new_channel 4" "[]"]
  by (simp add: Let_def opened_def)

text \<open>
  A delivery that does not fit fails the stream instead of growing memory:
  the bytes already queued stay readable, an overflow error follows them, the
  body the fiber is still sending is cancelled and a reset is asked for.  A
  delivery that fits, or that finds the queue empty, is queued whole.
\<close>

theorem data_arrived_bounded:
  assumes "\<not> response_ended os" and "\<not> ended (ch_response ch)" and "\<not> cancelled (ch_response ch)"
    and "concatenate data \<noteq> []"
  shows "let (overflowed, os', ch') = data_arrived data False (os, ch); r = ch_response ch in
    overflowed = (buffered_bytes r > 0 \<and> buffered_bytes r + length (concatenate data) > max_buffered_bytes r) \<and>
    (if overflowed
     then body_of (items (ch_response ch')) = body_of (items r) \<and> is_terminal (last (items (ch_response ch'))) \<and>
       buffered_bytes (ch_response ch') = buffered_bytes r \<and>
       os_outcome os' = Some (unwrap_or (os_outcome os) Overflow) \<and>
       cancelled (ch_request ch') \<and> wants_reset ch'
     else items (ch_response ch') = items r @ [Chunk (concatenate data)] \<and> os' = os)"
proof -
  have "length (concatenate data) > 0"
    using assms(4) by simp
  then have room: "length (concatenate data) > max_buffered_bytes r - buffered_bytes r \<longleftrightarrow>
      buffered_bytes r + length (concatenate data) > max_buffered_bytes r" for r
    by arith
  show ?thesis
    using assms
    by (cases "os_outcome os")
      (auto simp: data_arrived_def Let_def push_chunk_if_room_def room fail_stream_def fail_channel_def
        on_response_def on_request_def push_failure_def push_def wants_reset_def cancel_def)
qed

theorem data_arrived_bounded_witness:
  "fst (data_arrived [''def''] False
      (fst (opened 4), (new_channel 4)\<lparr>ch_response := snd (push_chunk ''abc'' (new_stream 4))\<rparr>))"
  using data_arrived_bounded [of "fst (opened 4)"
      "(new_channel 4)\<lparr>ch_response := snd (push_chunk ''abc'' (new_stream 4))\<rparr>" "[''def'']"]
  by (simp add: opened_def new_open_stream_def new_channel_def new_stream_def push_chunk_def push_def
      concatenate_def Let_def split: prod.splits)

lemma call_result_completed:
  "(\<exists>h b. call_result result headers body max_bytes = Inr (h, b)) \<longleftrightarrow>
     result = Callout_Success \<and> total_len (unwrap_or body []) \<le> max_bytes \<and>
     head_of (unwrap_or headers []) \<noteq> None"
  by (cases result; cases "head_of (unwrap_or headers [])") (auto simp: call_result_def answer_def Let_def)

lemma call_result_error: "call_result result headers body n = Inl e \<Longrightarrow> failed e \<noteq> Completed"
  by (cases e) simp_all

text \<open>
  A finished call reaches its fiber whole or as one error.  Into a queue
  that is still open go either the head, the body if there is one, and the end,
  or exactly one failure; and the call counts as completed just when Envoy
  reports success, the body is within the limit and the head has a status.
\<close>

theorem deliver_whole_or_failed:
  assumes "\<not> cancelled r" and "\<not> ended r"
  shows "let (outcome, r') = deliver r result headers body max_bytes in
    (\<exists>h b. items r' = items r @ Head h # (if b = [] then [] else [Chunk b]) @ [End] \<and>
       b = concatenate (unwrap_or body []) \<and> outcome = Completed) \<noteq>
    (\<exists>e. items r' = items r @ [Failed e] \<and> outcome = failed e) \<and>
    ended r' \<and>
    (outcome = Completed \<longleftrightarrow> result = Callout_Success \<and> total_len (unwrap_or body []) \<le> max_bytes \<and>
       head_of (unwrap_or headers []) \<noteq> None)"
proof (cases "call_result result headers body max_bytes")
  case (Inl e)
  then have "failed e \<noteq> Completed"
    by (rule call_result_error)
  moreover have "\<not> (\<exists>h b. call_result result headers body max_bytes = Inr (h, b))"
    using Inl by simp
  ultimately show ?thesis
    using assms Inl call_result_completed [of result headers body max_bytes]
    by (auto simp: deliver_def push_failure_def push_def)
next
  case (Inr hb)
  obtain h b where hb: "hb = (h, b)" by (cases hb)
  have "b = concatenate (unwrap_or body [])"
    using Inr hb by (auto simp: call_result_def answer_def Let_def and_then_Inr_iff
        split: callout_result.splits if_splits)
  moreover have "\<exists>h b. call_result result headers body max_bytes = Inr (h, b)"
    using Inr hb by simp
  ultimately show ?thesis
    using assms Inr hb call_result_completed [of result headers body max_bytes]
    by (auto simp: deliver_def push_head_def push_chunk_def push_end_def push_def Let_def)
qed

theorem deliver_whole_or_failed_witness:
  "fst (deliver (new_stream 8) Callout_Success (Some [('':status'', ''200'')]) (Some [''ok'']) 1) \<noteq> Completed"
  using deliver_whole_or_failed [of "new_stream 8" Callout_Success "Some [('':status'', ''200'')]" "Some [''ok'']" 1]
  by (simp add: new_stream_def split: prod.splits)

lemma starts_with_colon_not_status: "\<not> starts_with n '':'' \<Longrightarrow> n \<noteq> '':status''"
  by (auto simp: starts_with_def)

lemma head_field_keeps:
  assumes "\<forall>(n, v) \<in> set fs. valid_utf8 n \<and> valid_utf8 v \<and> \<not> starts_with n '':''"
  shows "foldl head_field (st, kept) fs = (st, kept @ fs)"
  using assms
proof (induction fs arbitrary: kept)
  case (Cons f fs)
  obtain n v where f: "f = (n, v)" by (cases f)
  have "head_field (st, kept) f = (st, kept @ [f])"
    using Cons.prems starts_with_colon_not_status [of n]
    by (simp add: f head_field_def Let_def from_utf8_lossy_valid)
  then show ?case
    using Cons by simp
qed simp

lemma head_field_status: "head_field (st, kept) ('':status'', show_nat (unat status)) = (Some status, kept)"
proof -
  have "from_utf8_lossy (show_nat (unat status)) = show_nat (unat status)"
    by (rule from_utf8_lossy_ascii) (use show_nat_bytes in fastforce)
  moreover have "from_utf8_lossy '':status'' = '':status''"
    by code_simp
  ultimately show ?thesis
    by (simp add: head_field_def Let_def)
qed

text \<open>
  The response head a fiber reads is the head the upstream sent: well
  formed fields come through unchanged and in order, with the status the
  upstream gave, wherever the status stands among them.
\<close>

theorem head_of_round_trip:
  assumes "\<forall>(n, v) \<in> set before. valid_utf8 n \<and> valid_utf8 v \<and> \<not> starts_with n '':''"
    and "\<forall>(n, v) \<in> set after. valid_utf8 n \<and> valid_utf8 v \<and> \<not> starts_with n '':''"
  shows "head_of (before @ ('':status'', show_nat (unat status)) # after) =
    Some \<lparr> head_status = status, head_headers = before @ after, head_thread = 0 \<rparr>"
  by (simp add: head_of_def head_field_keeps [OF assms(1)] head_field_status head_field_keeps [OF assms(2)])

theorem head_of_round_trip_witness:
  "head_of [(''server'', ''envoy''), ('':status'', ''204''), (''x-a'', ''b'')] =
    Some \<lparr> head_status = 204, head_headers = [(''server'', ''envoy''), (''x-a'', ''b'')], head_thread = 0 \<rparr>"
proof -
  have texts: "valid_utf8 ''server''" "valid_utf8 ''envoy''" "valid_utf8 ''x-a''" "valid_utf8 ''b''"
      "\<not> starts_with ''server'' '':''" "\<not> starts_with ''x-a'' '':''"
      "show_nat (unat (204 :: u16)) = ''204''"
    by code_simp+
  show ?thesis
    using head_of_round_trip [of "[(''server'', ''envoy'')]" "[(''x-a'', ''b'')]" 204] texts by simp
qed

text \<open>
  A call goes out with the application's own headers in their order, and
  the request's trace context completes them without overriding any: for every
  header name, the values sent are the application's if it set that name, and
  the trace context's otherwise.
\<close>

theorem with_trace_application_wins:
  "filter (\<lambda>(k, _). k = n) (with_trace headers trace) =
     (if list_ex (\<lambda>(k, _). k = n) headers then filter (\<lambda>(k, _). k = n) headers
      else filter (\<lambda>(k, _). k = n) trace)"
proof -
  let ?new = "\<lambda>(k, _). \<not> list_ex (\<lambda>(own, _). own = k) headers"
  have "filter (\<lambda>(k, _). k = n) (filter ?new tr) =
      (if list_ex (\<lambda>(k, _). k = n) headers then [] else filter (\<lambda>(k, _). k = n) tr)" for tr
    by (induction tr) auto
  moreover have "filter (\<lambda>(k, _). k = n) headers = []" if "\<not> list_ex (\<lambda>(k, _). k = n) headers"
    using that by (induction headers) auto
  ultimately show ?thesis
    by (auto simp: with_trace_def)
qed

text \<open>
  Deadlines keep their meaning at the width Envoy takes them: a call always
  has one (at least a millisecond, since Envoy reads zero as none), a stream has
  one just when it was given one, and both saturate instead of wrapping.
\<close>

theorem deadlines_saturate:
  "unat (callout_timeout t) = max (min (as_millis t) (2 ^ 64 - 1)) 1 \<and>
   (stream_timeout t = 0 \<longleftrightarrow> t = 0) \<and>
   unat (stream_timeout t) = (if t = 0 then 0 else max (min (as_millis t) (2 ^ 64 - 1)) 1)"
proof -
  have "unat (max (millis_saturated t) 1) \<noteq> 0"
    unfolding unat_max_one by simp
  then have "max (millis_saturated t) 1 \<noteq> 0"
    by (metis unat_0)
  then show ?thesis
    unfolding callout_timeout_def stream_timeout_def by (simp add: unat_max_one unat_millis_saturated)
qed

end
