(* ===== verification/Envoy_Context.thy ===== *)
theory Envoy_Context
  imports Envoy_Host
begin

text \<open>
  Reading an authority (host and port) and an attribute, as
  src/crates/ruvoy-envoy-fiber/src/worker.rs does, and the copy of what Envoy
  knows about a request, src/crates/ruvoy-envoy-fiber/src/context.rs.
\<close>

section \<open>Attributes and authorities\<close>

definition attribute_string :: "'e ehf \<Rightarrow> 'e \<Rightarrow> attribute_id \<Rightarrow> string option" where
  "attribute_string ehf e a =
     opt_filter (\<lambda>v. v \<noteq> []) (map_option from_utf8_lossy (get_attribute_string ehf e a))"

definition non_empty :: "string \<Rightarrow> string option" where
  "non_empty s = (if s \<noteq> [] then Some s else None)"

definition authority_host :: "string \<Rightarrow> string option" where
  "authority_host authority =
     (case strip_prefix (CHR ''['') authority of
        Some rest \<Rightarrow> map_option (\<lambda>closing. take (closing + 2) authority) (find_byte (CHR '']'') rest)
      | None \<Rightarrow>
          (case rsplit_once (CHR '':'') authority of
             Some (host, port) \<Rightarrow>
               if CHR '':'' \<notin> set host \<and> parse_u16 port \<noteq> None then non_empty host else non_empty authority
           | None \<Rightarrow> non_empty authority))"

definition authority_port :: "string \<Rightarrow> u16 option" where
  "authority_port authority =
     (case strip_prefix (CHR ''['') authority of
        Some rest \<Rightarrow>
          Option.bind (find_byte (CHR '']'') rest) (\<lambda>closing.
          Option.bind (strip_prefix (CHR '':'') (drop (closing + 1) rest)) parse_u16)
      | None \<Rightarrow>
          Option.bind (rsplit_once (CHR '':'') authority) (\<lambda>(host, port).
            if CHR '':'' \<notin> set host then parse_u16 port else None))"

definition default_port :: "string \<Rightarrow> u16 option" where
  "default_port scheme =
     (if scheme = ''http'' \<or> scheme = ''ws'' then Some 80
      else if scheme = ''https'' \<or> scheme = ''wss'' then Some 443
      else None)"

text \<open>\<open>u16::try_from\<close> and \<open>u64::try_from\<close> of the signed integer Envoy reports.\<close>

definition try_u16 :: "int \<Rightarrow> u16 option" where
  "try_u16 i = (if 0 \<le> i \<and> i < 2 ^ 16 then Some (word_of_int i) else None)"

definition try_u64 :: "int \<Rightarrow> u64 option" where
  "try_u64 i = (if 0 \<le> i \<and> i < 2 ^ 64 then Some (word_of_int i) else None)"

section \<open>The context of a request\<close>

definition copy_connection :: "'e ehf \<Rightarrow> 'e \<Rightarrow> connection_info" where
  "copy_connection ehf e =
     (let address = (\<lambda>a. Option.bind (attribute_string ehf e a) authority_host);
          port = (\<lambda>a. Option.bind (get_attribute_int ehf e a) try_u16)
      in \<lparr> conn_id = Option.bind (get_attribute_int ehf e ConnectionId) try_u64,
           source_address = address SourceAddress,
           source_port = port SourcePort,
           destination_address = address DestinationAddress,
           destination_port = port DestinationPort \<rparr>)"

definition copy_tls :: "'e ehf \<Rightarrow> 'e \<Rightarrow> tls_info option" where
  "copy_tls ehf e =
     map_option
       (\<lambda>version.
          let presented = unwrap_or (get_attribute_bool ehf e ConnectionMtls) False in
          \<lparr> tls_version = version,
            tls_server_name = attribute_string ehf e ConnectionRequestedServerName,
            tls_peer_certificate =
              (if presented then
                 Some \<lparr> cert_subject = attribute_string ehf e ConnectionSubjectPeerCertificate,
                        uri_san = attribute_string ehf e ConnectionUriSanPeerCertificate,
                        dns_san = attribute_string ehf e ConnectionDnsSanPeerCertificate,
                        sha256 = attribute_string ehf e ConnectionSha256PeerCertificateDigest \<rparr>
               else None) \<rparr>)
       (attribute_string ehf e ConnectionTlsVersion)"

definition metadata_element :: "'e ehf \<Rightarrow> 'e \<Rightarrow> metadata_source \<Rightarrow> string \<Rightarrow> string \<Rightarrow> nat \<Rightarrow> metadata_value option" where
  "metadata_element ehf e src ns key i =
     or_else (map_option (\<lambda>t. MString (from_utf8_lossy t)) (get_metadata_list_string ehf e src ns key i))
     (or_else (map_option MNumber (get_metadata_list_number ehf e src ns key i))
       (map_option MBool (get_metadata_list_bool ehf e src ns key i)))"

definition metadata_value_of :: "'e ehf \<Rightarrow> 'e \<Rightarrow> metadata_source \<Rightarrow> string \<Rightarrow> string \<Rightarrow> metadata_value option" where
  "metadata_value_of ehf e src ns key =
     (case get_metadata_string ehf e src ns key of
        Some text \<Rightarrow> Some (MString (from_utf8_lossy text))
      | None \<Rightarrow>
     (case get_metadata_number ehf e src ns key of
        Some number \<Rightarrow> Some (MNumber number)
      | None \<Rightarrow>
     (case get_metadata_bool ehf e src ns key of
        Some flag \<Rightarrow> Some (MBool flag)
      | None \<Rightarrow>
          map_option (\<lambda>size. MList (List.map_filter (metadata_element ehf e src ns key) [0..<size]))
            (get_metadata_list_size ehf e src ns key))))"

definition copy_metadata :: "'e ehf \<Rightarrow> 'e \<Rightarrow> metadata_source \<Rightarrow> string list \<Rightarrow> metadata_namespace list" where
  "copy_metadata ehf e src namespaces =
     List.map_filter
       (\<lambda>name. map_option
          (\<lambda>keys. \<lparr> ns_name = name,
             ns_fields = List.map_filter
               (\<lambda>k. let key = from_utf8_lossy k in
                  map_option (\<lambda>v. (key, v)) (metadata_value_of ehf e src name key)) keys \<rparr>)
          (get_metadata_keys ehf e src name))
       namespaces"

definition copy_context :: "'e ehf \<Rightarrow> 'e \<Rightarrow> string list \<Rightarrow> envoy_context" where
  "copy_context ehf e namespaces =
     \<lparr> route_name = attribute_string ehf e XdsRouteName,
       ctx_connection = copy_connection ehf e,
       ctx_tls = copy_tls ehf e,
       dynamic_metadata = copy_metadata ehf e Dynamic namespaces,
       route_metadata = copy_metadata ehf e Route namespaces \<rparr>"

section \<open>Facts\<close>

lemma strip_prefix_other: "s = [] \<or> hd s \<noteq> c \<Longrightarrow> strip_prefix c s = None"
  by (cases s) (auto simp: strip_prefix_def)

lemma strip_prefix_Cons [simp]: "strip_prefix c (c # s) = Some s"
  by (simp add: strip_prefix_def)

lemma show_nat_no_colon: "CHR '':'' \<notin> set (show_nat n)"
  by (rule show_nat_no_sep) simp

lemma attribute_string_valid: "attribute_string ehf e a = Some s \<Longrightarrow> valid_utf8 s \<and> s \<noteq> []"
  by (auto simp: attribute_string_def opt_filter_Some_iff from_utf8_lossy_is_valid)

lemma authority_host_prefix: "authority_host a = Some h \<Longrightarrow> prefix h a \<and> h \<noteq> []"
proof -
  assume h: "authority_host a = Some h"
  show ?thesis
  proof (cases "strip_prefix (CHR ''['') a")
    case (Some rest)
    then show ?thesis
      using h by (auto simp: authority_host_def take_is_prefix strip_prefix_def split: list.splits if_splits)
  next
    case None
    then show ?thesis
      using h by (auto simp: authority_host_def non_empty_def dest!: rsplit_once_SomeD
          split: option.splits if_splits)
  qed
qed

lemma copy_metadata_names:
  "map ns_name (copy_metadata ehf e src namespaces) =
     filter (\<lambda>n. get_metadata_keys ehf e src n \<noteq> None) namespaces"
  unfolding copy_metadata_def
  by (induction namespaces) (auto simp: List.map_filter_def)

lemma copy_metadata_values:
  assumes "ns \<in> set (copy_metadata ehf e src namespaces)" and "(k, v) \<in> set (ns_fields ns)"
  shows "metadata_value_of ehf e src (ns_name ns) k = Some v"
  using assms by (auto simp: copy_metadata_def map_filter_def Let_def)

lemma authority_plain:
  assumes "host \<noteq> []" and "CHR '':'' \<notin> set host" and "hd host \<noteq> CHR ''[''"
  shows "authority_host (host @ '':'' @ show_nat (unat (port :: u16))) = Some host"
    and "authority_port (host @ '':'' @ show_nat (unat port)) = Some port"
    and "authority_host host = Some host" and "authority_port host = None"
proof -
  have "strip_prefix (CHR ''['') (host @ t) = None" for t
    using assms by (intro strip_prefix_other) (simp add: hd_append)
  note none = this this [of "[]", simplified]
  have split: "rsplit_once (CHR '':'') (host @ '':'' @ show_nat (unat port)) = Some (host, show_nat (unat port))"
    using rsplit_once_append [OF show_nat_no_colon, of host "unat port"] by simp
  have alone: "rsplit_once (CHR '':'') host = None"
    using assms(2) by simp
  show "authority_host host = Some host" "authority_port host = None"
    using assms(1) none(2) by (simp_all add: authority_host_def authority_port_def non_empty_def alone)
  show "authority_host (host @ '':'' @ show_nat (unat port)) = Some host"
      "authority_port (host @ '':'' @ show_nat (unat port)) = Some port"
    using assms none(1) split unfolding authority_host_def authority_port_def by (simp_all add: non_empty_def)
qed

lemma authority_bracketed:
  assumes "CHR '']'' \<notin> set v6"
  shows "authority_host (''['' @ v6 @ '']'' @ t) = Some (''['' @ v6 @ '']'')"
    and "authority_port (''['' @ v6 @ '']:'' @ show_nat (unat (port :: u16))) = Some port"
    and "authority_port (''['' @ v6 @ '']'') = None"
proof -
  have find: "find_byte (CHR '']'') (v6 @ CHR '']'' # t) = Some (length v6)" for t
    using assms by (rule find_byte_append)
  show "authority_host (''['' @ v6 @ '']'' @ t) = Some (''['' @ v6 @ '']'')"
    using find by (simp add: authority_host_def)
  show "authority_port (''['' @ v6 @ '']:'' @ show_nat (unat port)) = Some port"
      "authority_port (''['' @ v6 @ '']'') = None"
    using find by (simp_all add: authority_port_def strip_prefix_def)
qed

lemma authority_many_colons:
  assumes "hd a \<noteq> CHR ''[''" and "a = x @ CHR '':'' # y @ CHR '':'' # z"
  shows "authority_host a = Some a" and "authority_port a = None"
proof -
  have none: "strip_prefix (CHR ''['') a = None"
    using assms(1) by (intro strip_prefix_other) simp
  obtain h p where hp: "rsplit_once (CHR '':'') a = Some (h, p)"
    using assms(2) by (cases "rsplit_once (CHR '':'') a") auto
  from rsplit_once_SomeD [OF hp] have "h @ CHR '':'' # p = (x @ CHR '':'' # y) @ CHR '':'' # z" "CHR '':'' \<notin> set p"
    using assms(2) by auto
  then have "CHR '':'' \<in> set h"
    by (auto simp: append_eq_append_conv2 Cons_eq_append_conv append_eq_Cons_conv)
  then show "authority_host a = Some a" "authority_port a = None"
    using none hp assms(2) by (auto simp: authority_host_def authority_port_def non_empty_def)
qed

section \<open>Properties\<close>

text \<open>
  An authority is taken apart the way it was put together: a host without a
  colon and its port, a host alone, a bracketed IPv6 host with and without a
  port, and an IPv6 address without brackets, whose last group is not a port.
\<close>

theorem authority_round_trip:
  assumes "host \<noteq> []" and "CHR '':'' \<notin> set host" and "hd host \<noteq> CHR ''[''" and "CHR '']'' \<notin> set v6"
    and "hd bare \<noteq> CHR ''[''" and "bare = x @ CHR '':'' # y @ CHR '':'' # z"
  shows "authority_host (host @ '':'' @ show_nat (unat port)) = Some host \<and>
    authority_port (host @ '':'' @ show_nat (unat port)) = Some port \<and>
    authority_host host = Some host \<and> authority_port host = None \<and>
    authority_host (''['' @ v6 @ '']:'' @ show_nat (unat port)) = Some (''['' @ v6 @ '']'') \<and>
    authority_port (''['' @ v6 @ '']:'' @ show_nat (unat port)) = Some port \<and>
    authority_host (''['' @ v6 @ '']'') = Some (''['' @ v6 @ '']'') \<and>
    authority_port (''['' @ v6 @ '']'') = None \<and>
    authority_host bare = Some bare \<and> authority_port bare = None"
  using authority_plain(1,2) [OF assms(1-3), of port] authority_plain(3,4) [OF assms(1-3)] authority_many_colons [OF assms(5,6)]
    authority_bracketed(2) [OF assms(4), of port] authority_bracketed(3) [OF assms(4)] authority_bracketed(1) [OF assms(4), of "[]"]
    authority_bracketed(1) [OF assms(4), of "'':'' @ show_nat (unat port)"]
  by (simp add: append.assoc)

theorem authority_round_trip_witness:
  "authority_host ''example.com:80'' = Some ''example.com'' \<and> authority_host ''fe80::1'' = Some ''fe80::1''"
proof -
  have port: "show_nat (unat (80 :: u16)) = ''80''"
    by code_simp
  have "''fe80::1'' = ''fe80'' @ CHR '':'' # [] @ CHR '':'' # ''1''"
    by simp
  note parts = authority_round_trip [of "''example.com''" "''::1''" "''fe80::1''", OF _ _ _ _ _ this, of 80,
      unfolded port]
  show ?thesis
    using parts by simp
qed


end
