(* ===== verification/Rack_Worker.thy ===== *)
theory Rack_Worker
  imports Upstream_Calls Fiber_Client Envoy_Context
begin

text \<open>
  The Envoy filter of one request, src/crates/ruvoy-envoy-fiber/src/worker.rs:
  its state, what it copies out of Envoy, how it submits the request, forwards
  the body, sends the response, and carries the application's upstream calls.

  Objects behind an \<open>Arc\<close> live in a \<open>world\<close> the worker shares with the runtime:
  plain queues by number, channels by number, the route of waiting calls, the
  state of the runtime client, and Envoy.  A waker is the event it schedules.
  A callback of Envoy is one function on filter and world; what Envoy calls back
  from inside a call is handled where it happens.  The operations of the runtime
  thread come between callbacks.
\<close>

section \<open>Constants and state\<close>

definition RESPONSE_EVENT_ID :: u64 where
  "RESPONSE_EVENT_ID = 1"

definition REQUEST_EVENT_ID :: u64 where
  "REQUEST_EVENT_ID = 2"

definition UPSTREAM_EVENT_ID :: u64 where
  "UPSTREAM_EVENT_ID = 3"

definition MAX_BUFFERED_BODY_BYTES :: nat where
  "MAX_BUFFERED_BODY_BYTES = 1024 * 1024"

datatype body_source = Received | Retained

datatype filter_state = Collecting | Waiting | Streaming | Responded

text \<open>A queue of the world, by number, or one of the two queues of a channel.\<close>

datatype stream_ref = Plain nat | Chan_response nat | Chan_request nat

record scheduled_handle =
  sh_stream :: stream_ref
  sh_event :: u64

record upstreams_handle =
  uh_settings :: upstream_settings
  uh_event :: u64

type_synonym rack_request = "(scheduled_handle, upstreams_handle) request"

type_synonym client_runtime = "(rack_request, scheduled_handle, stream_ref) runtime"

record 'e world =
  w_host :: "'e host"
  w_streams :: "nat \<Rightarrow> response_stream"
  w_fresh :: nat
  w_channels :: "nat \<Rightarrow> stream_channel"
  w_route :: "(nat, nat) calls"
  w_client :: client_runtime

record rack_filter =
  diagnostics_enabled :: bool
  runtime_thread_id :: string
  worker_thread_id :: string
  f_request :: "rack_request option"
  f_request_body :: "scheduled_handle option"
  request_end_pending :: bool
  f_diagnostics :: "request_diagnostics option"
  f_stream :: "stream_ref option"
  f_state :: filter_state
  f_metrics :: "metrics option"
  f_submitted_at :: "instant option"
  f_context :: "string list option"
  f_upstream_settings :: "upstream_settings option"
  f_upstreams :: "upstreams_handle option"
  f_upstream_calls :: "nat in_flight"
  f_upstream_streams :: "nat open_streams"
  f_trace :: "(string \<times> bytes) list option"

type_synonym 'e fw = "rack_filter \<times> 'e world"

definition new_http_filter ::
    "bool \<Rightarrow> string \<Rightarrow> string \<Rightarrow> metrics option \<Rightarrow> string list option \<Rightarrow> upstream_settings option \<Rightarrow> rack_filter" where
  "new_http_filter diag runtime_thread worker_thread metric ctx settings =
     \<lparr> diagnostics_enabled = diag, runtime_thread_id = runtime_thread, worker_thread_id = worker_thread,
       f_request = None, f_request_body = None, request_end_pending = False, f_diagnostics = None,
       f_stream = None, f_state = Collecting, f_metrics = metric, f_submitted_at = None,
       f_context = ctx, f_upstream_settings = settings, f_upstreams = None, f_upstream_calls = [],
       f_upstream_streams = [], f_trace = None \<rparr>"

section \<open>The world\<close>

primrec get_stream :: "stream_ref \<Rightarrow> 'e world \<Rightarrow> response_stream" where
  "get_stream (Plain n) w = w_streams w n"
| "get_stream (Chan_response c) w = ch_response (w_channels w c)"
| "get_stream (Chan_request c) w = ch_request (w_channels w c)"

primrec put_stream :: "stream_ref \<Rightarrow> response_stream \<Rightarrow> 'e world \<Rightarrow> 'e world" where
  "put_stream (Plain n) s w = w\<lparr>w_streams := (w_streams w)(n := s)\<rparr>"
| "put_stream (Chan_response c) s w = w\<lparr>w_channels := (w_channels w)(c := (w_channels w c)\<lparr>ch_response := s\<rparr>)\<rparr>"
| "put_stream (Chan_request c) s w = w\<lparr>w_channels := (w_channels w)(c := (w_channels w c)\<lparr>ch_request := s\<rparr>)\<rparr>"

definition put_channel :: "nat \<Rightarrow> stream_channel \<Rightarrow> 'e world \<Rightarrow> 'e world" where
  "put_channel c ch w = w\<lparr>w_channels := (w_channels w)(c := ch)\<rparr>"

definition call_envoy :: "'e ehf \<Rightarrow> envoy_call \<Rightarrow> 'e world \<Rightarrow> 'e world" where
  "call_envoy ehf c w = w\<lparr>w_host := perform ehf c (w_host w)\<rparr>"

definition envoy :: "'e world \<Rightarrow> 'e" where
  "envoy w = env (w_host w)"

definition client_wake :: "stream_ref \<Rightarrow> 'e world \<Rightarrow> 'e world" where
  "client_wake r w = w\<lparr>w_client := wake_body r (w_client w)\<rparr>"

text \<open>Allocation of a fresh queue, as \<open>Arc::new(ResponseStream::new(...))\<close> does.\<close>

definition alloc_stream :: "nat \<Rightarrow> 'e world \<Rightarrow> stream_ref \<times> 'e world" where
  "alloc_stream max_bytes w =
     (Plain (w_fresh w), w\<lparr>w_streams := (w_streams w)(w_fresh w := new_stream max_bytes), w_fresh := w_fresh w + 1\<rparr>)"

section \<open>Reading the request\<close>

definition request_metadata_of :: "'e ehf \<Rightarrow> 'e \<Rightarrow> (string, request_metadata) result" where
  "request_metadata_of ehf e =
     and_then (ok_or (attribute_string ehf e RequestScheme) ''missing request scheme'') (\<lambda>scheme.
     and_then (ok_or (or_else (attribute_string ehf e RequestHost)
                 (map_option from_utf8_lossy (get_request_header_value ehf e '':authority'')))
               ''missing request authority'') (\<lambda>authority.
     and_then (ok_or (attribute_string ehf e RequestProtocol) ''missing request protocol'') (\<lambda>protocol.
     and_then (ok_or (or_else (authority_host authority)
                 (Option.bind (attribute_string ehf e DestinationAddress) authority_host))
               ''invalid request authority'') (\<lambda>server_name.
     and_then (ok_or (or_else (Option.bind (get_attribute_int ehf e DestinationPort) try_u16)
                 (or_else (authority_port authority) (default_port scheme)))
               ''missing destination port'') (\<lambda>server_port.
     Inr \<lparr> md_authority = authority, md_scheme = scheme, md_server_name = server_name,
           md_server_port = server_port, md_protocol = protocol,
           md_remote_addr = Option.bind (attribute_string ehf e SourceAddress) authority_host \<rparr>)))))"

definition copy_headers :: "'e ehf \<Rightarrow> instant \<Rightarrow> rack_filter \<Rightarrow> 'e \<Rightarrow> (string, rack_request) result" where
  "copy_headers ehf received f e =
     (let headers = map (\<lambda>(n, v). (from_utf8_lossy n, v)) (get_request_headers ehf e) in
      and_then (ok_or (map_option from_utf8_lossy (get_request_header_value ehf e '':method''))
                 ''missing :method'') (\<lambda>method.
      and_then (ok_or (map_option from_utf8_lossy (get_request_header_value ehf e '':path''))
                 ''missing :path'') (\<lambda>path.
      and_then (request_metadata_of ehf e) (\<lambda>md.
      let timing = diagnostics_enabled f \<and> get_request_header_value ehf e ''x-ruvoy-stage-timing'' = Some ''1'' in
      Inr \<lparr> req_method = method, req_path = path, req_body = [], body_stream = None,
            req_headers = headers, req_metadata = md,
            req_context = map_option (copy_context ehf e) (f_context f),
            req_upstreams = None, force_gc = False,
            diagnostics = (if timing then Some (new_diagnostics received) else None) \<rparr>))))"

section \<open>Forwarding the request body\<close>

text \<open>
  The loop over the slices of one of Envoy's buffers.  It stops at the limit,
  and at an empty slice.
\<close>

fun copy_slices :: "nat \<Rightarrow> nat \<Rightarrow> envoy_buffer list \<Rightarrow> response_stream \<Rightarrow> nat \<times> response_stream" where
  "copy_slices limit copied [] s = (copied, s)"
| "copy_slices limit copied (piece # rest) s =
     (let n = min (length piece) (limit - copied) in
      if n = 0 then (copied, s)
      else copy_slices limit (copied + n) rest (snd (push_chunk (take n piece) s)))"

definition copy_body :: "'e ehf \<Rightarrow> body_source \<Rightarrow> nat \<Rightarrow> stream_ref \<Rightarrow> 'e world \<Rightarrow> nat \<times> 'e world" where
  "copy_body ehf src limit r w =
     (if limit = 0 then (0, w)
      else
        let buffers = unwrap_or
              (case src of
                 Received \<Rightarrow> get_received_request_body ehf (envoy w)
               | Retained \<Rightarrow> get_buffered_request_body ehf (envoy w)) [];
            (copied, s) = copy_slices limit 0 buffers (get_stream r w);
            w1 = put_stream r s w
        in (copied,
            if copied > 0
            then call_envoy ehf
                   (case src of
                      Received \<Rightarrow> Drain_received_request_body copied
                    | Retained \<Rightarrow> Drain_buffered_request_body copied) w1
            else w1))"

text \<open>
  What both buffers hold is moved as far as the queue has room: first what Envoy
  retained, then the frame in hand, unless both name the same bytes.
\<close>

definition copy_available :: "'e ehf \<Rightarrow> stream_ref \<Rightarrow> 'e world \<Rightarrow> nat \<times> 'e world" where
  "copy_available ehf r w =
     (let e = envoy w;
          received_is_retained = received_buffered_request_body ehf e;
          retained = get_buffered_request_body_size ehf e;
          received = (if received_is_retained then 0 else get_received_request_body_size ehf e);
          room = min (retained + received) (spare_capacity (get_stream r w));
          (copied, w1) = copy_body ehf Retained room r w
      in if copied < room \<and> \<not> received_is_retained
         then let (copied2, w2) = copy_body ehf Received (room - copied) r w1 in (copied + copied2, w2)
         else (copied, w1))"

definition forward_request_body :: "'e ehf \<Rightarrow> 'e fw \<Rightarrow> 'e fw" where
  "forward_request_body ehf fw = (case fw of (f, w) \<Rightarrow>
     case f_request_body f of
       None \<Rightarrow> fw
     | Some handle \<Rightarrow>
         let r = sh_stream handle;
             copy_started_at = instant_now ehf (envoy w);
             (copied, w2) = copy_available ehf r w;
             at_end = (request_end_pending f \<and> get_buffered_request_body_size ehf (envoy w2) = 0 \<and>
                       get_received_request_body_size ehf (envoy w2) = 0);
             w3 = (if at_end then put_stream r (snd (push_end (get_stream r w2))) w2 else w2);
             f1 = (if at_end then f\<lparr>request_end_pending := False\<rparr> else f);
             w4 = (if copied > 0 \<or> at_end then client_wake r w3 else w3)
         in (f1\<lparr>f_diagnostics := map_option
               (\<lambda>d. d\<lparr>body_copy_time := body_copy_time d + (instant_now ehf (envoy w4) - copy_started_at),
                       body_callbacks := body_callbacks d + 1\<rparr>) (f_diagnostics f1)\<rparr>, w4))"

section \<open>Replies and metrics\<close>

definition with_metrics :: "rack_filter \<Rightarrow> (metrics \<Rightarrow> 'e host \<Rightarrow> 'e host) \<Rightarrow> 'e world \<Rightarrow> 'e world" where
  "with_metrics f g w =
     (case f_metrics f of None \<Rightarrow> w | Some m \<Rightarrow> w\<lparr>w_host := g m (w_host w)\<rparr>)"

definition count_call :: "'e ehf \<Rightarrow> rack_filter \<Rightarrow> string \<Rightarrow> call_outcome \<Rightarrow> 'e world \<Rightarrow> 'e world" where
  "count_call ehf f cluster outcome w = with_metrics f (\<lambda>m. upstream_call ehf m cluster outcome) w"

definition report_admission :: "'e ehf \<Rightarrow> rack_filter \<Rightarrow> string option \<Rightarrow> 'e world \<Rightarrow> 'e world" where
  "report_admission ehf f refused w =
     with_metrics f (\<lambda>m. case refused of Some reason \<Rightarrow> rejected ehf m reason | None \<Rightarrow> submitted ehf m) w"

definition report_outcome :: "'e ehf \<Rightarrow> string \<Rightarrow> 'e fw \<Rightarrow> 'e fw" where
  "report_outcome ehf outcome fw = (case fw of (f, w) \<Rightarrow>
     (f\<lparr>f_submitted_at := None\<rparr>,
      (case f_submitted_at f of
         None \<Rightarrow> w
       | Some at \<Rightarrow> with_metrics f (\<lambda>m. responded ehf m outcome (instant_now ehf (envoy w) - at)) w)))"

definition send_bridge_error :: "'e ehf \<Rightarrow> nat \<Rightarrow> bytes \<Rightarrow> string \<Rightarrow> 'e fw \<Rightarrow> 'e fw" where
  "send_bridge_error ehf status body details fw = (case fw of (f, w) \<Rightarrow>
     (f\<lparr>f_request := None, f_request_body := None, request_end_pending := False, f_state := Responded\<rparr>,
      call_envoy ehf
        (Send_response status [(''content-type'', ''text/plain''), (''x-ruvoy-error'', ''true'')]
           (Some body) (Some details)) w))"

definition send_invalid_request :: "'e ehf \<Rightarrow> string \<Rightarrow> 'e fw \<Rightarrow> 'e fw" where
  "send_invalid_request ehf message fw = (case fw of (f, w) \<Rightarrow>
     send_bridge_error ehf 400 message ''ruvoy_fiber_invalid_request''
       (f, with_metrics f (\<lambda>m. rejected ehf m REJECTED_INVALID_REQUEST) w))"

definition response_headers :: "rack_filter \<Rightarrow> response_head \<Rightarrow> (string \<times> bytes) list" where
  "response_headers f head =
     ('':status'', show_nat (unat (head_status head)))
     # filter (\<lambda>(name, _). \<not> starts_with name '':'' \<and> \<not> starts_with name ''rack.'') (head_headers head)
     @ (if diagnostics_enabled f
        then [(''x-ruvoy-runtime-rust-thread-id'', runtime_thread_id f),
              (''x-ruvoy-worker-rust-thread-id'', worker_thread_id f)]
        else [])"

definition send_response_head :: "'e ehf \<Rightarrow> response_head \<Rightarrow> 'e fw \<Rightarrow> 'e fw" where
  "send_response_head ehf head fw = (case fw of (f, w) \<Rightarrow>
     (f\<lparr>f_state := Streaming\<rparr>, call_envoy ehf (Send_response_headers (response_headers f head) False) w))"

section \<open>Submitting\<close>

definition submit_request :: "'e ehf \<Rightarrow> 'e fw \<Rightarrow> 'e fw" where
  "submit_request ehf fw = (case fw of (f, w) \<Rightarrow>
     case f_request f of
       None \<Rightarrow>
         send_bridge_error ehf 500 ''missing owned request'' ''ruvoy_fiber_missing_request''
           (f, with_metrics f (\<lambda>m. rejected ehf m REJECTED_INTERNAL) w)
     | Some request0 \<Rightarrow>
         let request1 = request0\<lparr>diagnostics := map_option
               (\<lambda>d. d\<lparr>submitted_at := Some (instant_now ehf (envoy w))\<rparr>) (diagnostics request0)\<rparr>;
             f1 = f\<lparr>f_request := None, f_diagnostics := diagnostics request1\<rparr>;
             (request_stream, w1) = alloc_stream MAX_BUFFERED_BODY_BYTES w;
             request_handle = \<lparr> sh_stream = request_stream, sh_event = REQUEST_EVENT_ID \<rparr>;
             f2 = f1\<lparr>f_request_body := Some request_handle\<rparr>;
             request2 = request1\<lparr>body_stream := Some request_handle\<rparr>;
             (f3, request3, w2) =
               (case f_upstream_settings f2 of
                  None \<Rightarrow> (f2, request2, w1)
                | Some settings \<Rightarrow>
                    let route = \<lparr> uh_settings = settings, uh_event = UPSTREAM_EVENT_ID \<rparr> in
                    (f2\<lparr>f_upstreams := Some route\<rparr>, request2\<lparr>req_upstreams := Some route\<rparr>,
                     w1\<lparr>w_route := new_calls\<rparr>));
             (stream, w3) = alloc_stream MAX_BUFFERED_BODY_BYTES w2;
             f4 = f3\<lparr>f_stream := Some stream\<rparr>;
             (answer, client) =
               submit request3 \<lparr> sh_stream = stream, sh_event = RESPONSE_EVENT_ID \<rparr> (w_client w3);
             w4 = w3\<lparr>w_client := client\<rparr>
         in case answer of
              Inr _ \<Rightarrow>
                let f5 = f4\<lparr>f_state := Waiting, f_submitted_at := Some (instant_now ehf (envoy w4))\<rparr>
                in (f5, report_admission ehf f5 None w4)
            | Inl error \<Rightarrow>
                let f5 = f4\<lparr>f_stream := None\<rparr> in
                send_bridge_error ehf 503 (display_error error) ''ruvoy_fiber_submit_failed''
                  (f5, report_admission ehf f5 (Some REJECTED_ADMISSION) w4))"

section \<open>Sending the response\<close>

text \<open>One item of the response queue; the flag says that the drain returns there.\<close>

definition drain_item :: "'e ehf \<Rightarrow> stream_item \<Rightarrow> 'e fw \<Rightarrow> bool \<times> 'e fw" where
  "drain_item ehf item fw = (case fw of (f, w) \<Rightarrow>
     case item of
       Head head \<Rightarrow> (False, if f_state f = Waiting then send_response_head ehf head fw else fw)
     | Chunk chunk \<Rightarrow>
         (False, if f_state f \<noteq> Streaming then fw else (f, call_envoy ehf (Send_response_data chunk False) w))
     | End \<Rightarrow>
         (let streaming = (f_state f = Streaming);
              (f1, w1) = report_outcome ehf OUTCOME_COMPLETED (f\<lparr>f_state := Responded, f_stream := None\<rparr>, w)
          in (True, f1, if streaming then call_envoy ehf (Send_response_data [] True) w1 else w1))
     | Failed error \<Rightarrow>
         (let local_reply_possible = (f_state f = Waiting);
              (f1, w1) = report_outcome ehf OUTCOME_FAILED (f\<lparr>f_stream := None\<rparr>, w)
          in (True,
              if local_reply_possible
              then send_bridge_error ehf 500 (display_error error) ''ruvoy_fiber_ruby_error'' (f1, w1)
              else (f1\<lparr>f_state := Responded\<rparr>,
                    call_envoy ehf (Reset_stream LocalReset ''ruvoy_fiber_ruby_error'') w1))))"

lemma put_stream_simps [simp]:
  "get_stream r (put_stream r s w) = s"
  "w_host (put_stream r s w) = w_host w" "w_route (put_stream r s w) = w_route w"
  "w_client (put_stream r s w) = w_client w" "w_fresh (put_stream r s w) = w_fresh w"
  by (cases r; simp)+

lemma get_stream_frame [simp]:
  "get_stream r (w\<lparr>w_host := h\<rparr>) = get_stream r w"
  "get_stream r (w\<lparr>w_client := c\<rparr>) = get_stream r w"
  "get_stream r (call_envoy ehf x w) = get_stream r w"
  "get_stream r (client_wake q w) = get_stream r w"
  "get_stream r (with_metrics f g w) = get_stream r w"
  by (cases r; simp add: call_envoy_def client_wake_def with_metrics_def split: option.splits)+

lemma drain_item_frame [simp]: "get_stream r (snd (snd (drain_item ehf item fw))) = get_stream r (snd fw)"
  by (cases fw; cases item)
    (simp_all add: drain_item_def send_response_head_def report_outcome_def send_bridge_error_def
      Let_def split: option.splits)

lemma drain_step_shrinks:
  assumes "take_next (get_stream r w) = (Some item, s)"
    and "drain_item ehf item (f, put_stream r s w) = (returned, f1, w1)"
  shows "length (items (get_stream r w1)) < length (items (get_stream r w))"
  using take_next_shrinks [OF assms(1)] drain_item_frame [of r ehf item "(f, put_stream r s w)"]
  by (simp add: assms(2))

function drain_loop :: "'e ehf \<Rightarrow> stream_ref \<Rightarrow> 'e fw \<Rightarrow> bool \<times> 'e fw" where
  "drain_loop ehf r fw =
     (case take_next (get_stream r (snd fw)) of
        (None, s) \<Rightarrow> (False, fst fw, put_stream r s (snd fw))
      | (Some item, s) \<Rightarrow>
          (case drain_item ehf item (fst fw, put_stream r s (snd fw)) of
             (returned, fw1) \<Rightarrow> if returned then (True, fw1) else drain_loop ehf r fw1))"
  by pat_completeness auto
termination
  by (relation "measure (\<lambda>(ehf, r, fw). length (items (get_stream r (snd fw))))")
    (auto dest!: sym [of "(_, _)"] intro: drain_step_shrinks)

declare drain_loop.simps [simp del]

definition drain_stream :: "'e ehf \<Rightarrow> 'e fw \<Rightarrow> 'e fw" where
  "drain_stream ehf fw =
     (case f_stream (fst fw) of
        None \<Rightarrow> fw
      | Some r \<Rightarrow>
          let (returned, f1, w1) = drain_loop ehf r fw in
          if returned then (f1, w1)
          else (f1, if writer_owed_wakeup (get_stream r w1) then client_wake r w1 else w1))"

section \<open>Reports about calls and streams\<close>

definition wake_stream :: "nat \<Rightarrow> 'e world \<Rightarrow> 'e world" where
  "wake_stream c w =
     (let w1 = client_wake (Chan_response c) w in
      if writer_owed_wakeup (get_stream (Chan_request c) w1) then client_wake (Chan_request c) w1 else w1)"

definition on_http_callout_done ::
    "'e ehf \<Rightarrow> u64 \<Rightarrow> callout_result \<Rightarrow> envoy_headers option \<Rightarrow> envoy_buffer list option \<Rightarrow> 'e fw \<Rightarrow> 'e fw" where
  "on_http_callout_done ehf callout_id result headers body fw = (case fw of (f, w) \<Rightarrow>
     case map_of (f_upstream_calls f) callout_id of
       None \<Rightarrow> fw
     | Some call \<Rightarrow>
         let f1 = f\<lparr>f_upstream_calls := AList.delete callout_id (f_upstream_calls f)\<rparr>;
             limit = (case f_upstream_settings f1 of None \<Rightarrow> 0 | Some s \<Rightarrow> max_response_bytes s);
             r = Plain (pc_response call);
             (outcome, s) = deliver (get_stream r w) result headers body limit;
             w1 = count_call ehf f1 (pc_cluster call) outcome (put_stream r s w);
             w2 = (if outcome = Completed
                   then with_metrics f1 (\<lambda>m h. upstream_answered ehf m (pc_cluster call)
                          (waited (instant_now ehf (env h)) call) h) w1
                   else w1)
         in (f1, client_wake r w2))"

definition on_http_stream_headers :: "'e ehf \<Rightarrow> u64 \<Rightarrow> envoy_headers \<Rightarrow> bool \<Rightarrow> 'e fw \<Rightarrow> 'e fw" where
  "on_http_stream_headers ehf handle headers end_str fw = (case fw of (f, w) \<Rightarrow>
     case map_of (f_upstream_streams f) handle of
       None \<Rightarrow> fw
     | Some os \<Rightarrow>
         let c = os_channel os;
             (wait, os1, ch1) = headers_arrived (instant_now ehf (envoy w)) headers end_str (os, w_channels w c);
             f1 = f\<lparr>f_upstream_streams := AList.update handle os1 (f_upstream_streams f)\<rparr>;
             w1 = put_channel c ch1 w;
             w2 = (case wait of
                     None \<Rightarrow> w1
                   | Some d \<Rightarrow> with_metrics f1 (\<lambda>m. upstream_answered ehf m (os_cluster os) d) w1)
         in (f1, wake_stream c w2))"

definition on_http_stream_data :: "'e ehf \<Rightarrow> u64 \<Rightarrow> envoy_buffer list \<Rightarrow> bool \<Rightarrow> 'e fw \<Rightarrow> 'e fw" where
  "on_http_stream_data ehf handle data end_str fw = (case fw of (f, w) \<Rightarrow>
     case map_of (f_upstream_streams f) handle of
       None \<Rightarrow> fw
     | Some os \<Rightarrow>
         let c = os_channel os;
             (overflowed, os1, ch1) = data_arrived data end_str (os, w_channels w c);
             f1 = f\<lparr>f_upstream_streams := AList.update handle os1 (f_upstream_streams f)\<rparr>;
             w1 = wake_stream c (put_channel c ch1 w)
         in (f1,
             if overflowed
             then (case f_upstreams f1 of None \<Rightarrow> w1 | Some u \<Rightarrow> call_envoy ehf (Commit (uh_event u)) w1)
             else w1))"

definition on_http_stream_trailers :: "u64 \<Rightarrow> envoy_headers \<Rightarrow> 'e fw \<Rightarrow> 'e fw" where
  "on_http_stream_trailers handle trailers fw = (case fw of (f, w) \<Rightarrow>
     case map_of (f_upstream_streams f) handle of
       None \<Rightarrow> fw
     | Some os \<Rightarrow>
         let c = os_channel os;
             (os1, ch1) = trailers_arrived trailers (os, w_channels w c)
         in (f\<lparr>f_upstream_streams := AList.update handle os1 (f_upstream_streams f)\<rparr>,
             wake_stream c (put_channel c ch1 w)))"

definition on_http_stream_complete :: "'e ehf \<Rightarrow> u64 \<Rightarrow> 'e fw \<Rightarrow> 'e fw" where
  "on_http_stream_complete ehf handle fw = (case fw of (f, w) \<Rightarrow>
     case map_of (f_upstream_streams f) handle of
       None \<Rightarrow> fw
     | Some os \<Rightarrow>
         let c = os_channel os;
             f1 = f\<lparr>f_upstream_streams := AList.delete handle (f_upstream_streams f)\<rparr>;
             (os1, ch1) = completed (os, w_channels w c)
         in (f1, count_call ehf f1 (os_cluster os1) (outcome_of os1) (wake_stream c (put_channel c ch1 w))))"

definition on_http_stream_reset :: "'e ehf \<Rightarrow> u64 \<Rightarrow> stream_reset_reason \<Rightarrow> 'e fw \<Rightarrow> 'e fw" where
  "on_http_stream_reset ehf handle reason fw = (case fw of (f, w) \<Rightarrow>
     case map_of (f_upstream_streams f) handle of
       None \<Rightarrow> fw
     | Some os \<Rightarrow>
         let c = os_channel os;
             f1 = f\<lparr>f_upstream_streams := AList.delete handle (f_upstream_streams f)\<rparr>;
             (os1, ch1) = reset_by_envoy reason (os, w_channels w c)
         in (f1, count_call ehf f1 (os_cluster os1) (outcome_of os1) (wake_stream c (put_channel c ch1 w))))"

primrec on_callback :: "'e ehf \<Rightarrow> callback \<Rightarrow> 'e fw \<Rightarrow> 'e fw" where
  "on_callback ehf (Callout_done i result hs body) fw = on_http_callout_done ehf i result hs body fw"
| "on_callback ehf (Stream_headers h hs e) fw = on_http_stream_headers ehf h hs e fw"
| "on_callback ehf (Stream_data h d e) fw = on_http_stream_data ehf h d e fw"
| "on_callback ehf (Stream_trailers h ts) fw = on_http_stream_trailers h ts fw"
| "on_callback ehf (Stream_complete h) fw = on_http_stream_complete ehf h fw"
| "on_callback ehf (Stream_reset h r) fw = on_http_stream_reset ehf h r fw"

text \<open>Callbacks Envoy makes before the call that provoked them returns.\<close>

definition reenter :: "'e ehf \<Rightarrow> callback list \<Rightarrow> 'e fw \<Rightarrow> 'e fw" where
  "reenter ehf cbs fw = fold (on_callback ehf) cbs fw"

definition call_reentrant :: "'e ehf \<Rightarrow> envoy_call \<Rightarrow> 'e fw \<Rightarrow> 'e fw" where
  "call_reentrant ehf c fw = (case fw of (f, w) \<Rightarrow>
     reenter ehf (reenters ehf c (envoy w)) (f, call_envoy ehf c w))"

section \<open>Sending calls and pumping streams\<close>

lemma os_channel_act [simp]: "os_channel (fst (os_act ev s)) = os_channel (fst s)"
proof (cases ev)
  case Ev_next
  then show ?thesis
    by (cases s) (auto simp: next_action_def Let_def split: prod.splits option.splits stream_item.splits)
next
  case (Ev_data d e)
  then show ?thesis
    by (cases s) (auto simp: data_arrived_def end_stream_def fail_stream_def os_set_outcome_def Let_def
        split: prod.splits option.splits bool.splits)
next
  case (Ev_headers now hs e)
  then show ?thesis
    by (cases s) (auto simp: headers_arrived_def end_stream_def fail_stream_def os_set_outcome_def Let_def
        split: option.splits)
qed (cases s; simp add: trailers_arrived_def completed_def reset_by_envoy_def abandon_def gone_def
    end_stream_def fail_stream_def os_set_outcome_def Let_def)+

text \<open>
  How much a stream can still ask of Envoy: a reset, and one send per queued
  item.  Reports about any stream never raise it, which is why the loop ends
  even though Envoy may call back from inside it.
\<close>

definition pump_measure :: "u64 \<Rightarrow> 'e fw \<Rightarrow> nat" where
  "pump_measure handle fw =
     (case map_of (f_upstream_streams (fst fw)) handle of
        None \<Rightarrow> 0
      | Some os \<Rightarrow>
          (if reset_sent os then 0 else 1) +
          length (items (ch_request (w_channels (snd fw) (os_channel os)))))"

lemma pump_measure_frame [simp]:
  "pump_measure h (f, w\<lparr>w_host := x\<rparr>) = pump_measure h (f, w)"
  "pump_measure h (f, call_envoy ehf c w) = pump_measure h (f, w)"
  "pump_measure h (f, client_wake r w) = pump_measure h (f, w)"
  "pump_measure h (f, wake_stream n w) = pump_measure h (f, w)"
  "pump_measure h (f, with_metrics f' g w) = pump_measure h (f, w)"
  "pump_measure h (f, count_call ehf f' cluster outcome w) = pump_measure h (f, w)"
  "pump_measure h (f, w\<lparr>w_streams := heap\<rparr>) = pump_measure h (f, w)"
  "pump_measure h (f\<lparr>f_upstream_calls := cs\<rparr>, w) = pump_measure h (f, w)"
  by (simp_all add: pump_measure_def call_envoy_def client_wake_def wake_stream_def with_metrics_def
      count_call_def Let_def split: option.splits)

lemma request_items_shrink:
  assumes "\<And>x. ev \<noteq> Ev_fiber x"
  shows "length (items (ch_request (snd (os_act ev s)))) \<le> length (items (ch_request (snd s)))"
proof (cases "ev = Ev_next")
  case True
  then show ?thesis
    using take_next_shrinks [of "ch_request (snd s)"]
    by (cases "take_next (ch_request (snd s))"; cases "fst (take_next (ch_request (snd s)))")
      (auto simp: request_of_next take_next_def split: if_splits list.splits stream_item.splits)
next
  case False
  then show ?thesis
    using request_of_act [of ev s] assms by (auto simp: cancel_def)
qed

lemma pump_measure_update:
  assumes os: "map_of (f_upstream_streams f) k = Some os" and ev: "\<And>x. ev \<noteq> Ev_fiber x"
    and act: "os_act ev (os, w_channels w (os_channel os)) = (os1, ch1)"
  shows "pump_measure h (f\<lparr>f_upstream_streams := AList.update k os1 (f_upstream_streams f)\<rparr>,
      put_channel (os_channel os) ch1 w) \<le> pump_measure h (f, w)"
    and "pump_measure h (f\<lparr>f_upstream_streams := AList.delete k (f_upstream_streams f)\<rparr>,
      put_channel (os_channel os) ch1 w) \<le> pump_measure h (f, w)"
proof -
  let ?s = "(os, w_channels w (os_channel os))"
  have items: "length (items (ch_request ch1)) \<le> length (items (ch_request (w_channels w (os_channel os))))"
    using request_items_shrink [OF ev, of ?s] by (simp add: act)
  have chan: "os_channel os1 = os_channel os"
    using os_channel_act [of ev ?s] by (simp add: act)
  have "reset_sent os \<longrightarrow> reset_sent os1"
    using flags_grow_act [of ?s ev] by (simp add: flags_grow_def act)
  with os items chan show "pump_measure h (f\<lparr>f_upstream_streams := AList.update k os1 (f_upstream_streams f)\<rparr>,
      put_channel (os_channel os) ch1 w) \<le> pump_measure h (f, w)"
    by (auto simp: pump_measure_def put_channel_def update_conv' split: option.splits)
  from os items show "pump_measure h (f\<lparr>f_upstream_streams := AList.delete k (f_upstream_streams f)\<rparr>,
      put_channel (os_channel os) ch1 w) \<le> pump_measure h (f, w)"
    by (auto simp: pump_measure_def put_channel_def delete_conv' split: option.splits)
qed

lemma on_callback_measure: "pump_measure h (on_callback ehf cb fw) \<le> pump_measure h fw"
proof (cases fw)
  case (Pair f w)
  show ?thesis
  proof (cases cb)
    case (Callout_done i result hs body)
    then show ?thesis
      by (simp add: Pair on_http_callout_done_def Let_def split: option.splits prod.splits)
  next
    case (Stream_headers k hs e)
    then show ?thesis
      by (auto simp: Pair on_http_stream_headers_def Let_def split: option.splits prod.splits
          intro!: pump_measure_update(1) [where ev = "Ev_headers (instant_now ehf (envoy w)) hs e"])
  next
    case (Stream_data k d e)
    then show ?thesis
      by (auto simp: Pair on_http_stream_data_def Let_def split: option.splits prod.splits
          intro!: pump_measure_update(1) [where ev = "Ev_data d e"])
  next
    case (Stream_trailers k ts)
    then show ?thesis
      using pump_measure_update(1) [where ev = "Ev_trailers ts"]
      by (auto simp: Pair on_http_stream_trailers_def Let_def split: option.splits prod.splits)
  next
    case (Stream_complete k)
    then show ?thesis
      using pump_measure_update(2) [where ev = "Ev_completed"]
      by (auto simp: Pair on_http_stream_complete_def Let_def split: option.splits prod.splits)
  next
    case (Stream_reset k r)
    then show ?thesis
      using pump_measure_update(2) [where ev = "Ev_reset r"]
      by (auto simp: Pair on_http_stream_reset_def Let_def split: option.splits prod.splits)
  qed
qed

lemma reenter_measure: "pump_measure h (reenter ehf cbs fw) \<le> pump_measure h fw"
  unfolding reenter_def
proof (induction cbs arbitrary: fw)
  case (Cons cb cbs)
  then show ?case
    using on_callback_measure [of h ehf cb fw] le_trans by fastforce
qed simp

lemma call_reentrant_measure: "pump_measure h (call_reentrant ehf c fw) \<le> pump_measure h fw"
  using reenter_measure [of h ehf "reenters ehf c (envoy (snd fw))" "(fst fw, call_envoy ehf c (snd fw))"]
  by (cases fw) (simp add: call_reentrant_def)

text \<open>One turn of the loop over a stream: what it asks for, and the state it leaves.\<close>

definition pump_turn :: "u64 \<Rightarrow> 'e fw \<Rightarrow> envoy_call option \<times> 'e fw" where
  "pump_turn handle fw = (case fw of (f, w) \<Rightarrow>
     case map_of (f_upstream_streams f) handle of
       None \<Rightarrow> (None, fw)
     | Some os \<Rightarrow>
         let c = os_channel os;
             (action, os1, ch1) = next_action (os, w_channels w c);
             fw1 = (f\<lparr>f_upstream_streams := AList.update handle os1 (f_upstream_streams f)\<rparr>, put_channel c ch1 w)
         in (case action of
               None \<Rightarrow> (None, fw1)
             | Some Action_reset \<Rightarrow> (Some (Reset_http_stream handle), fw1)
             | Some (Action_send data fin) \<Rightarrow> (Some (Send_http_stream_data handle data fin), fw1)))"

lemma next_action_shrinks:
  assumes "next_action (os, ch) = (Some a, os1, ch1)"
  shows "(if reset_sent os1 then 0 else 1) + length (items (ch_request ch1)) <
    (if reset_sent os then 0 else Suc 0) + length (items (ch_request ch))"
  using assms
  by (auto simp: next_action_def Let_def dest!: take_next_shrinks
      split: if_splits prod.splits option.splits stream_item.splits)

lemma pump_turn_shrinks:
  assumes "pump_turn h fw = (Some c, fw1)"
  shows "pump_measure h fw1 < pump_measure h fw"
proof (cases fw)
  case (Pair f w)
  obtain os where os: "map_of (f_upstream_streams f) h = Some os"
    using assms by (auto simp: Pair pump_turn_def split: option.splits)
  obtain a os1 ch1 where turn: "next_action (os, w_channels w (os_channel os)) = (a, os1, ch1)"
    by (cases "next_action (os, w_channels w (os_channel os))") auto
  have chan: "os_channel os1 = os_channel os"
    using os_channel_act [of Ev_next "(os, w_channels w (os_channel os))"] by (simp add: turn)
  obtain x where a: "a = Some x"
      and fw1: "fw1 = (f\<lparr>f_upstream_streams := AList.update h os1 (f_upstream_streams f)\<rparr>, put_channel (os_channel os) ch1 w)"
    using assms os turn by (auto simp: Pair pump_turn_def Let_def split: option.splits stream_action.splits)
  show ?thesis
    using next_action_shrinks [OF turn [unfolded a]] os chan
    by (simp add: fw1 Pair pump_measure_def put_channel_def update_conv' split: if_splits)
qed

function pump_handle :: "'e ehf \<Rightarrow> u64 \<Rightarrow> 'e fw \<Rightarrow> 'e fw" where
  "pump_handle ehf handle fw =
     (case pump_turn handle fw of
        (None, fw1) \<Rightarrow> fw1
      | (Some c, fw1) \<Rightarrow> pump_handle ehf handle (call_reentrant ehf c fw1))"
  by pat_completeness auto
termination
  by (relation "measure (\<lambda>(ehf, handle, fw). pump_measure handle fw)")
    (auto dest!: sym [of "(_, _)"] pump_turn_shrinks intro: le_less_trans [OF call_reentrant_measure])

declare pump_handle.simps [simp del]

definition pump_stream :: "'e ehf \<Rightarrow> u64 \<Rightarrow> 'e fw \<Rightarrow> 'e fw" where
  "pump_stream ehf handle fw =
     (let (f, w) = pump_handle ehf handle fw in
      case map_of (f_upstream_streams f) handle of
        None \<Rightarrow> (f, w)
      | Some os \<Rightarrow>
          (f, if writer_owed_wakeup (get_stream (Chan_request (os_channel os)) w)
              then client_wake (Chan_request (os_channel os)) w else w))"

definition pump_streams :: "'e ehf \<Rightarrow> 'e fw \<Rightarrow> 'e fw" where
  "pump_streams ehf fw = fold (pump_stream ehf) (map fst (f_upstream_streams (fst fw))) fw"

definition read_trace :: "'e ehf \<Rightarrow> 'e \<Rightarrow> (string \<times> bytes) list" where
  "read_trace ehf e =
     List.map_filter (\<lambda>name. map_option (\<lambda>v. (name, v)) (get_request_header_value ehf e name)) TRACE_HEADERS"

definition send_call :: "'e ehf \<Rightarrow> (string \<times> bytes) list \<Rightarrow> nat upstream_request \<Rightarrow> 'e fw \<Rightarrow> 'e fw" where
  "send_call ehf trace request fw = (case fw of (f, w) \<Rightarrow>
     let (refused, in_flight, heap, h) = send ehf request trace (f_upstream_calls f) (w_streams w) (w_host w);
         f1 = f\<lparr>f_upstream_calls := in_flight\<rparr>;
         w1 = w\<lparr>w_streams := heap, w_host := h\<rparr>
     in case refused of
          None \<Rightarrow> (f1, w1)
        | Some (r, cluster) \<Rightarrow> (f1, count_call ehf f1 cluster Call_refused (client_wake (Plain r) w1)))"

definition start_stream :: "'e ehf \<Rightarrow> (string \<times> bytes) list \<Rightarrow> nat upstream_stream_request \<Rightarrow> 'e fw \<Rightarrow> 'e fw" where
  "start_stream ehf trace request fw = (case fw of (f, w) \<Rightarrow>
     let c = us_channel request;
         (started, ch, h, back) = start ehf request trace (w_channels w c) (w_host w);
         (f1, w1) = reenter ehf back (f, (put_channel c ch w)\<lparr>w_host := h\<rparr>)
     in case started of
          Started_open handle os \<Rightarrow> (f1\<lparr>f_upstream_streams := AList.update handle os (f_upstream_streams f1)\<rparr>, w1)
        | Started_refused c cluster \<Rightarrow> (f1, count_call ehf f1 cluster Call_refused (wake_stream c w1))
        | Started_skipped cluster \<Rightarrow> (f1, count_call ehf f1 cluster Abandoned w1))"

definition send_upstream_calls :: "'e ehf \<Rightarrow> 'e fw \<Rightarrow> 'e fw" where
  "send_upstream_calls ehf fw = (case fw of (f, w) \<Rightarrow>
     if f_upstreams f = None then fw
     else
       let (cs, route1) = take_queued (w_route w);
           (ss, route2) = take_queued_streams route1;
           w1 = w\<lparr>w_route := route2\<rparr>
       in if cs = [] \<and> ss = [] then pump_streams ehf (f, w1)
          else
            let trace = (case f_trace f of Some t \<Rightarrow> t | None \<Rightarrow> read_trace ehf (envoy w1));
                fw1 = (f\<lparr>f_trace := Some trace\<rparr>, w1)
            in pump_streams ehf (fold (start_stream ehf trace) ss (fold (send_call ehf trace) cs fw1)))"

section \<open>The end of a request\<close>

text \<open>The three groups \<open>abandon_upstreams\<close> goes through, one element at a time.\<close>

definition abandon_call :: "nat \<times> string \<Rightarrow> 'e world \<times> (string \<times> call_outcome) list \<Rightarrow> 'e world \<times> (string \<times> call_outcome) list" where
  "abandon_call rc acc = (case (rc, acc) of ((r, cluster), (w, over)) \<Rightarrow>
     let s = snd (push_failure (Upstream ''the request finished before the call did'') (get_stream (Plain r) w))
     in (client_wake (Plain r) (put_stream (Plain r) s w), over @ [(cluster, Abandoned)]))"

definition abandon_unsent ::
    "nat upstream_stream_request \<Rightarrow> 'e world \<times> (string \<times> call_outcome) list \<Rightarrow> 'e world \<times> (string \<times> call_outcome) list" where
  "abandon_unsent r acc = (case acc of (w, over) \<Rightarrow>
     let c = us_channel r;
         ch = fail_channel (Upstream ''the request finished before the stream did'') (w_channels w c)
     in (wake_stream c (put_channel c ch w), over @ [(us_cluster r, Abandoned)]))"

definition abandon_open ::
    "nat open_stream \<Rightarrow> 'e world \<times> (string \<times> call_outcome) list \<Rightarrow> 'e world \<times> (string \<times> call_outcome) list" where
  "abandon_open os acc = (case acc of (w, over) \<Rightarrow>
     let c = os_channel os;
         (os1, ch) = abandon (os, w_channels w c)
     in (wake_stream c (put_channel c ch w), over @ [(os_cluster os1, outcome_of os1)]))"

definition abandon_each ::
    "(nat \<times> string) list \<Rightarrow> nat upstream_stream_request list \<Rightarrow> nat open_stream list \<Rightarrow> 'e world
       \<Rightarrow> 'e world \<times> (string \<times> call_outcome) list" where
  "abandon_each waiting streams opens w =
     fold abandon_open opens (fold abandon_unsent streams (fold abandon_call waiting (w, [])))"

text \<open>The route is closed if there is one, and whatever it never sent comes back.\<close>

definition take_unsent :: "'e fw \<Rightarrow> (nat, nat) unsent \<times> 'e world" where
  "take_unsent fw = (case fw of (f, w) \<Rightarrow>
     case f_upstreams f of
       None \<Rightarrow> (\<lparr> unsent_calls = [], unsent_streams = [] \<rparr>, w)
     | Some _ \<Rightarrow> let (u, route) = close_calls (w_route w) in (u, w\<lparr>w_route := route\<rparr>))"

definition abandon_upstreams :: "'e fw \<Rightarrow> (string \<times> call_outcome) list \<times> 'e fw" where
  "abandon_upstreams fw = (case fw of (f, w) \<Rightarrow>
     let (u, w1) = take_unsent fw;
         waiting = map (\<lambda>r. (ur_response r, ur_cluster r)) (unsent_calls u) @
                   map (\<lambda>(_, call). (pc_response call, pc_cluster call)) (f_upstream_calls f);
         (w2, over) = abandon_each waiting (unsent_streams u) (map snd (f_upstream_streams f)) w1
     in (over, f\<lparr>f_upstreams := None, f_upstream_calls := [], f_upstream_streams := []\<rparr>, w2))"

definition on_stream_complete :: "'e ehf \<Rightarrow> 'e fw \<Rightarrow> 'e fw" where
  "on_stream_complete ehf fw =
     (let (over, f, w) = abandon_upstreams (report_outcome ehf OUTCOME_CANCELLED fw)
      in (f, fold (\<lambda>(cluster, outcome). count_call ehf f cluster outcome) over w))"

definition drop_filter :: "'e fw \<Rightarrow> 'e fw" where
  "drop_filter fw = (case fw of (f, w) \<Rightarrow>
     let w1 = (case f_stream f of
                 None \<Rightarrow> w
               | Some r \<Rightarrow>
                   let w' = put_stream r (cancel (get_stream r w)) w in
                   if writer_owed_wakeup (get_stream r w') then client_wake r w' else w');
         w2 = (case f_request_body f of
                 None \<Rightarrow> w1
               | Some h \<Rightarrow>
                   client_wake (sh_stream h) (put_stream (sh_stream h) (cancel (get_stream (sh_stream h) w1)) w1))
     in snd (abandon_upstreams (f\<lparr>f_stream := None, f_request_body := None\<rparr>, w2)))"

section \<open>Envoy's callbacks\<close>

definition on_request_headers :: "'e ehf \<Rightarrow> bool \<Rightarrow> 'e fw \<Rightarrow> 'e fw" where
  "on_request_headers ehf end_of_stream fw = (case fw of (f, w) \<Rightarrow>
     case copy_headers ehf (instant_now ehf (envoy w)) f (envoy w) of
       Inl message \<Rightarrow> send_invalid_request ehf message fw
     | Inr request \<Rightarrow>
         let (f1, w1) = submit_request ehf (f\<lparr>f_request := Some request\<rparr>, w);
             f2 = f1\<lparr>request_end_pending := end_of_stream\<rparr>
         in if end_of_stream then forward_request_body ehf (f2, w1) else (f2, w1))"

definition on_request_body :: "'e ehf \<Rightarrow> bool \<Rightarrow> 'e fw \<Rightarrow> 'e fw" where
  "on_request_body ehf end_of_stream fw = (case fw of (f, w) \<Rightarrow>
     forward_request_body ehf (f\<lparr>request_end_pending := request_end_pending f \<or> end_of_stream\<rparr>, w))"

definition on_request_trailers :: "'e ehf \<Rightarrow> 'e fw \<Rightarrow> 'e fw" where
  "on_request_trailers ehf fw = (case fw of (f, w) \<Rightarrow>
     forward_request_body ehf (f\<lparr>request_end_pending := True\<rparr>, w))"

definition on_scheduled :: "'e ehf \<Rightarrow> u64 \<Rightarrow> 'e fw \<Rightarrow> 'e fw" where
  "on_scheduled ehf event_id fw =
     (if event_id = REQUEST_EVENT_ID then forward_request_body ehf fw
      else if event_id = UPSTREAM_EVENT_ID then send_upstream_calls ehf fw
      else if event_id = RESPONSE_EVENT_ID \<and> f_state (fst fw) \<in> {Waiting, Streaming} then drain_stream ehf fw
      else fw)"

definition on_downstream_above_write_buffer_high_watermark :: "'e fw \<Rightarrow> 'e fw" where
  "on_downstream_above_write_buffer_high_watermark fw = (case fw of (f, w) \<Rightarrow>
     case f_stream f of
       None \<Rightarrow> fw
     | Some r \<Rightarrow> (f, put_stream r (set_paused True (get_stream r w)) w))"

definition on_downstream_below_write_buffer_low_watermark :: "'e ehf \<Rightarrow> 'e fw \<Rightarrow> 'e fw" where
  "on_downstream_below_write_buffer_low_watermark ehf fw = (case fw of (f, w) \<Rightarrow>
     case f_stream f of
       None \<Rightarrow> fw
     | Some r \<Rightarrow>
         (f, call_envoy ehf (Commit RESPONSE_EVENT_ID) (put_stream r (set_paused False (get_stream r w)) w)))"

text \<open>Every callback the filter answers, as one event.\<close>

datatype filter_event =
    Fe_request_headers bool
  | Fe_request_body bool
  | Fe_request_trailers
  | Fe_scheduled u64
  | Fe_callback callback
  | Fe_stream_complete
  | Fe_above_watermark
  | Fe_below_watermark

primrec filter_act :: "'e ehf \<Rightarrow> filter_event \<Rightarrow> 'e fw \<Rightarrow> 'e fw" where
  "filter_act ehf (Fe_request_headers e) fw = on_request_headers ehf e fw"
| "filter_act ehf (Fe_request_body e) fw = on_request_body ehf e fw"
| "filter_act ehf Fe_request_trailers fw = on_request_trailers ehf fw"
| "filter_act ehf (Fe_scheduled i) fw = on_scheduled ehf i fw"
| "filter_act ehf (Fe_callback cb) fw = on_callback ehf cb fw"
| "filter_act ehf Fe_stream_complete fw = on_stream_complete ehf fw"
| "filter_act ehf Fe_above_watermark fw = on_downstream_above_write_buffer_high_watermark fw"
| "filter_act ehf Fe_below_watermark fw = on_downstream_below_write_buffer_low_watermark ehf fw"

section \<open>The states in their order\<close>

fun state_rank :: "filter_state \<Rightarrow> nat" where
  "state_rank Collecting = 0"
| "state_rank Waiting = 1"
| "state_rank Streaming = 2"
| "state_rank Responded = 3"

lemma state_rank_inject [simp]: "state_rank a = state_rank b \<longleftrightarrow> a = b"
  by (cases a; cases b) simp_all

instantiation filter_state :: linorder
begin

definition less_eq_filter_state :: "filter_state \<Rightarrow> filter_state \<Rightarrow> bool" where
  "less_eq_filter_state a b \<longleftrightarrow> state_rank a \<le> state_rank b"

definition less_filter_state :: "filter_state \<Rightarrow> filter_state \<Rightarrow> bool" where
  "less_filter_state a b \<longleftrightarrow> state_rank a < state_rank b"

instance
proof
  fix a b c :: filter_state
  show "(a < b) = (a \<le> b \<and> \<not> b \<le> a)"
    by (simp add: less_eq_filter_state_def less_filter_state_def less_le_not_le)
  show "a \<le> a" by (simp add: less_eq_filter_state_def)
  show "a \<le> b \<Longrightarrow> b \<le> c \<Longrightarrow> a \<le> c" by (simp add: less_eq_filter_state_def)
  show "a \<le> b \<Longrightarrow> b \<le> a \<Longrightarrow> a = b"
    by (simp add: less_eq_filter_state_def flip: state_rank_inject)
  show "a \<le> b \<or> b \<le> a" by (auto simp: less_eq_filter_state_def)
qed

end

end
