(* ===== verification/Sample_Envoy.thy ===== *)
theory Sample_Envoy
  imports Rack_Worker
begin

text \<open>
  A concrete Envoy for the witnesses of the worker's theorems.  Its state is the
  two buffers of a request body, as slices; it knows one request, takes bytes
  out of the front of a buffer when asked to drain it, and accepts every call.
\<close>

text \<open>Removing bytes from the front of a list of slices; no slice becomes empty.\<close>

fun drop_bytes :: "nat \<Rightarrow> bytes list \<Rightarrow> bytes list" where
  "drop_bytes n [] = []"
| "drop_bytes n (x # xs) =
     (if n = 0 then x # xs
      else if length x \<le> n then drop_bytes (n - length x) xs
      else drop n x # xs)"

type_synonym sample_state = "bytes list \<times> bytes list"

primrec sample_react :: "envoy_call \<Rightarrow> sample_state \<Rightarrow> sample_state" where
  "sample_react (Drain_buffered_request_body n) e = (drop_bytes n (fst e), snd e)"
| "sample_react (Drain_received_request_body n) e = (fst e, drop_bytes n (snd e))"
| "sample_react (Send_response a b c d) e = e"
| "sample_react (Send_response_headers a b) e = e"
| "sample_react (Send_response_data a b) e = e"
| "sample_react (Reset_stream a b) e = e"
| "sample_react (Send_http_callout a b c d) e = e"
| "sample_react (Start_http_stream a b c d f) e = e"
| "sample_react (Send_http_stream_data a b c) e = e"
| "sample_react (Reset_http_stream a) e = e"
| "sample_react (Commit a) e = e"
| "sample_react (Metric a) e = e"

definition sample_request :: "envoy_headers" where
  "sample_request =
     [('':method'', ''POST''), ('':path'', ''/upload?n=1''), ('':authority'', ''app.test''),
      (''content-type'', ''text/plain'')]"

definition sample_attribute :: "attribute_id \<Rightarrow> bytes option" where
  "sample_attribute a =
     (if a = RequestScheme then Some ''http'' else if a = RequestProtocol then Some ''HTTP/1.1'' else None)"

definition sample_ehf :: "sample_state ehf" where
  "sample_ehf =
     \<lparr> get_request_headers = (\<lambda>e. sample_request),
       get_request_header_value = (\<lambda>e. map_of sample_request),
       get_attribute_string = (\<lambda>e. sample_attribute),
       get_attribute_int = (\<lambda>e a. None),
       get_attribute_bool = (\<lambda>e a. None),
       get_metadata_keys = (\<lambda>e s n. None),
       get_metadata_string = (\<lambda>e s n k. None),
       get_metadata_number = (\<lambda>e s n k. None),
       get_metadata_bool = (\<lambda>e s n k. None),
       get_metadata_list_size = (\<lambda>e s n k. None),
       get_metadata_list_string = (\<lambda>e s n k i. None),
       get_metadata_list_number = (\<lambda>e s n k i. None),
       get_metadata_list_bool = (\<lambda>e s n k i. None),
       received_buffered_request_body = (\<lambda>e. False),
       get_buffered_request_body_size = (\<lambda>e. length (concat (fst e))),
       get_received_request_body_size = (\<lambda>e. length (concat (snd e))),
       get_buffered_request_body = (\<lambda>e. Some (filter (\<lambda>x. x \<noteq> []) (fst e))),
       get_received_request_body = (\<lambda>e. Some (filter (\<lambda>x. x \<noteq> []) (snd e))),
       instant_now = (\<lambda>e. 0),
       init_answer = (\<lambda>c e. (Init_Success, 7)),
       reenters = (\<lambda>c e. []),
       react = sample_react \<rparr>"

definition sample_metrics :: metrics where
  "sample_metrics =
     \<lparr> m_requests = 1, m_rejected = 2, m_responses = 3, m_duration_ms = 4, m_upstream_calls = 5,
       m_upstream_duration_ms = 6 \<rparr>"

definition sample_filter :: rack_filter where
  "sample_filter = new_http_filter False ''ThreadId(1)'' ''ThreadId(2)'' (Some sample_metrics) None None"

definition sample_client :: client_runtime where
  "sample_client =
     \<lparr> commands = [], receiver_alive = True, admission = \<lparr> used = 0, capacity = 4 \<rparr>, owed = [],
       heartbeat = new_heartbeat 0, signal_answer = Inr () \<rparr>"

definition sample_world :: "sample_state \<Rightarrow> sample_state world" where
  "sample_world e =
     \<lparr> w_host = \<lparr> env = e, elog = [] \<rparr>, w_streams = (\<lambda>n. new_stream 1), w_fresh = 0,
       w_channels = (\<lambda>c. \<lparr> ch_response = new_stream 1, ch_request = new_stream 1, reset_wanted = False,
         ch_timed_out = False, ch_trailers = None \<rparr>),
       w_route = new_calls, w_client = sample_client \<rparr>"

lemma sample_ehf_simps:
  "received_buffered_request_body sample_ehf e = False"
  "get_buffered_request_body_size sample_ehf e = length (concat (fst e))"
  "get_received_request_body_size sample_ehf e = length (concat (snd e))"
  "get_buffered_request_body sample_ehf e = Some (filter (\<lambda>x. x \<noteq> []) (fst e))"
  "get_received_request_body sample_ehf e = Some (filter (\<lambda>x. x \<noteq> []) (snd e))"
  "instant_now sample_ehf e = 0" "react sample_ehf = sample_react" "reenters sample_ehf c e = []"
  by (simp_all add: sample_ehf_def)

text \<open>The request the filter copies out of it.\<close>

lemma sample_text:
  "from_utf8_lossy ''POST'' = ''POST''" "from_utf8_lossy ''/upload?n=1'' = ''/upload?n=1''"
  "from_utf8_lossy ''http'' = ''http''" "from_utf8_lossy ''HTTP/1.1'' = ''HTTP/1.1''"
  "from_utf8_lossy ''app.test'' = ''app.test''" "authority_host ''app.test'' = Some ''app.test''"
  "authority_port ''app.test'' = None" "default_port ''http'' = Some 80"
  by code_simp+

lemma sample_metadata:
  "request_metadata_of sample_ehf e = Inr \<lparr> md_authority = ''app.test'', md_scheme = ''http'',
     md_server_name = ''app.test'', md_server_port = 80, md_protocol = ''HTTP/1.1'', md_remote_addr = None \<rparr>"
  by (simp add: request_metadata_of_def attribute_string_def sample_ehf_def sample_attribute_def
      sample_request_def sample_text)

lemma sample_copied:
  "\<exists>request. copy_headers sample_ehf now sample_filter e = Inr request \<and> diagnostics request = None"
  by (simp add: copy_headers_def sample_metadata)
    (simp add: sample_ehf_def sample_request_def sample_text sample_filter_def new_http_filter_def)

end
