(* ===== verification/Request_Body.thy ===== *)
theory Request_Body
  imports Sample_Envoy
begin

text \<open>
  The upload path of worker.rs: that the request body reaches the runtime's
  queue complete, in order, within the queue's budget, and that its end follows
  its last byte.

  Envoy's two body buffers are not part of the repository.  What the code relies
  on is \<open>lawful_body\<close>: the sizes are those of the bytes handed out, no slice is
  empty, draining removes bytes from the front of the named buffer alone, and
  publishing a metric does not touch them.
\<close>

section \<open>Envoy's buffers\<close>

definition retained_bytes :: "'e ehf \<Rightarrow> 'e \<Rightarrow> bytes" where
  "retained_bytes ehf e = concat (unwrap_or (get_buffered_request_body ehf e) [])"

definition received_bytes :: "'e ehf \<Rightarrow> 'e \<Rightarrow> bytes" where
  "received_bytes ehf e = concat (unwrap_or (get_received_request_body ehf e) [])"

text \<open>What Envoy holds for the filter: both buffers, unless they name the same bytes.\<close>

definition pending_body :: "'e ehf \<Rightarrow> 'e \<Rightarrow> bytes" where
  "pending_body ehf e =
     retained_bytes ehf e @ (if received_buffered_request_body ehf e then [] else received_bytes ehf e)"

definition lawful_body :: "'e ehf \<Rightarrow> bool" where
  "lawful_body ehf \<longleftrightarrow> (\<forall>e.
     get_buffered_request_body_size ehf e = length (retained_bytes ehf e) \<and>
     get_received_request_body_size ehf e = length (received_bytes ehf e) \<and>
     [] \<notin> set (unwrap_or (get_buffered_request_body ehf e) []) \<and>
     [] \<notin> set (unwrap_or (get_received_request_body ehf e) []) \<and>
     (received_buffered_request_body ehf e \<longrightarrow> received_bytes ehf e = retained_bytes ehf e) \<and>
     (\<forall>n. let e1 = react ehf (Drain_buffered_request_body n) e in
        retained_bytes ehf e1 = drop n (retained_bytes ehf e) \<and>
        received_buffered_request_body ehf e1 = received_buffered_request_body ehf e \<and>
        (\<not> received_buffered_request_body ehf e \<longrightarrow> received_bytes ehf e1 = received_bytes ehf e)) \<and>
     (\<forall>n. let e1 = react ehf (Drain_received_request_body n) e in
        \<not> received_buffered_request_body ehf e \<longrightarrow>
          received_bytes ehf e1 = drop n (received_bytes ehf e) \<and>
          retained_bytes ehf e1 = retained_bytes ehf e \<and>
          \<not> received_buffered_request_body ehf e1) \<and>
     (\<forall>m. pending_body ehf (react ehf (Metric m) e) = pending_body ehf e))"

lemma drop_bytes_concat: "concat (drop_bytes n xs) = drop n (concat xs)"
  by (induction n xs rule: drop_bytes.induct) auto

lemma concat_filter_nonempty [simp]: "concat (filter (\<lambda>x. x \<noteq> []) xs) = concat xs"
  by (induction xs) auto

lemma lawful_sample: "lawful_body sample_ehf"
  by (simp add: lawful_body_def pending_body_def retained_bytes_def received_bytes_def sample_ehf_simps
      drop_bytes_concat)

section \<open>One buffer\<close>

definition stream_open :: "response_stream \<Rightarrow> bool" where
  "stream_open s \<longleftrightarrow> \<not> cancelled s \<and> \<not> ended s"

text \<open>What may change when bytes are queued: the items and their count.\<close>

definition queued_more :: "bytes \<Rightarrow> response_stream \<Rightarrow> response_stream \<Rightarrow> bool" where
  "queued_more bs s s' \<longleftrightarrow>
     (\<exists>xs. items s' = items s @ map Chunk xs \<and> concat xs = bs) \<and>
     buffered_bytes s' = buffered_bytes s + length bs \<and> cancelled s' = cancelled s \<and> ended s' = ended s \<and>
     paused s' = paused s \<and> waiter s' = waiter s \<and> max_buffered_bytes s' = max_buffered_bytes s"

lemma queued_more_refl [simp]: "queued_more [] s s"
  by (auto simp: queued_more_def intro: exI [of _ "[]"])

lemma queued_more_trans:
  assumes "queued_more a s t" and "queued_more b t u"
  shows "queued_more (a @ b) s u"
proof -
  obtain xs ys where "items t = items s @ map Chunk xs" "concat xs = a" "items u = items t @ map Chunk ys" "concat ys = b"
    using assms by (auto simp: queued_more_def)
  then have "\<exists>zs. items u = items s @ map Chunk zs \<and> concat zs = a @ b"
    by (intro exI [of _ "xs @ ys"]) simp
  then show ?thesis
    using assms by (simp add: queued_more_def)
qed

lemma queued_more_open: "queued_more bs s s' \<Longrightarrow> stream_open s' = stream_open s"
  by (simp add: queued_more_def stream_open_def)

lemma body_of_chunks [simp]: "body_of (map Chunk xs) = concat xs"
  by (induction xs) simp_all

lemma queued_more_body: "queued_more bs s s' \<Longrightarrow> body_of (items s') = body_of (items s) @ bs"
  by (auto simp: queued_more_def)

lemma push_chunk_open: "stream_open s \<Longrightarrow> queued_more c s (snd (push_chunk c s))"
  by (auto simp: queued_more_def stream_open_def push_chunk_def push_def intro: exI [of _ "[c]"])

lemma copy_slices_moves:
  assumes "stream_open s" and "[] \<notin> set slices" and "copied \<le> limit"
    and "copy_slices limit copied slices s = (n, s')"
  shows "queued_more (take (limit - copied) (concat slices)) s s' \<and>
    n = copied + min (length (concat slices)) (limit - copied)"
  using assms
proof (induction limit copied slices s rule: copy_slices.induct)
  case (2 limit copied piece rest s)
  let ?n = "min (length piece) (limit - copied)" and ?s = "snd (push_chunk (take (min (length piece) (limit - copied)) piece) s)"
  show ?case
  proof (cases "?n = 0")
    case True
    then have "limit \<le> copied"
      using 2(3) by (auto simp: min_def split: if_splits)
    then show ?thesis
      using 2(4,5) True by simp
  next
    case False
    have q: "queued_more (take ?n piece) s ?s"
      by (rule push_chunk_open [OF 2(2)])
    have "queued_more (take (limit - (copied + ?n)) (concat rest)) ?s s' \<and>
        n = copied + ?n + min (length (concat rest)) (limit - (copied + ?n))"
      using 2(1) [OF refl False] queued_more_open [OF q] 2(2-5) False by (auto simp: Let_def)
    moreover have "take ?n piece @ take (limit - (copied + ?n)) (concat rest) = take (limit - copied) (concat (piece # rest))"
      by (cases "length piece \<le> limit - copied") (auto simp: min_def)
    ultimately show ?thesis
      using queued_more_trans [OF q] by (auto simp: min_def)
  qed
qed auto

lemma lawful_slices:
  assumes "lawful_body ehf"
  shows "[] \<notin> set (unwrap_or (get_buffered_request_body ehf e) [])"
    and "[] \<notin> set (unwrap_or (get_received_request_body ehf e) [])"
    and "get_buffered_request_body_size ehf e = length (retained_bytes ehf e)"
    and "get_received_request_body_size ehf e = length (received_bytes ehf e)"
    and "received_buffered_request_body ehf e \<Longrightarrow> received_bytes ehf e = retained_bytes ehf e"
  using assms by (auto simp: lawful_body_def)

lemma lawful_drains:
  assumes "lawful_body ehf"
  shows "retained_bytes ehf (react ehf (Drain_buffered_request_body n) e) = drop n (retained_bytes ehf e)"
    and "received_buffered_request_body ehf (react ehf (Drain_buffered_request_body n) e) =
      received_buffered_request_body ehf e"
    and "\<not> received_buffered_request_body ehf e \<Longrightarrow>
      received_bytes ehf (react ehf (Drain_buffered_request_body n) e) = received_bytes ehf e"
    and "\<not> received_buffered_request_body ehf e \<Longrightarrow>
      received_bytes ehf (react ehf (Drain_received_request_body n) e) = drop n (received_bytes ehf e)"
    and "\<not> received_buffered_request_body ehf e \<Longrightarrow>
      retained_bytes ehf (react ehf (Drain_received_request_body n) e) = retained_bytes ehf e"
    and "\<not> received_buffered_request_body ehf e \<Longrightarrow>
      \<not> received_buffered_request_body ehf (react ehf (Drain_received_request_body n) e)"
  using assms by (simp_all add: lawful_body_def Let_def)

text \<open>Which bytes a source names, and what draining it leaves.\<close>

fun source_bytes :: "'e ehf \<Rightarrow> body_source \<Rightarrow> 'e \<Rightarrow> bytes" where
  "source_bytes ehf Retained e = retained_bytes ehf e"
| "source_bytes ehf Received e = received_bytes ehf e"

lemma copy_body_moves:
  assumes lawful: "lawful_body ehf" and op: "stream_open (get_stream r w)"
    and copy: "copy_body ehf src limit r w = (n, w')"
  shows "queued_more (take limit (source_bytes ehf src (envoy w))) (get_stream r w) (get_stream r w')"
    and "n = min limit (length (source_bytes ehf src (envoy w)))"
    and "envoy w' = (if n = 0 then envoy w else react ehf (case src of
        Received \<Rightarrow> Drain_received_request_body n | Retained \<Rightarrow> Drain_buffered_request_body n) (envoy w))"
proof -
  let ?slices = "unwrap_or (case src of Received \<Rightarrow> get_received_request_body ehf (envoy w)
    | Retained \<Rightarrow> get_buffered_request_body ehf (envoy w)) []"
  obtain m s where slices: "copy_slices limit 0 ?slices (get_stream r w) = (m, s)"
    by (cases "copy_slices limit 0 ?slices (get_stream r w)")
  have "[] \<notin> set ?slices"
    using lawful_slices(1,2) [OF lawful] by (cases src) simp_all
  then have moved: "queued_more (take limit (concat ?slices)) (get_stream r w) s" "m = min (length (concat ?slices)) limit"
    using copy_slices_moves [OF op _ _ slices] by simp_all
  have src: "concat ?slices = source_bytes ehf src (envoy w)"
    by (cases src) (simp_all add: retained_bytes_def received_bytes_def)
  have "queued_more (take limit (source_bytes ehf src (envoy w))) (get_stream r w) (get_stream r w') \<and>
      n = min limit (length (source_bytes ehf src (envoy w))) \<and>
      envoy w' = (if n = 0 then envoy w else react ehf (case src of
        Received \<Rightarrow> Drain_received_request_body n | Retained \<Rightarrow> Drain_buffered_request_body n) (envoy w))"
  proof (cases "limit = 0")
    case True
    then show ?thesis
      using copy by (simp add: copy_body_def)
  next
    case False
    then have "n = m" "get_stream r w' = s" "envoy w' = (if m = 0 then envoy w else react ehf (case src of
        Received \<Rightarrow> Drain_received_request_body m | Retained \<Rightarrow> Drain_buffered_request_body m) (envoy w))"
      using copy by (auto simp: copy_body_def slices Let_def call_envoy_def envoy_def split: if_splits)
    then show ?thesis
      using moved unfolding src by (metis min.commute)
  qed
  then show "queued_more (take limit (source_bytes ehf src (envoy w))) (get_stream r w) (get_stream r w')"
    "n = min limit (length (source_bytes ehf src (envoy w)))"
    "envoy w' = (if n = 0 then envoy w else react ehf (case src of
        Received \<Rightarrow> Drain_received_request_body n | Retained \<Rightarrow> Drain_buffered_request_body n) (envoy w))"
    by simp_all
qed

section \<open>Both buffers\<close>

text \<open>
  Moving what fits: the bytes queued are the first of what is pending, as many as
  there is room for, and exactly these leave Envoy.
\<close>

lemma copy_available_moves:
  assumes lawful: "lawful_body ehf" and op: "stream_open (get_stream r w)"
    and copy: "copy_available ehf r w = (n, w')"
  defines "room \<equiv> min (length (pending_body ehf (envoy w))) (spare_capacity (get_stream r w))"
  shows "queued_more (take room (pending_body ehf (envoy w))) (get_stream r w) (get_stream r w')"
    and "n = room" and "pending_body ehf (envoy w') = drop room (pending_body ehf (envoy w))"
    and "received_buffered_request_body ehf (envoy w') = received_buffered_request_body ehf (envoy w)"
proof -
  let ?e = "envoy w"
  let ?same = "received_buffered_request_body ehf ?e"
  have room: "min (get_buffered_request_body_size ehf ?e +
      (if ?same then 0 else get_received_request_body_size ehf ?e)) (spare_capacity (get_stream r w)) = room"
    by (simp add: room_def pending_body_def lawful_slices [OF lawful])
  obtain n1 w1 where one: "copy_body ehf Retained room r w = (n1, w1)"
    by (cases "copy_body ehf Retained room r w")
  note moved1 = copy_body_moves [OF lawful op one]
  obtain n2 w2 where two: "copy_body ehf Received (room - n1) r w1 = (n2, w2)"
    by (cases "copy_body ehf Received (room - n1) r w1")
  have op1: "stream_open (get_stream r w1)"
    using queued_more_open [OF moved1(1)] op by simp
  note moved2 = copy_body_moves [OF lawful op1 two]
  have e1: "retained_bytes ehf (envoy w1) = drop room (retained_bytes ehf ?e)"
      "received_buffered_request_body ehf (envoy w1) = ?same"
      "\<not> ?same \<Longrightarrow> received_bytes ehf (envoy w1) = received_bytes ehf ?e"
    using moved1(2,3) lawful_drains(1-3) [OF lawful] by (auto simp: min_def split: if_splits)
  have result: "(n, w') = (if n1 < room \<and> \<not> ?same then (n1 + n2, w2) else (n1, w1))"
    using copy unfolding copy_available_def Let_def room by (auto simp: one two split: if_splits)
  have "queued_more (take room (pending_body ehf ?e)) (get_stream r w) (get_stream r w') \<and>
      n = room \<and> pending_body ehf (envoy w') = drop room (pending_body ehf ?e) \<and>
      received_buffered_request_body ehf (envoy w') = ?same"
  proof (cases "n1 < room \<and> \<not> ?same")
    case True
    then have n1: "n1 = length (retained_bytes ehf ?e)" and w': "w' = w2" "n = n1 + n2"
      using moved1(2) result by auto
    have "room \<le> length (retained_bytes ehf ?e) + length (received_bytes ehf ?e)"
      using True by (simp add: room_def pending_body_def)
    then have n2: "n2 = room - n1"
      using moved2(2) e1(3) True n1 by simp
    then have e2: "envoy w' = react ehf (Drain_received_request_body (room - n1)) (envoy w1)"
      using moved2(3) True w' by simp
    show ?thesis
      using queued_more_trans [OF moved1(1) moved2(1)] True n1 n2 w' e1 e2
        lawful_drains(4-6) [OF lawful, of "envoy w1" "room - n1"]
      by (simp add: pending_body_def)
  next
    case False
    then have "w' = w1" "n = n1"
      using result by (auto split: if_splits)
    moreover have fits: "room \<le> length (retained_bytes ehf ?e)"
      using False moved1(2) by (cases ?same) (auto simp: room_def pending_body_def min_def split: if_splits)
    ultimately show ?thesis
      using moved1(1,2) e1 by (simp add: pending_body_def)
  qed
  then show "queued_more (take room (pending_body ehf (envoy w))) (get_stream r w) (get_stream r w')"
    "n = room" "pending_body ehf (envoy w') = drop room (pending_body ehf (envoy w))"
    "received_buffered_request_body ehf (envoy w') = received_buffered_request_body ehf (envoy w)"
    by simp_all
qed

section \<open>One call of the forwarder\<close>

lemma pending_empty_iff:
  assumes "lawful_body ehf"
  shows "get_buffered_request_body_size ehf e = 0 \<and> get_received_request_body_size ehf e = 0 \<longleftrightarrow>
    pending_body ehf e = []"
  using lawful_slices(3-5) [OF assms, of e] by (auto simp: pending_body_def)

text \<open>The queue afterwards, with the end in it if it is due.\<close>

definition end_if :: "bool \<Rightarrow> response_stream \<Rightarrow> response_stream" where
  "end_if b s = (if b then s\<lparr>ended := True, items := items s @ [End]\<rparr> else s)"

lemma forward_moves:
  assumes lawful: "lawful_body ehf" and h: "f_request_body f = Some h" and op: "stream_open (get_stream (sh_stream h) w)"
    and forward: "forward_request_body ehf (f, w) = (f', w')"
  defines "q \<equiv> get_stream (sh_stream h) w" and "p \<equiv> pending_body ehf (envoy w)"
  obtains s where "queued_more (take (spare_capacity q) p) q s"
    "pending_body ehf (envoy w') = drop (spare_capacity q) p"
    "get_stream (sh_stream h) w' = end_if (request_end_pending f \<and> pending_body ehf (envoy w') = []) s"
    "request_end_pending f' = (request_end_pending f \<and> pending_body ehf (envoy w') \<noteq> [])"
    "f_request_body f' = Some h"
proof -
  let ?r = "sh_stream h"
  obtain n w2 where copy: "copy_available ehf ?r w = (n, w2)" by (cases "copy_available ehf ?r w")
  note moved = copy_available_moves [OF lawful op copy]
  have open2: "stream_open (get_stream ?r w2)"
    using queued_more_open [OF moved(1)] op by simp
  have same: "take (min (length p) (spare_capacity q)) p = take (spare_capacity q) p"
      "drop (min (length p) (spare_capacity q)) p = drop (spare_capacity q) p"
    by (auto simp: min_def)
  let ?at_end = "request_end_pending f \<and> pending_body ehf (envoy w2) = []"
  have ended: "(request_end_pending f \<and> get_buffered_request_body_size ehf (envoy w2) = 0 \<and>
      get_received_request_body_size ehf (envoy w2) = 0) = ?at_end"
    using pending_empty_iff [OF lawful] by simp
  have push: "snd (push_end (get_stream ?r w2)) = end_if True (get_stream ?r w2)"
    using open2 by (simp add: push_end_def push_def end_if_def stream_open_def)
  have env: "envoy (client_wake r v) = envoy v" "envoy (put_stream r s v) = envoy v" for r s and v :: "'a world"
    by (simp_all add: envoy_def client_wake_def)
  note forward [unfolded forward_request_body_def, simplified h copy ended, simplified]
  then have "envoy w' = envoy w2" "get_stream ?r w' = end_if ?at_end (get_stream ?r w2)"
      "request_end_pending f' = (request_end_pending f \<and> pending_body ehf (envoy w2) \<noteq> [])" "f_request_body f' = Some h"
    using push h by (auto simp: Let_def copy ended env end_if_def split: if_splits)
  then show thesis
    using that [of "get_stream ?r w2"] moved same by (simp add: p_def q_def)
qed

section \<open>A whole upload\<close>

text \<open>
  The filter and its world, what the reader has taken out of the queue, and what
  Envoy has delivered so far.
\<close>

record 'e upload =
  up_fw :: "'e fw"
  up_read :: bytes
  up_end_read :: bool
  up_arrived :: bytes
  up_closed :: bool

definition body_queue :: "stream_ref \<Rightarrow> 'e upload \<Rightarrow> response_stream" where
  "body_queue r u = get_stream r (snd (up_fw u))"

definition body_pending :: "'e ehf \<Rightarrow> 'e upload \<Rightarrow> bytes" where
  "body_pending ehf u = pending_body ehf (envoy (snd (up_fw u)))"

text \<open>
  Envoy hands over a frame and says whether it is the last, or delivers trailers;
  the runtime asks for more; the reader takes an item.  In between Envoy may move
  bytes from one buffer to the other and everything else may change.
\<close>

inductive upload_step :: "'e ehf \<Rightarrow> stream_ref \<Rightarrow> 'e upload \<Rightarrow> 'e upload \<Rightarrow> bool" for ehf r where
  frame: "\<not> up_closed u \<Longrightarrow> up_fw u = (f, w) \<Longrightarrow> get_stream r w1 = get_stream r w \<Longrightarrow>
    pending_body ehf (envoy w1) = pending_body ehf (envoy w) @ x \<Longrightarrow>
    upload_step ehf r u (u\<lparr>up_fw := on_request_body ehf fin (f, w1), up_arrived := up_arrived u @ x, up_closed := fin\<rparr>)"
| trailers: "\<not> up_closed u \<Longrightarrow>
    upload_step ehf r u (u\<lparr>up_fw := on_request_trailers ehf (up_fw u), up_closed := True\<rparr>)"
| more_room: "upload_step ehf r u (u\<lparr>up_fw := on_scheduled ehf REQUEST_EVENT_ID (up_fw u)\<rparr>)"
| read_chunk: "up_fw u = (f, w) \<Longrightarrow> take_next (get_stream r w) = (Some (Chunk c), s) \<Longrightarrow>
    upload_step ehf r u (u\<lparr>up_fw := (f, put_stream r s w), up_read := up_read u @ c\<rparr>)"
| read_end: "up_fw u = (f, w) \<Longrightarrow> take_next (get_stream r w) = (Some End, s) \<Longrightarrow>
    upload_step ehf r u (u\<lparr>up_fw := (f, put_stream r s w), up_end_read := True\<rparr>)"
| elsewhere: "up_fw u = (f, w) \<Longrightarrow> f_request_body f' = f_request_body f \<Longrightarrow>
    request_end_pending f' = request_end_pending f \<Longrightarrow> get_stream r w' = get_stream r w \<Longrightarrow>
    pending_body ehf (envoy w') = pending_body ehf (envoy w) \<Longrightarrow>
    upload_step ehf r u (u\<lparr>up_fw := (f', w')\<rparr>)"

text \<open>An upload begins with headers that were accepted; nothing of the body is there yet.\<close>

definition upload_begins :: "'e ehf \<Rightarrow> stream_ref \<Rightarrow> 'e upload \<Rightarrow> bool" where
  "upload_begins ehf r u \<longleftrightarrow>
     (\<exists>e diag rt wt metric ctx settings w h.
        up_fw u = on_request_headers ehf e (new_http_filter diag rt wt metric ctx settings, w) \<and>
        pending_body ehf (envoy w) = [] \<and> f_request_body (fst (up_fw u)) = Some h \<and> sh_stream h = r \<and>
        up_closed u = e \<and> up_read u = [] \<and> \<not> up_end_read u \<and> up_arrived u = [])"

definition upload_ok :: "bool \<Rightarrow> response_stream \<Rightarrow> bytes \<Rightarrow> bytes \<Rightarrow> bool \<Rightarrow> bytes \<Rightarrow> bool \<Rightarrow> bool" where
  "upload_ok due q p taken end_taken arrived fin \<longleftrightarrow>
     (\<exists>xs. items q = map Chunk xs @ (if ended q \<and> \<not> end_taken then [End] else [])) \<and>
     taken @ body_of (items q) @ p = arrived \<and>
     buffered_bytes q = queued_bytes (items q) \<and> buffered_bytes q \<le> max_buffered_bytes q \<and>
     max_buffered_bytes q = MAX_BUFFERED_BODY_BYTES \<and> \<not> cancelled q \<and>
     (ended q \<longrightarrow> p = [] \<and> \<not> due) \<and> (end_taken \<longrightarrow> ended q \<and> items q = []) \<and>
     fin = (due \<or> ended q)"

definition upload_inv :: "'e ehf \<Rightarrow> stream_ref \<Rightarrow> 'e upload \<Rightarrow> bool" where
  "upload_inv ehf r u \<longleftrightarrow>
     (\<exists>h. f_request_body (fst (up_fw u)) = Some h \<and> sh_stream h = r) \<and>
     upload_ok (request_end_pending (fst (up_fw u))) (body_queue r u) (body_pending ehf u)
       (up_read u) (up_end_read u) (up_arrived u) (up_closed u)"

lemma upload_ok_queued:
  assumes ok: "upload_ok due q p taken et arrived fin" and op: "stream_open q"
    and more: "queued_more (take (spare_capacity q) p) q s"
  shows "upload_ok due s (drop (spare_capacity q) p) taken et arrived fin"
proof -
  obtain xs ys where xs: "items q = map Chunk xs" and ys: "items s = items q @ map Chunk ys"
      "concat ys = take (spare_capacity q) p"
    using ok op more by (auto simp: upload_ok_def queued_more_def stream_open_def)
  have "\<exists>zs. items s = map Chunk zs"
    using xs ys by (metis map_append)
  then show ?thesis
    using ok op more ys(2) queued_more_body [OF more]
    by (auto simp: upload_ok_def queued_more_def stream_open_def spare_capacity_def queued_bytes_body)
qed

lemma upload_ok_end:
  assumes "upload_ok due q p taken et arrived fin" and "stream_open q"
  shows "upload_ok (due \<and> p \<noteq> []) (end_if (due \<and> p = []) q) p taken et arrived fin"
  using assms by (auto simp: upload_ok_def end_if_def stream_open_def)

lemma forward_idle:
  assumes lawful: "lawful_body ehf" and h: "f_request_body f = Some h"
    and "\<not> request_end_pending f" and "pending_body ehf (envoy w) = []"
  shows "\<exists>f'. forward_request_body ehf (f, w) = (f', w) \<and> f_request_body f' = Some h \<and> \<not> request_end_pending f'"
proof -
  have "retained_bytes ehf (envoy w) = []" "received_bytes ehf (envoy w) = []"
    using assms(4) lawful_slices(5) [OF lawful, of "envoy w"] by (auto simp: pending_body_def split: if_splits)
  then have "copy_available ehf r w = (0, w)" for r
    by (simp add: copy_available_def copy_body_def lawful_slices [OF lawful] Let_def)
  then show ?thesis
    using assms by (simp add: forward_request_body_def)
qed

lemma upload_forward:
  assumes lawful: "lawful_body ehf" and h: "f_request_body f = Some h" "sh_stream h = r"
    and ok: "upload_ok (request_end_pending f) (get_stream r w) (pending_body ehf (envoy w)) taken et arrived fin"
    and forward: "forward_request_body ehf (f, w) = (f', w')"
  shows "f_request_body f' = Some h" and
    "upload_ok (request_end_pending f') (get_stream r w') (pending_body ehf (envoy w')) taken et arrived fin"
proof -
  have "f_request_body f' = Some h \<and>
    upload_ok (request_end_pending f') (get_stream r w') (pending_body ehf (envoy w')) taken et arrived fin"
  proof (cases "stream_open (get_stream r w)")
    case True
    then obtain s where s: "queued_more (take (spare_capacity (get_stream r w)) (pending_body ehf (envoy w))) (get_stream r w) s"
      "pending_body ehf (envoy w') = drop (spare_capacity (get_stream r w)) (pending_body ehf (envoy w))"
      "get_stream r w' = end_if (request_end_pending f \<and> pending_body ehf (envoy w') = []) s"
      "request_end_pending f' = (request_end_pending f \<and> pending_body ehf (envoy w') \<noteq> [])"
      "f_request_body f' = Some h"
      using forward_moves [OF lawful h(1) _ forward] h(2) by metis
    have "stream_open s"
      using queued_more_open [OF s(1)] True by simp
    then show ?thesis
      using upload_ok_end [OF upload_ok_queued [OF ok True s(1)]] s by simp
  next
    case False
    then have "\<not> request_end_pending f" "pending_body ehf (envoy w) = []"
      using ok by (auto simp: upload_ok_def stream_open_def)
    then show ?thesis
      using forward_idle [OF lawful h(1), of w] forward ok by auto
  qed
  then show "f_request_body f' = Some h"
    "upload_ok (request_end_pending f') (get_stream r w') (pending_body ehf (envoy w')) taken et arrived fin"
    by simp_all
qed

lemma map_Chunk_inject [simp]: "map Chunk xs = map Chunk ys \<longleftrightarrow> xs = ys"
  by (simp add: inj_map_eq_map inj_def)

lemma upload_ok_take:
  assumes ok: "upload_ok due q p taken et arrived fin"
  shows "take_next q = (Some (Chunk c), s) \<Longrightarrow> upload_ok due s p (taken @ c) et arrived fin"
    and "take_next q = (Some End, s) \<Longrightarrow> upload_ok due s p taken True arrived fin"
proof -
  obtain xs where xs: "items q = map Chunk xs @ (if ended q \<and> \<not> et then [End] else [])"
    using ok by (auto simp: upload_ok_def)
  show "take_next q = (Some (Chunk c), s) \<Longrightarrow> upload_ok due s p (taken @ c) et arrived fin"
    using ok xs by (cases xs) (auto simp: upload_ok_def take_next_def split: if_splits)
  show "take_next q = (Some End, s) \<Longrightarrow> upload_ok due s p taken True arrived fin"
    using ok xs by (cases xs) (auto simp: upload_ok_def take_next_def split: if_splits)
qed

lemma upload_ok_arrives:
  assumes "upload_ok due q p taken et arrived False"
  shows "upload_ok (due \<or> fin) q (p @ x) taken et (arrived @ x) fin"
  using assms by (auto simp: upload_ok_def)

lemma submit_body_queue:
  assumes lawful: "lawful_body ehf" and request: "f_request f = Some request"
    and submit: "submit_request ehf (f, w) = (f1, w1)" and h: "f_request_body f1 = Some h"
  shows "get_stream (sh_stream h) w1 = new_stream MAX_BUFFERED_BODY_BYTES"
    and "pending_body ehf (envoy w1) = pending_body ehf (envoy w)"
proof -
  have metric: "pending_body ehf (react ehf (Metric m) e) = pending_body ehf e" for m e
    using lawful by (simp add: lawful_body_def)
  show "get_stream (sh_stream h) w1 = new_stream MAX_BUFFERED_BODY_BYTES"
    "pending_body ehf (envoy w1) = pending_body ehf (envoy w)"
    using submit h request metric
    by (auto simp: submit_request_def alloc_stream_def report_admission_def with_metrics_def submitted_def
        envoy_def send_bridge_error_def Let_def split: option.splits prod.splits sum.splits)
qed

lemma upload_begins_inv:
  assumes lawful: "lawful_body ehf" and "upload_begins ehf r u"
  shows "upload_inv ehf r u"
proof -
  obtain e diag rt wt metric ctx settings w h where
      up: "up_fw u = on_request_headers ehf e (new_http_filter diag rt wt metric ctx settings, w)"
    and empty: "pending_body ehf (envoy w) = []" and h: "f_request_body (fst (up_fw u)) = Some h" "sh_stream h = r"
    and u: "up_closed u = e" "up_read u = []" "\<not> up_end_read u" "up_arrived u = []"
    using assms(2) by (auto simp: upload_begins_def)
  let ?f = "new_http_filter diag rt wt metric ctx settings"
  obtain request where request: "copy_headers ehf (instant_now ehf (envoy w)) ?f (envoy w) = Inr request"
    using up h by (cases "copy_headers ehf (instant_now ehf (envoy w)) ?f (envoy w)")
      (auto simp: on_request_headers_def send_invalid_request_def send_bridge_error_def)
  obtain f1 w1 where sub: "submit_request ehf (?f\<lparr>f_request := Some request\<rparr>, w) = (f1, w1)"
    by (cases "submit_request ehf (?f\<lparr>f_request := Some request\<rparr>, w)")
  have begun: "up_fw u = (if e then forward_request_body ehf (f1\<lparr>request_end_pending := e\<rparr>, w1)
      else (f1\<lparr>request_end_pending := e\<rparr>, w1))"
    using up request sub by (simp add: on_request_headers_def)
  obtain f2 w2 where forward: "forward_request_body ehf (f1\<lparr>request_end_pending := e\<rparr>, w1) = (f2, w2)"
    by (cases "forward_request_body ehf (f1\<lparr>request_end_pending := e\<rparr>, w1)")
  have h1: "f_request_body f1 = Some h"
    using begun h forward by (auto simp: forward_request_body_def Let_def split: option.splits prod.splits if_splits)
  have ok: "upload_ok e (get_stream r w1) (pending_body ehf (envoy w1)) [] False [] e"
    using submit_body_queue [OF lawful _ sub h1] empty h(2)
    by (simp add: upload_ok_def new_stream_def MAX_BUFFERED_BODY_BYTES_def)
  show ?thesis
  proof (cases e)
    case True
    then show ?thesis
      using upload_forward [OF lawful _ h(2) _ forward, of "[]" False "[]" e] begun h1 h ok u forward
      by (simp add: upload_inv_def body_queue_def body_pending_def)
  next
    case False
    then show ?thesis
      using begun h1 h ok u by (simp add: upload_inv_def body_queue_def body_pending_def)
  qed
qed

lemma upload_inv_step:
  assumes lawful: "lawful_body ehf" and inv: "upload_inv ehf r u" and step: "upload_step ehf r u u'"
  shows "upload_inv ehf r u'"
proof -
  obtain f w where fw: "up_fw u = (f, w)" by (cases "up_fw u")
  obtain h where h: "f_request_body f = Some h" "sh_stream h = r"
      and ok: "upload_ok (request_end_pending f) (get_stream r w) (pending_body ehf (envoy w))
        (up_read u) (up_end_read u) (up_arrived u) (up_closed u)"
    using inv by (auto simp: upload_inv_def body_queue_def body_pending_def fw)
  have after: "upload_inv ehf r v"
    if "f_request_body f2 = Some h" "up_fw v = forward_request_body ehf (f2, w2)" "upload_ok (request_end_pending f2) (get_stream r w2) (pending_body ehf (envoy w2))
      (up_read v) (up_end_read v) (up_arrived v) (up_closed v)" for f2 w2 and v :: "'a upload"
    using upload_forward [OF lawful that(1) h(2) that(3)] that(2) h(2)
    by (cases "forward_request_body ehf (f2, w2)") (auto simp: upload_inv_def body_queue_def body_pending_def)
  from step show ?thesis
  proof cases
    case (frame f' w' w1 x fin)
    then have "upload_ok (request_end_pending f \<or> fin) (get_stream r w1) (pending_body ehf (envoy w1))
        (up_read u) (up_end_read u) (up_arrived u @ x) fin"
      using upload_ok_arrives [of "request_end_pending f" "get_stream r w"] ok fw by simp
    then show ?thesis
      using after [of "f\<lparr>request_end_pending := request_end_pending f \<or> fin\<rparr>" u' w1] frame fw h
      by (simp add: on_request_body_def)
  next
    case trailers
    then have "upload_ok True (get_stream r w) (pending_body ehf (envoy w))
        (up_read u) (up_end_read u) (up_arrived u) True"
      using upload_ok_arrives [of "request_end_pending f" "get_stream r w" _ _ _ _ True "[]"] ok by simp
    then show ?thesis
      using after [of "f\<lparr>request_end_pending := True\<rparr>" u' w] trailers fw h
      by (simp add: on_request_trailers_def)
  next
    case more_room
    then show ?thesis
      using after [of f u' w] more_room ok h by (simp add: on_scheduled_def fw)
  next
    case (read_chunk f' w' c s)
    then show ?thesis
      using upload_ok_take(1) [OF ok] h fw by (simp add: upload_inv_def body_queue_def body_pending_def envoy_def)
  next
    case (read_end f' w' s)
    then show ?thesis
      using upload_ok_take(2) [OF ok] h fw by (simp add: upload_inv_def body_queue_def body_pending_def envoy_def)
  next
    case (elsewhere f' w' f2 w2)
    then show ?thesis
      using ok h fw by (simp add: upload_inv_def body_queue_def body_pending_def)
  qed
qed

interpretation uploads: inductive_invariant "upload_begins ehf r" "upload_step ehf r"
  "\<lambda>u. lawful_body ehf \<longrightarrow> upload_inv ehf r u" for ehf :: "'e ehf" and r
  by unfold_locales (blast intro: upload_begins_inv upload_inv_step)+

section \<open>Properties\<close>

text \<open>
  A request with three bytes of body: its headers, the frame, and the reader.
\<close>

definition sample_headers :: "sample_state upload" where
  "sample_headers = \<lparr> up_fw = on_request_headers sample_ehf False (sample_filter, sample_world ([], [])),
     up_read = [], up_end_read = False, up_arrived = [], up_closed = False \<rparr>"

definition sample_frame :: "sample_state upload \<Rightarrow> sample_state upload" where
  "sample_frame u = (case up_fw u of (f, w) \<Rightarrow>
     u\<lparr>up_fw := on_request_body sample_ehf True (f, w\<lparr>w_host := (w_host w)\<lparr>env := ([], [''a'', ''bc''])\<rparr>\<rparr>),
       up_arrived := ''abc'', up_closed := True\<rparr>)"

lemma sample_headers_shape:
  obtains f w where "up_fw sample_headers = (f, w)" "request_end_pending f = False" "f_diagnostics f = None"
    "f_request_body f = Some \<lparr> sh_stream = Plain 0, sh_event = REQUEST_EVENT_ID \<rparr>"
    "envoy w = ([], [])" "get_stream (Plain 0) w = new_stream MAX_BUFFERED_BODY_BYTES"
proof -
  obtain request where copied: "copy_headers sample_ehf (instant_now sample_ehf (envoy (sample_world ([], []))))
      sample_filter (envoy (sample_world ([], []))) = Inr request" "diagnostics request = None"
    using sample_copied by blast
  have begun: "up_fw sample_headers = (let (f1, w1) = submit_request sample_ehf
      (sample_filter\<lparr>f_request := Some request\<rparr>, sample_world ([], [])) in (f1\<lparr>request_end_pending := False\<rparr>, w1))"
    by (simp add: sample_headers_def on_request_headers_def copied(1))
  show thesis
    by (intro that [of "fst (up_fw sample_headers)" "snd (up_fw sample_headers)"])
      (simp_all add: begun copied(2) submit_request_def alloc_stream_def Let_def submit_def try_acquire_def
        does_not_fit_def saturating_sub_def send_and_wake_def report_admission_def with_metrics_def submitted_def
        envoy_def sample_filter_def new_http_filter_def sample_world_def sample_client_def sample_ehf_simps
        sample_metrics_def)
qed

lemma sample_frame_queued:
  obtains f w where "up_fw (sample_frame sample_headers) = (f, w)"
    "items (get_stream (Plain 0) w) = [Chunk ''a'', Chunk ''bc'', End]" "\<not> paused (get_stream (Plain 0) w)"
proof -
  obtain f w where b: "up_fw sample_headers = (f, w)" "request_end_pending f = False" "f_diagnostics f = None"
    "f_request_body f = Some \<lparr> sh_stream = Plain 0, sh_event = REQUEST_EVENT_ID \<rparr>"
    "envoy w = ([], [])" "get_stream (Plain 0) w = new_stream MAX_BUFFERED_BODY_BYTES"
    by (rule sample_headers_shape)
  show thesis
    by (rule that [of "fst (up_fw (sample_frame sample_headers))" "snd (up_fw (sample_frame sample_headers))"];
      use b in \<open>simp add: sample_frame_def on_request_body_def forward_request_body_def copy_available_def
        copy_body_def Let_def envoy_def call_envoy_def client_wake_def new_stream_def push_chunk_def push_end_def
        push_def spare_capacity_def sample_ehf_simps MAX_BUFFERED_BODY_BYTES_def\<close>)
qed

lemma sample_headers_reachable:
  "reachable (upload_begins sample_ehf (Plain 0)) (upload_step sample_ehf (Plain 0)) sample_headers"
proof (rule reachable_init)
  obtain f w where "up_fw sample_headers = (f, w)"
    "f_request_body f = Some \<lparr> sh_stream = Plain 0, sh_event = REQUEST_EVENT_ID \<rparr>"
    by (rule sample_headers_shape)
  moreover have "pending_body sample_ehf (envoy (sample_world ([], []))) = []"
    by (simp add: pending_body_def retained_bytes_def received_bytes_def sample_ehf_simps sample_world_def envoy_def)
  ultimately show "upload_begins sample_ehf (Plain 0) sample_headers"
    unfolding upload_begins_def
    by (intro exI [of _ False] exI [of _ "''ThreadId(1)''"] exI [of _ "''ThreadId(2)''"]
        exI [of _ "Some sample_metrics"] exI [of _ None] exI [of _ "sample_world ([], [])"]
        exI [of _ "\<lparr> sh_stream = Plain 0, sh_event = REQUEST_EVENT_ID \<rparr>"])
      (simp_all add: sample_headers_def sample_filter_def)
qed

lemma sample_frame_reachable:
  "reachable (upload_begins sample_ehf (Plain 0)) (upload_step sample_ehf (Plain 0)) (sample_frame sample_headers)"
proof (rule reachable_step [OF sample_headers_reachable])
  obtain f w where b: "up_fw sample_headers = (f, w)" "envoy w = ([], [])"
    by (rule sample_headers_shape)
  let ?w = "w\<lparr>w_host := (w_host w)\<lparr>env := ([], [''a'', ''bc''])\<rparr>\<rparr>"
  have "pending_body sample_ehf (envoy ?w) = pending_body sample_ehf (envoy w) @ ''abc''"
    by (simp add: b pending_body_def retained_bytes_def received_bytes_def sample_ehf_simps)
      (simp add: envoy_def)
  then have "upload_step sample_ehf (Plain 0) sample_headers (sample_headers\<lparr>up_fw := on_request_body sample_ehf True (f, ?w),
      up_arrived := up_arrived sample_headers @ ''abc'', up_closed := True\<rparr>)"
    using b(1) by (intro upload_step.frame [OF _ b(1)]) (simp_all add: sample_headers_def)
  then show "upload_step sample_ehf (Plain 0) sample_headers (sample_frame sample_headers)"
    unfolding sample_frame_def b by (simp add: sample_headers_def)
qed

lemma sample_read_reachable:
  "\<exists>u. reachable (upload_begins sample_ehf (Plain 0)) (upload_step sample_ehf (Plain 0)) u \<and> up_end_read u \<and>
     up_read u = ''abc'' \<and> items (body_queue (Plain 0) u) = []"
proof -
  obtain f w where b: "up_fw (sample_frame sample_headers) = (f, w)"
      "items (get_stream (Plain 0) w) = [Chunk ''a'', Chunk ''bc'', End]" "\<not> paused (get_stream (Plain 0) w)"
    by (rule sample_frame_queued)
  let ?reach = "reachable (upload_begins sample_ehf (Plain 0)) (upload_step sample_ehf (Plain 0))"
  let ?q = "get_stream (Plain 0) w"
  define s1 where "s1 = ?q\<lparr>items := [Chunk ''bc'', End], buffered_bytes := buffered_bytes ?q - 1\<rparr>"
  define s2 where "s2 = s1\<lparr>items := [End], buffered_bytes := buffered_bytes s1 - 2\<rparr>"
  define u0 where "u0 = sample_frame sample_headers"
  define u1 where "u1 = u0\<lparr>up_fw := (f, put_stream (Plain 0) s1 w), up_read := up_read u0 @ ''a''\<rparr>"
  define u2 where "u2 = u1\<lparr>up_fw := (f, put_stream (Plain 0) s2 (put_stream (Plain 0) s1 w)), up_read := up_read u1 @ ''bc''\<rparr>"
  define u3 where "u3 = u2\<lparr>up_fw := (f, put_stream (Plain 0) (s2\<lparr>items := []\<rparr>)
      (put_stream (Plain 0) s2 (put_stream (Plain 0) s1 w))), up_end_read := True\<rparr>"
  have f1: "up_fw u1 = (f, put_stream (Plain 0) s1 w)"
      and f2: "up_fw u2 = (f, put_stream (Plain 0) s2 (put_stream (Plain 0) s1 w))"
    by (simp_all add: u1_def u2_def)
  have "take_next ?q = (Some (Chunk ''a''), s1)"
    using b(2,3) by (simp add: take_next_def s1_def)
  then have "?reach u1"
    unfolding u1_def u0_def using sample_frame_reachable b(1) by (blast intro: reachable_step upload_step.read_chunk)
  moreover have "take_next (get_stream (Plain 0) (put_stream (Plain 0) s1 w)) = (Some (Chunk ''bc''), s2)"
    using b(3) unfolding put_stream_simps by (simp add: take_next_def s1_def s2_def)
  ultimately have "?reach u2"
    unfolding u2_def using f1 by (blast intro: reachable_step upload_step.read_chunk)
  moreover have "take_next (get_stream (Plain 0) (put_stream (Plain 0) s2 (put_stream (Plain 0) s1 w))) =
      (Some End, s2\<lparr>items := []\<rparr>)"
    using b(3) unfolding put_stream_simps by (simp add: take_next_def s1_def s2_def)
  ultimately have "?reach u3"
    unfolding u3_def using f2 by (blast intro: reachable_step upload_step.read_end)
  moreover have "up_read u0 = []"
    by (simp add: u0_def sample_frame_def sample_headers_def split: prod.splits)
  ultimately show ?thesis
    by (intro exI [of _ u3]) (simp add: u3_def u2_def u1_def body_queue_def)
qed

section \<open>Properties\<close>

text \<open>
  C5. Nothing of a request body is lost, repeated or reordered on the way from
  Envoy to the reader, and the reader's queue never holds more than its budget.
\<close>

theorem body_reaches_reader_in_order:
  assumes "lawful_body ehf" and "reachable (upload_begins ehf r) (upload_step ehf r) u"
  shows "up_arrived u = up_read u @ body_of (items (body_queue r u)) @ body_pending ehf u \<and>
    queued_bytes (items (body_queue r u)) \<le> MAX_BUFFERED_BODY_BYTES"
  using uploads.inv_reachable [OF assms(2)] assms(1) by (auto simp: upload_inv_def upload_ok_def)

theorem body_reaches_reader_in_order_witness:
  "up_arrived (sample_frame sample_headers) = up_read (sample_frame sample_headers) @
     body_of (items (body_queue (Plain 0) (sample_frame sample_headers))) @
     body_pending sample_ehf (sample_frame sample_headers) \<and>
   up_arrived (sample_frame sample_headers) = ''abc''"
  using body_reaches_reader_in_order [OF lawful_sample sample_frame_reachable]
  by (simp add: sample_frame_def split: prod.splits)

text \<open>
  C6. The end of the body follows its last byte: a reader that has taken the end
  has taken everything Envoy delivered, and Envoy has delivered everything.
\<close>

theorem end_follows_last_byte:
  assumes "lawful_body ehf" and "reachable (upload_begins ehf r) (upload_step ehf r) u" and "up_end_read u"
  shows "up_read u = up_arrived u \<and> up_closed u"
  using uploads.inv_reachable [OF assms(2)] assms(1,3) by (auto simp: upload_inv_def upload_ok_def)

theorem end_follows_last_byte_witness:
  "\<exists>u. reachable (upload_begins sample_ehf (Plain 0)) (upload_step sample_ehf (Plain 0)) u \<and> up_end_read u \<and>
     up_read u = ''abc'' \<and> up_arrived u = ''abc''"
  using sample_read_reachable end_follows_last_byte [OF lawful_sample] by metis

text \<open>
  One call of the forwarder moves everything the queue has room for and no
  more, and queues the end exactly when it is due and nothing is left behind.
\<close>

theorem forwarder_fills_the_queue:
  assumes "lawful_body ehf" and "f_request_body f = Some h" and "stream_open (get_stream (sh_stream h) w)"
  shows "body_of (items (get_stream (sh_stream h) (snd (forward_request_body ehf (f, w))))) =
      body_of (items (get_stream (sh_stream h) w)) @
        take (spare_capacity (get_stream (sh_stream h) w)) (pending_body ehf (envoy w)) \<and>
    pending_body ehf (envoy (snd (forward_request_body ehf (f, w)))) =
      drop (spare_capacity (get_stream (sh_stream h) w)) (pending_body ehf (envoy w)) \<and>
    ended (get_stream (sh_stream h) (snd (forward_request_body ehf (f, w)))) =
      (request_end_pending f \<and>
       length (pending_body ehf (envoy w)) \<le> spare_capacity (get_stream (sh_stream h) w))"
proof -
  obtain f' w' where forward: "forward_request_body ehf (f, w) = (f', w')" by (cases "forward_request_body ehf (f, w)")
  show ?thesis
    using assms(3) queued_more_body
    by (rule_tac forward_moves [OF assms forward]) (auto simp: forward end_if_def stream_open_def queued_more_def)
qed

theorem forwarder_fills_the_queue_witness:
  "pending_body sample_ehf (envoy (snd (forward_request_body sample_ehf
     (sample_filter\<lparr>f_request_body := Some \<lparr> sh_stream = Plain 0, sh_event = REQUEST_EVENT_ID \<rparr>\<rparr>,
      put_stream (Plain 0) (new_stream 2) (sample_world ([''a'', ''bc''], [''d'']))))) ) = ''cd''"
  using forwarder_fills_the_queue [OF lawful_sample,
      of "sample_filter\<lparr>f_request_body := Some \<lparr> sh_stream = Plain 0, sh_event = REQUEST_EVENT_ID \<rparr>\<rparr>"
        "\<lparr> sh_stream = Plain 0, sh_event = REQUEST_EVENT_ID \<rparr>"
        "put_stream (Plain 0) (new_stream 2) (sample_world ([''a'', ''bc''], [''d'']))"]
  by (simp add: stream_open_def new_stream_def spare_capacity_def pending_body_def retained_bytes_def
      received_bytes_def sample_ehf_simps sample_world_def envoy_def)

end
