(* ===== verification/Worker_Properties.thy ===== *)
theory Worker_Properties
  imports Sample_Envoy
begin

text \<open>
  What the filter of one request guarantees over its whole life: the order of
  what it sends downstream, its metrics, the request body it forwards, and that
  no fiber is left waiting when it ends.

  Between two callbacks the runtime thread and Envoy may change everything they
  own, so a life is a sequence of callbacks with arbitrary changes to the shared
  world in between; only the log of calls, which is the filter's own, persists.
\<close>

section \<open>Callbacks that send nothing downstream\<close>

definition downstream :: "envoy_call \<Rightarrow> bool" where
  "downstream c = (case c of
      Send_response _ _ _ _ \<Rightarrow> True | Send_response_headers _ _ \<Rightarrow> True
    | Send_response_data _ _ \<Rightarrow> True | Reset_stream _ _ \<Rightarrow> True | _ \<Rightarrow> False)"

text \<open>The two counters a request is balanced by.\<close>

definition counts_request :: "envoy_call \<Rightarrow> bool" where
  "counts_request c = (case c of Metric (Increment_counter _ _) \<Rightarrow> True | _ \<Rightarrow> False)"

definition counts_response :: "nat \<Rightarrow> envoy_call \<Rightarrow> bool" where
  "counts_response i c =
     (case c of Metric (Increment_counter_vec j [_] _) \<Rightarrow> i = j | _ \<Rightarrow> False)"

definition quiet_call :: "envoy_call \<Rightarrow> bool" where
  "quiet_call c = (case c of
      Send_http_callout _ _ _ _ \<Rightarrow> True | Start_http_stream _ _ _ _ _ \<Rightarrow> True
    | Send_http_stream_data _ _ _ \<Rightarrow> True | Reset_http_stream _ \<Rightarrow> True
    | Drain_received_request_body _ \<Rightarrow> True | Drain_buffered_request_body _ \<Rightarrow> True
    | Commit _ \<Rightarrow> True
    | Metric (Increment_counter_vec _ [_, _] _) \<Rightarrow> True
    | Metric (Record_histogram_vec _ _ _) \<Rightarrow> True
    | _ \<Rightarrow> False)"

lemma quiet_call_simps [simp]:
  "quiet_call (Send_http_callout a b c d)" "quiet_call (Start_http_stream a b c e d)"
  "quiet_call (Send_http_stream_data h x fin)" "quiet_call (Reset_http_stream h)"
  "quiet_call (Drain_received_request_body n)" "quiet_call (Drain_buffered_request_body n)"
  "quiet_call (Commit i)"
  "quiet_call (Metric (Increment_counter_vec n [x1, x2] v))"
  "quiet_call (Metric (Record_histogram_vec n xs v))"
  by (simp_all add: quiet_call_def)

lemma quiet_call_neutral:
  "quiet_call c \<Longrightarrow> \<not> downstream c \<and> \<not> counts_request c \<and> \<not> counts_response i c"
  by (auto simp: quiet_call_def downstream_def counts_request_def counts_response_def
      split: envoy_call.splits metric_call.splits list.splits)

text \<open>A step that only makes quiet calls and leaves the filter's answer to the client as it was.\<close>

definition log_of :: "'e fw \<Rightarrow> envoy_call list" where
  "log_of fw = elog (w_host (snd fw))"

definition quiet :: "'e fw \<Rightarrow> 'e fw \<Rightarrow> bool" where
  "quiet fw fw' \<longleftrightarrow>
     (\<exists>xs. log_of fw' = log_of fw @ xs \<and> list_all quiet_call xs) \<and>
     f_state (fst fw') = f_state (fst fw) \<and> f_submitted_at (fst fw') = f_submitted_at (fst fw) \<and>
     f_metrics (fst fw') = f_metrics (fst fw) \<and> f_stream (fst fw') = f_stream (fst fw)"

lemma quietI:
  assumes "log_of fw' = log_of fw @ xs" and "list_all quiet_call xs"
    and "f_state (fst fw') = f_state (fst fw)" and "f_submitted_at (fst fw') = f_submitted_at (fst fw)"
    and "f_metrics (fst fw') = f_metrics (fst fw)" and "f_stream (fst fw') = f_stream (fst fw)"
  shows "quiet fw fw'"
  using assms by (auto simp: quiet_def)

lemma quiet_refl [simp, intro]: "quiet fw fw"
  by (simp add: quiet_def)

lemma quiet_trans [trans]:
  assumes "quiet a b" and "quiet b c"
  shows "quiet a c"
proof -
  obtain xs ys where "log_of b = log_of a @ xs" "list_all quiet_call xs" "log_of c = log_of b @ ys" "list_all quiet_call ys"
    using assms by (auto simp: quiet_def)
  then show ?thesis
    using assms by (intro quietI [of _ _ "xs @ ys"]) (auto simp: quiet_def)
qed

lemma log_frame [simp]:
  "elog (w_host (put_stream r s w)) = elog (w_host w)"
  "elog (w_host (put_channel c ch w)) = elog (w_host w)"
  "elog (w_host (client_wake r w)) = elog (w_host w)"
  "elog (w_host (wake_stream c w)) = elog (w_host w)"
  "elog (w_host (call_envoy ehf x w)) = elog (w_host w) @ [x]"
  "elog (w_host (snd (alloc_stream n w))) = elog (w_host w)"
  by (simp_all add: put_channel_def client_wake_def wake_stream_def call_envoy_def alloc_stream_def Let_def)

text \<open>Changes of the world alone are quiet when their calls are.\<close>

lemma quiet_world:
  "elog (w_host w') = elog (w_host w) @ xs \<Longrightarrow> list_all quiet_call xs \<Longrightarrow> quiet (f, w) (f, w')"
  by (rule quietI [of _ _ xs]) (simp_all add: log_of_def)

lemma quiet_update:
  "elog (w_host w') = elog (w_host w) @ xs \<Longrightarrow> list_all quiet_call xs \<Longrightarrow>
   f_state f' = f_state f \<Longrightarrow> f_submitted_at f' = f_submitted_at f \<Longrightarrow> f_metrics f' = f_metrics f \<Longrightarrow>
   f_stream f' = f_stream f \<Longrightarrow> quiet (f, w) (f', w')"
  by (rule quietI [of _ _ xs]) (simp_all add: log_of_def)

lemma count_call_log:
  "\<exists>xs. elog (w_host (count_call ehf f cluster outcome w)) = elog (w_host w) @ xs \<and> list_all quiet_call xs"
  by (auto simp: count_call_def with_metrics_def upstream_call_def split: option.splits)

lemma answered_log:
  "\<exists>xs. elog (w_host (with_metrics f (\<lambda>m. upstream_answered ehf m cluster d) w)) = elog (w_host w) @ xs \<and>
     list_all quiet_call xs"
  by (auto simp: with_metrics_def upstream_answered_def split: option.splits)

lemma answered_now_log:
  "\<exists>xs. elog (w_host (with_metrics f (\<lambda>m h. upstream_answered ehf m cluster (d h) h) w)) = elog (w_host w) @ xs \<and>
     list_all quiet_call xs"
  by (auto simp: with_metrics_def upstream_answered_def split: option.splits)

lemma quiet_count_call: "quiet (f, w) (f, count_call ehf f' cluster outcome w)"
  using count_call_log [of ehf f' cluster outcome w] by (auto intro: quiet_world)

lemma quiet_callout_done: "quiet fw (on_http_callout_done ehf i result hs body fw)"
proof (cases fw)
  case (Pair f w)
  show ?thesis
  proof (cases "map_of (f_upstream_calls f) i")
    case (Some call)
    let ?f = "f\<lparr>f_upstream_calls := AList.delete i (f_upstream_calls f)\<rparr>"
    let ?r = "Plain (pc_response call)"
    obtain outcome s where d: "deliver (get_stream ?r w) result hs body
        (case f_upstream_settings f of None \<Rightarrow> 0 | Some s \<Rightarrow> max_response_bytes s) = (outcome, s)"
      by (cases "deliver (get_stream ?r w) result hs body
        (case f_upstream_settings f of None \<Rightarrow> 0 | Some s \<Rightarrow> max_response_bytes s)")
    define w1 where "w1 = count_call ehf ?f (pc_cluster call) outcome (put_stream ?r s w)"
    define w2 where "w2 = (if outcome = Completed
      then with_metrics ?f (\<lambda>m h. upstream_answered ehf m (pc_cluster call) (waited (instant_now ehf (env h)) call) h) w1
      else w1)"
    have eq: "on_http_callout_done ehf i result hs body (f, w) = (?f, client_wake ?r w2)"
      using d by (simp add: on_http_callout_done_def Some Let_def w1_def w2_def)
    obtain xs where "elog (w_host w1) = elog (w_host w) @ xs" "list_all quiet_call xs"
      using count_call_log [of ehf ?f "pc_cluster call" outcome "put_stream ?r s w"] by (auto simp: w1_def)
    moreover obtain ys where "elog (w_host w2) = elog (w_host w1) @ ys" "list_all quiet_call ys"
      using answered_now_log [of ?f ehf "pc_cluster call" "\<lambda>h. waited (instant_now ehf (env h)) call" w1]
      by (cases "outcome = Completed") (auto simp: w2_def)
    ultimately show ?thesis
      unfolding Pair eq by (intro quiet_update [of _ _ "xs @ ys"]) simp_all
  qed (simp add: Pair on_http_callout_done_def)
qed

lemma quiet_stream_headers: "quiet fw (on_http_stream_headers ehf k hs e fw)"
proof (cases fw)
  case (Pair f w)
  show ?thesis
  proof (cases "map_of (f_upstream_streams f) k")
    case (Some os)
    obtain wait os1 ch1 where h: "headers_arrived (instant_now ehf (envoy w)) hs e (os, w_channels w (os_channel os)) = (wait, os1, ch1)"
      by (cases "headers_arrived (instant_now ehf (envoy w)) hs e (os, w_channels w (os_channel os))") auto
    let ?f = "f\<lparr>f_upstream_streams := AList.update k os1 (f_upstream_streams f)\<rparr>"
    let ?w1 = "put_channel (os_channel os) ch1 w"
    obtain xs where "elog (w_host (case wait of None \<Rightarrow> ?w1
        | Some d \<Rightarrow> with_metrics ?f (\<lambda>m. upstream_answered ehf m (os_cluster os) d) ?w1)) = elog (w_host w) @ xs"
        "list_all quiet_call xs"
      using answered_log [of ?f ehf "os_cluster os" _ ?w1] by (cases wait) auto
    then show ?thesis
      by (simp add: Pair on_http_stream_headers_def Some h Let_def) (rule quiet_update [of _ _ xs], simp_all)
  qed (simp add: Pair on_http_stream_headers_def)
qed

lemma quiet_stream_data: "quiet fw (on_http_stream_data ehf k d e fw)"
proof (cases fw)
  case (Pair f w)
  then show ?thesis
    by (auto simp: on_http_stream_data_def Let_def split: option.splits prod.splits
        intro: quiet_update [of _ _ "[]"] quiet_update [of _ _ "[Commit _]"])
qed

lemma quiet_stream_trailers: "quiet fw (on_http_stream_trailers k ts fw)"
proof (cases fw)
  case (Pair f w)
  then show ?thesis
    by (auto simp: on_http_stream_trailers_def Let_def split: option.splits prod.splits
        intro: quiet_update [of _ _ "[]"])
qed

lemma quiet_ended:
  "quiet (f, w) (f\<lparr>f_upstream_streams := t\<rparr>,
     count_call ehf f' cluster outcome (wake_stream c (put_channel c ch w)))"
proof -
  obtain xs where "elog (w_host (count_call ehf f' cluster outcome (wake_stream c (put_channel c ch w)))) =
      elog (w_host w) @ xs" "list_all quiet_call xs"
    using count_call_log [of ehf f' cluster outcome "wake_stream c (put_channel c ch w)"] by auto
  then show ?thesis
    by (rule quiet_update) simp_all
qed

lemma quiet_callback: "quiet fw (on_callback ehf cb fw)"
proof (cases cb)
  case (Stream_complete k)
  then show ?thesis
    by (cases fw) (auto simp: on_http_stream_complete_def Let_def quiet_ended split: option.splits prod.splits)
next
  case (Stream_reset k r)
  then show ?thesis
    by (cases fw) (auto simp: on_http_stream_reset_def Let_def quiet_ended split: option.splits prod.splits)
qed (simp_all add: quiet_callout_done quiet_stream_headers quiet_stream_data quiet_stream_trailers)

lemma quiet_fold: "(\<And>x fw. quiet fw (g x fw)) \<Longrightarrow> quiet fw (fold g xs fw)"
proof (induction xs arbitrary: fw)
  case (Cons x xs)
  then show ?case
    using quiet_trans [OF Cons.prems Cons.IH [OF Cons.prems]] by simp
qed simp

lemma quiet_reenter: "quiet fw (reenter ehf cbs fw)"
  unfolding reenter_def by (rule quiet_fold) (rule quiet_callback)

lemma quiet_call_reentrant: "quiet_call c \<Longrightarrow> quiet fw (call_reentrant ehf c fw)"
  by (cases fw) (auto simp: call_reentrant_def intro!: quiet_trans [OF _ quiet_reenter] quiet_world [of _ _ "[c]"])

lemma quiet_pump_turn:
  assumes "pump_turn h fw = (c, fw1)"
  shows "quiet fw fw1" and "c = Some x \<Longrightarrow> quiet_call x"
proof -
  show "quiet fw fw1"
    using assms by (cases fw) (auto simp: pump_turn_def Let_def intro: quiet_update [of _ _ "[]"]
        split: option.splits prod.splits stream_action.splits)
  show "c = Some x \<Longrightarrow> quiet_call x"
    using assms by (cases fw) (auto simp: pump_turn_def Let_def
        split: option.splits prod.splits stream_action.splits)
qed

lemma quiet_pump_handle: "quiet fw (pump_handle ehf h fw)"
proof (induction ehf h fw rule: pump_handle.induct)
  case (1 ehf h fw)
  obtain c fw1 where turn: "pump_turn h fw = (c, fw1)" by (cases "pump_turn h fw")
  show ?case
  proof (cases c)
    case None
    then show ?thesis
      using quiet_pump_turn(1) [OF turn] turn by (simp add: pump_handle.simps [of ehf h fw])
  next
    case (Some x)
    have "quiet fw (call_reentrant ehf x fw1)"
      using quiet_pump_turn [OF turn] Some quiet_call_reentrant by (blast intro: quiet_trans)
    then show ?thesis
      using quiet_trans [OF _ 1 [OF turn [symmetric] Some]] turn Some
      by (simp add: pump_handle.simps [of ehf h fw])
  qed
qed

lemma quiet_wake: "quiet (f, w) (f, client_wake r w)" "quiet (f, w) (f, wake_stream c w)"
  by (auto intro: quiet_world [of _ _ "[]"])

lemma quiet_pump_streams: "quiet fw (pump_streams ehf fw)"
  unfolding pump_streams_def
proof (rule quiet_fold)
  fix h fw
  show "quiet fw (pump_stream ehf h fw)"
    using quiet_pump_handle [of fw ehf h]
    by (auto simp: pump_stream_def Let_def intro: quiet_trans [OF _ quiet_wake(1)] split: option.splits prod.splits)
qed

lemma quiet_send_call: "quiet fw (send_call ehf trace r fw)"
proof (cases fw)
  case (Pair f w)
  obtain refused calls heap h where sent: "send ehf r trace (f_upstream_calls f) (w_streams w) (w_host w) = (refused, calls, heap, h)"
    by (cases "send ehf r trace (f_upstream_calls f) (w_streams w) (w_host w)")
  let ?f = "f\<lparr>f_upstream_calls := calls\<rparr>" and ?w = "w\<lparr>w_streams := heap, w_host := h\<rparr>"
  have "elog h = elog (w_host w) @ [callout_of r trace]"
    using sent by (auto simp: send_def Let_def split: prod.splits option.splits)
  then have q: "quiet (f, w) (?f, ?w)"
    by (intro quiet_update [of _ _ "[callout_of r trace]"]) (simp_all add: callout_of_def)
  show ?thesis
    using q by (auto simp: Pair send_call_def sent Let_def split: option.splits
        intro: quiet_trans [OF quiet_trans [OF q quiet_wake(1)] quiet_count_call])
qed

lemma quiet_start_stream: "quiet fw (start_stream ehf trace r fw)"
proof (cases fw)
  case (Pair f w)
  let ?c = "us_channel r"
  obtain st ch h bk where started: "start ehf r trace (w_channels w ?c) (w_host w) = (st, ch, h, bk)"
    by (cases "start ehf r trace (w_channels w ?c) (w_host w)")
  obtain xs where "elog h = elog (w_host w) @ xs" "list_all quiet_call xs"
    using started by (auto simp: start_def Let_def split: prod.splits option.splits if_splits)
  then have q0: "quiet (f, w) (f, (put_channel ?c ch w)\<lparr>w_host := h\<rparr>)"
    by (intro quiet_world [of _ _ xs]) simp_all
  obtain f1 w1 where re: "reenter ehf bk (f, (put_channel ?c ch w)\<lparr>w_host := h\<rparr>) = (f1, w1)"
    by (cases "reenter ehf bk (f, (put_channel ?c ch w)\<lparr>w_host := h\<rparr>)")
  then have q1: "quiet (f, w) (f1, w1)"
    using quiet_trans [OF q0 quiet_reenter] by metis
  have q2: "quiet (f1, w1) (f1\<lparr>f_upstream_streams := t\<rparr>, w1)" for t
    by (intro quiet_update [of _ _ "[]"]) simp_all
  show ?thesis
    by (cases st) (auto simp: Pair start_stream_def started re Let_def intro: quiet_trans [OF q1 q2]
        quiet_trans [OF q1 quiet_count_call] quiet_trans [OF quiet_trans [OF q1 quiet_wake(2)] quiet_count_call])
qed

lemma quiet_send_upstream_calls: "quiet fw (send_upstream_calls ehf fw)"
proof (cases fw)
  case (Pair f w)
  have q: "quiet (f, w) (f, w\<lparr>w_route := rt\<rparr>)" "quiet (f, w) (f\<lparr>f_trace := t\<rparr>, w\<lparr>w_route := rt\<rparr>)" for rt t
    by (intro quiet_update [of _ _ "[]"]; simp)+
  show ?thesis
    by (auto simp: Pair send_upstream_calls_def take_queued_def take_queued_streams_def Let_def
        intro!: quiet_trans [OF _ quiet_pump_streams]
          quiet_trans [OF quiet_trans [OF q(2) quiet_fold [OF quiet_send_call]] quiet_fold [OF quiet_start_stream]] q(1))
qed

lemma copy_body_log:
  assumes "copy_body ehf src limit r w = (n, w')"
  shows "\<exists>xs. elog (w_host w') = elog (w_host w) @ xs \<and> list_all quiet_call xs"
  using assms by (cases src) (auto simp: copy_body_def Let_def split: if_splits prod.splits)

lemma copy_available_log:
  assumes "copy_available ehf r w = (n, w')"
  shows "\<exists>xs. elog (w_host w') = elog (w_host w) @ xs \<and> list_all quiet_call xs"
proof -
  define room where "room = min (get_buffered_request_body_size ehf (envoy w) +
    (if received_buffered_request_body ehf (envoy w) then 0 else get_received_request_body_size ehf (envoy w)))
    (spare_capacity (get_stream r w))"
  obtain c1 w1 where one: "copy_body ehf Retained room r w = (c1, w1)"
    by (cases "copy_body ehf Retained room r w")
  obtain c2 w2 where two: "copy_body ehf Received (room - c1) r w1 = (c2, w2)"
    by (cases "copy_body ehf Received (room - c1) r w1")
  obtain xs ys where "elog (w_host w1) = elog (w_host w) @ xs" "list_all quiet_call xs"
      "elog (w_host w2) = elog (w_host w1) @ ys" "list_all quiet_call ys"
    using copy_body_log [OF one] copy_body_log [OF two] by blast
  moreover have "w' = w1 \<or> w' = w2"
    using assms unfolding copy_available_def Let_def room_def [symmetric] one
    by (simp add: two split: if_splits)
  ultimately show ?thesis
    by auto
qed

lemma quiet_forward_request_body: "quiet fw (forward_request_body ehf fw)"
proof (cases fw)
  case (Pair f w)
  show ?thesis
  proof (cases "f_request_body f")
    case (Some handle)
    obtain n w2 where two: "copy_available ehf (sh_stream handle) w = (n, w2)"
      by (cases "copy_available ehf (sh_stream handle) w")
    obtain xs where "elog (w_host w2) = elog (w_host w) @ xs" "list_all quiet_call xs"
      using copy_available_log [OF two] by blast
    then show ?thesis
      by (simp add: Pair forward_request_body_def Some Let_def two) (auto intro: quiet_update)
  qed (simp add: Pair forward_request_body_def)
qed

lemma fold_log:
  assumes "\<And>x w l. elog (w_host (fst (g x (w, l)))) = elog (w_host w)"
  shows "elog (w_host (fst (fold g xs (w, l)))) = elog (w_host w)"
proof (induction xs arbitrary: w l)
  case (Cons x xs)
  then show ?case
    using assms [of x w l] by (cases "g x (w, l)") simp
qed simp

lemma abandon_each_log: "elog (w_host (fst (abandon_each xs ys zs w))) = elog (w_host w)"
proof -
  have logs: "elog (w_host (fst (abandon_call x (v, l)))) = elog (w_host v)"
      "elog (w_host (fst (abandon_unsent y (v, l)))) = elog (w_host v)"
      "elog (w_host (fst (abandon_open z (v, l)))) = elog (w_host v)"
    for x y z l and v :: "'a world"
    by (cases x; simp add: abandon_call_def Let_def del: put_stream.simps)
      (simp_all add: abandon_unsent_def abandon_open_def Let_def split: prod.splits)
  obtain v1 l1 where a: "fold abandon_call xs (w, []) = (v1, l1)" by (cases "fold abandon_call xs (w, [])")
  obtain v2 l2 where b: "fold abandon_unsent ys (v1, l1) = (v2, l2)" by (cases "fold abandon_unsent ys (v1, l1)")
  show ?thesis
    using fold_log [of abandon_call xs w "[]", OF logs(1)] fold_log [of abandon_unsent ys v1 l1, OF logs(2)]
      fold_log [of abandon_open zs v2 l2, OF logs(3)]
    by (simp add: abandon_each_def a b)
qed

lemma take_unsent_log: "elog (w_host (snd (take_unsent (f, w)))) = elog (w_host w)"
  by (simp add: take_unsent_def close_calls_def split: option.splits)

lemma abandon_upstreams_log:
  assumes "abandon_upstreams (f, w) = (over, f', w')"
  shows "elog (w_host w') = elog (w_host w)" and "f_state f' = f_state f" and "f_submitted_at f' = f_submitted_at f"
    and "f_metrics f' = f_metrics f" and "f_stream f' = f_stream f"
proof -
  obtain u w1 where u: "take_unsent (f, w) = (u, w1)" by (cases "take_unsent (f, w)")
  let ?waiting = "map (\<lambda>r. (ur_response r, ur_cluster r)) (unsent_calls u) @
    map (\<lambda>(_, call). (pc_response call, pc_cluster call)) (f_upstream_calls f)"
  obtain w2 l where each: "abandon_each ?waiting (unsent_streams u) (map snd (f_upstream_streams f)) w1 = (w2, l)"
    by (cases "abandon_each ?waiting (unsent_streams u) (map snd (f_upstream_streams f)) w1")
  have res: "w' = w2" "f' = f\<lparr>f_upstreams := None, f_upstream_calls := [], f_upstream_streams := []\<rparr>"
    using assms by (auto simp: abandon_upstreams_def u each)
  show "elog (w_host w') = elog (w_host w)"
    using abandon_each_log [of ?waiting "unsent_streams u" "map snd (f_upstream_streams f)" w1]
      take_unsent_log [of f w] by (simp add: res each u)
  show "f_state f' = f_state f" "f_submitted_at f' = f_submitted_at f" "f_metrics f' = f_metrics f" "f_stream f' = f_stream f"
    by (simp_all add: res)
qed

lemma quiet_abandon_upstreams: "quiet fw (snd (abandon_upstreams fw))"
proof -
  obtain f w over f' w' where a: "fw = (f, w)" "abandon_upstreams (f, w) = (over, f', w')"
    by (metis prod_cases3 surj_pair)
  show ?thesis
    using abandon_upstreams_log [OF a(2)] by (simp add: a) (rule quiet_update [of _ _ "[]"], simp_all)
qed

lemma quiet_watermarks:
  "quiet fw (on_downstream_above_write_buffer_high_watermark fw)"
  "quiet fw (on_downstream_below_write_buffer_low_watermark ehf fw)"
  by (cases fw; auto simp: on_downstream_above_write_buffer_high_watermark_def
      on_downstream_below_write_buffer_low_watermark_def split: option.splits
      intro: quiet_world [of _ _ "[]"] quiet_world [of _ _ "[Commit _]"])+

section \<open>The life of a filter\<close>

text \<open>
  The tables of calls and streams are hash maps, which promise no order of their entries.  They
  are lists here, so every step may find them in another order.
\<close>

definition rehashed :: "rack_filter \<Rightarrow> rack_filter \<Rightarrow> bool" where
  "rehashed f f' \<longleftrightarrow> mset (f_upstream_calls f') = mset (f_upstream_calls f) \<and>
     mset (f_upstream_streams f') = mset (f_upstream_streams f) \<and>
     f' = f\<lparr>f_upstream_calls := f_upstream_calls f', f_upstream_streams := f_upstream_streams f'\<rparr>"

lemma rehashed_parts:
  assumes "rehashed f f'"
  shows "f_state f' = f_state f" "f_submitted_at f' = f_submitted_at f" "f_metrics f' = f_metrics f" "f_stream f' = f_stream f"
    "f_upstreams f' = f_upstreams f" "f_request_body f' = f_request_body f"
    "set (f_upstream_calls f') = set (f_upstream_calls f)" "set (f_upstream_streams f') = set (f_upstream_streams f)"
    "diagnostics_enabled f' = diagnostics_enabled f" "runtime_thread_id f' = runtime_thread_id f"
    "worker_thread_id f' = worker_thread_id f"
proof -
  obtain cs ss where f': "f' = f\<lparr>f_upstream_calls := cs, f_upstream_streams := ss\<rparr>"
    using assms by (auto simp: rehashed_def)
  show "f_state f' = f_state f" "f_submitted_at f' = f_submitted_at f" "f_metrics f' = f_metrics f" "f_stream f' = f_stream f"
    "f_upstreams f' = f_upstreams f" "f_request_body f' = f_request_body f"
    "diagnostics_enabled f' = diagnostics_enabled f" "runtime_thread_id f' = runtime_thread_id f"
    "worker_thread_id f' = worker_thread_id f"
    by (simp_all add: f')
  show "set (f_upstream_calls f') = set (f_upstream_calls f)" "set (f_upstream_streams f') = set (f_upstream_streams f)"
    using assms by (auto simp: rehashed_def dest: mset_eq_setD)
qed

lemma rehashed_quiet: "rehashed f f' \<Longrightarrow> quiet (f, w) (f', w)"
  by (intro quiet_update [of _ _ "[]"]) (simp_all add: rehashed_parts)

text \<open>
  Envoy delivers the request headers once, first.  After that come callbacks in
  any order, and between them anything may happen to what the filter does not
  own: the queues, the channels, the route, the client and Envoy itself.
\<close>

inductive filter_step :: "'e ehf \<Rightarrow> 'e fw \<Rightarrow> 'e fw \<Rightarrow> bool" for ehf where
  callback: "(\<And>e. ev \<noteq> Fe_request_headers e) \<Longrightarrow> filter_step ehf fw (filter_act ehf ev fw)"
| elsewhere: "elog (w_host w') = elog (w_host w) \<Longrightarrow> filter_step ehf (f, w) (f, w')"
| reordered: "rehashed f f' \<Longrightarrow> filter_step ehf (f, w) (f', w)"

definition fresh_filter :: "rack_filter \<Rightarrow> bool" where
  "fresh_filter f \<longleftrightarrow> (\<exists>diag rt wt metric ctx settings. f = new_http_filter diag rt wt metric ctx settings)"

definition filter_begins :: "'e ehf \<Rightarrow> 'e fw \<Rightarrow> bool" where
  "filter_begins ehf fw \<longleftrightarrow>
     (\<exists>e f w. fresh_filter f \<and> elog (w_host w) = [] \<and> fw = on_request_headers ehf e (f, w))"

text \<open>The callbacks that can send downstream or report the outcome; every other one is quiet.\<close>

lemma quiet_filter_act:
  assumes "\<And>e. ev \<noteq> Fe_request_headers e" and "ev \<noteq> Fe_stream_complete"
    and "ev = Fe_scheduled RESPONSE_EVENT_ID \<Longrightarrow> f_state (fst fw) \<notin> {Waiting, Streaming}"
  shows "quiet fw (filter_act ehf ev fw)"
proof (cases fw)
  case (Pair f w)
  have pend: "quiet (f, w) (f\<lparr>request_end_pending := b\<rparr>, w)" for b
    by (intro quiet_update [of _ _ "[]"]) simp_all
  show ?thesis
  proof (cases ev)
    case (Fe_request_body b)
    then show ?thesis
      using quiet_trans [OF pend quiet_forward_request_body] by (simp add: Pair on_request_body_def)
  next
    case Fe_request_trailers
    then show ?thesis
      using quiet_trans [OF pend quiet_forward_request_body] by (simp add: Pair on_request_trailers_def)
  next
    case (Fe_scheduled i)
    then show ?thesis
      using assms(3) quiet_forward_request_body [of fw ehf] quiet_send_upstream_calls [of fw ehf]
      by (auto simp: on_scheduled_def)
  qed (use assms quiet_callback [of fw ehf] quiet_watermarks(1) [of fw] quiet_watermarks(2) [of fw ehf] in auto)
qed

section \<open>What goes downstream\<close>

datatype phase = Ph_none | Ph_open | Ph_done

fun next_phase :: "phase \<Rightarrow> envoy_call \<Rightarrow> phase option" where
  "next_phase Ph_none (Send_response _ _ _ _) = Some Ph_done"
| "next_phase Ph_none (Send_response_headers _ False) = Some Ph_open"
| "next_phase Ph_open (Send_response_data _ fin) = Some (if fin then Ph_done else Ph_open)"
| "next_phase Ph_open (Reset_stream _ _) = Some Ph_done"
| "next_phase _ _ = None"

fun phase_after :: "phase \<Rightarrow> envoy_call list \<Rightarrow> phase option" where
  "phase_after p [] = Some p"
| "phase_after p (c # cs) =
     (if \<not> downstream c then phase_after p cs
      else case next_phase p c of None \<Rightarrow> None | Some q \<Rightarrow> phase_after q cs)"

lemma phase_after_append:
  "phase_after p (xs @ ys) = (case phase_after p xs of None \<Rightarrow> None | Some q \<Rightarrow> phase_after q ys)"
  by (induction p xs rule: phase_after.induct) (auto split: option.splits)

lemma phase_after_quiet: "list_all quiet_call xs \<Longrightarrow> phase_after p xs = Some p"
  by (induction xs) (auto simp: quiet_call_neutral)

text \<open>Which phase each state of the filter stands for.\<close>

fun state_phase :: "filter_state \<Rightarrow> phase \<Rightarrow> bool" where
  "state_phase Collecting p = False"
| "state_phase Waiting p = (p = Ph_none)"
| "state_phase Streaming p = (p = Ph_open)"
| "state_phase Responded p = (p \<noteq> Ph_open)"

definition answer_inv :: "'e fw \<Rightarrow> bool" where
  "answer_inv fw \<longleftrightarrow> (\<exists>p. phase_after Ph_none (log_of fw) = Some p \<and> state_phase (f_state (fst fw)) p)"

lemma answer_inv_quiet: "answer_inv fw \<Longrightarrow> quiet fw fw' \<Longrightarrow> answer_inv fw'"
  by (auto simp: answer_inv_def quiet_def phase_after_append phase_after_quiet)

lemma report_outcome_log:
  "\<exists>xs. log_of (report_outcome ehf outcome fw) = log_of fw @ xs \<and> list_all (\<lambda>c. \<not> downstream c) xs"
  by (cases fw) (auto simp: log_of_def report_outcome_def with_metrics_def responded_def downstream_def
      split: option.splits)

lemma report_outcome_fields [simp]:
  "f_state (fst (report_outcome ehf outcome fw)) = f_state (fst fw)"
  "f_submitted_at (fst (report_outcome ehf outcome fw)) = None"
  "f_metrics (fst (report_outcome ehf outcome fw)) = f_metrics (fst fw)"
  by (cases fw; simp add: report_outcome_def)+

lemma phase_after_not_downstream: "list_all (\<lambda>c. \<not> downstream c) xs \<Longrightarrow> phase_after p xs = Some p"
  by (induction xs) auto

lemma downstream_simps [simp]:
  "downstream (Send_response a b c d)" "downstream (Send_response_headers hs e)"
  "downstream (Send_response_data x fin)" "downstream (Reset_stream r t)" "\<not> downstream (Metric m)"
  by (simp_all add: downstream_def)

lemma answer_inv_drain_item:
  assumes "answer_inv fw" and "f_state (fst fw) \<in> {Waiting, Streaming}"
    and "drain_item ehf item fw = (returned, fw')"
  shows "answer_inv fw'" and "\<not> returned \<Longrightarrow> f_state (fst fw') \<in> {Waiting, Streaming}"
proof -
  obtain f w where fw: "fw = (f, w)" by (cases fw)
  obtain p where p: "phase_after Ph_none (elog (w_host w)) = Some p" "state_phase (f_state f) p"
    using assms(1) by (auto simp: answer_inv_def log_of_def fw)
  have both: "answer_inv fw' \<and> (\<not> returned \<longrightarrow> f_state (fst fw') \<in> {Waiting, Streaming})"
  proof (cases item)
    case (Head h)
    then show ?thesis
      using assms p by (auto simp: fw drain_item_def send_response_head_def answer_inv_def log_of_def
          phase_after_append split: if_splits)
  next
    case (Chunk c)
    then show ?thesis
      using assms p by (auto simp: fw drain_item_def answer_inv_def log_of_def phase_after_append split: if_splits)
  next
    case End
    obtain f1 w1 where out: "report_outcome ehf OUTCOME_COMPLETED (f\<lparr>f_state := Responded, f_stream := None\<rparr>, w) = (f1, w1)"
      by (cases "report_outcome ehf OUTCOME_COMPLETED (f\<lparr>f_state := Responded, f_stream := None\<rparr>, w)")
    obtain xs where xs: "elog (w_host w1) = elog (w_host w) @ xs" "list_all (\<lambda>c. \<not> downstream c) xs"
      using report_outcome_log [of ehf OUTCOME_COMPLETED "(f\<lparr>f_state := Responded, f_stream := None\<rparr>, w)"]
      by (auto simp: out log_of_def)
    have "f_state f1 = Responded"
      using report_outcome_fields(1) [of ehf OUTCOME_COMPLETED "(f\<lparr>f_state := Responded, f_stream := None\<rparr>, w)"]
      by (simp add: out)
    then show ?thesis
      using assms p xs End out by (auto simp: fw drain_item_def answer_inv_def log_of_def Let_def
          phase_after_append phase_after_not_downstream)
  next
    case (Failed e)
    obtain f1 w1 where out: "report_outcome ehf OUTCOME_FAILED (f\<lparr>f_stream := None\<rparr>, w) = (f1, w1)"
      by (cases "report_outcome ehf OUTCOME_FAILED (f\<lparr>f_stream := None\<rparr>, w)")
    obtain xs where xs: "elog (w_host w1) = elog (w_host w) @ xs" "list_all (\<lambda>c. \<not> downstream c) xs"
      using report_outcome_log [of ehf OUTCOME_FAILED "(f\<lparr>f_stream := None\<rparr>, w)"] by (auto simp: out log_of_def)
    show ?thesis
      using assms p xs Failed out by (auto simp: fw drain_item_def answer_inv_def log_of_def Let_def
          send_bridge_error_def phase_after_append phase_after_not_downstream split: if_splits)
  qed
  then show "answer_inv fw'" "\<not> returned \<Longrightarrow> f_state (fst fw') \<in> {Waiting, Streaming}"
    by auto
qed

lemma answer_inv_put: "answer_inv fw \<Longrightarrow> answer_inv (fst fw, put_stream r s (snd fw))"
  by (simp add: answer_inv_def log_of_def)

lemma answer_inv_drain_loop:
  "answer_inv fw \<Longrightarrow> f_state (fst fw) \<in> {Waiting, Streaming} \<Longrightarrow> answer_inv (snd (drain_loop ehf r fw))"
proof (induction ehf r fw rule: drain_loop.induct)
  case (1 ehf r fw)
  obtain i s where next_item: "take_next (get_stream r (snd fw)) = (i, s)" by (cases "take_next (get_stream r (snd fw))")
  note put = answer_inv_put [OF 1(2), of r s]
  show ?case
  proof (cases i)
    case None
    then show ?thesis
      using next_item put by (simp add: drain_loop.simps [of ehf r fw])
  next
    case (Some item)
    obtain returned fw1 where item: "drain_item ehf item (fst fw, put_stream r s (snd fw)) = (returned, fw1)"
      by (cases "drain_item ehf item (fst fw, put_stream r s (snd fw))")
    note step = answer_inv_drain_item [OF put _ item]
    show ?thesis
    proof (cases returned)
      case True
      then show ?thesis
        using next_item Some item step(1) 1(3) by (simp add: drain_loop.simps [of ehf r fw])
    next
      case False
      then show ?thesis
        using next_item Some item 1(1) [OF next_item [symmetric] Some item [symmetric] False] step 1(3)
        by (simp add: drain_loop.simps [of ehf r fw])
    qed
  qed
qed

lemma answer_inv_drain_stream:
  assumes "answer_inv fw" and "f_state (fst fw) \<in> {Waiting, Streaming}"
  shows "answer_inv (drain_stream ehf fw)"
proof (cases "f_stream (fst fw)")
  case (Some r)
  obtain returned f1 w1 where l: "drain_loop ehf r fw = (returned, f1, w1)" by (cases "drain_loop ehf r fw")
  then have "answer_inv (f1, w1)"
    using answer_inv_drain_loop [OF assms, of ehf r] by simp
  then show ?thesis
    using answer_inv_quiet [OF _ quiet_wake(1)] by (auto simp: drain_stream_def Some l Let_def)
qed (simp add: drain_stream_def assms)

lemma quiet_count_calls: "quiet (f, w) (f, fold (\<lambda>(c, x). count_call ehf f' c x) xs w)"
proof (induction xs arbitrary: w)
  case (Cons x xs)
  obtain c y where x: "x = (c, y)" by (cases x)
  show ?case
    using quiet_trans [OF quiet_count_call Cons.IH] by (simp add: x)
qed simp

lemma on_stream_complete_quiet_after:
  "quiet (report_outcome ehf OUTCOME_CANCELLED fw) (on_stream_complete ehf fw)"
proof -
  obtain over f w where a: "abandon_upstreams (report_outcome ehf OUTCOME_CANCELLED fw) = (over, f, w)"
    by (cases "abandon_upstreams (report_outcome ehf OUTCOME_CANCELLED fw)") auto
  have "quiet (report_outcome ehf OUTCOME_CANCELLED fw) (f, w)"
    using quiet_abandon_upstreams [of "report_outcome ehf OUTCOME_CANCELLED fw"] by (simp add: a)
  then show ?thesis
    using quiet_trans quiet_count_calls by (simp add: on_stream_complete_def a) blast
qed

lemma answer_inv_stream_complete: "answer_inv fw \<Longrightarrow> answer_inv (on_stream_complete ehf fw)"
proof -
  assume inv: "answer_inv fw"
  obtain xs where "log_of (report_outcome ehf OUTCOME_CANCELLED fw) = log_of fw @ xs" "list_all (\<lambda>c. \<not> downstream c) xs"
    using report_outcome_log by blast
  then have "answer_inv (report_outcome ehf OUTCOME_CANCELLED fw)"
    using inv by (auto simp: answer_inv_def phase_after_append phase_after_not_downstream)
  then show ?thesis
    using on_stream_complete_quiet_after by (rule answer_inv_quiet)
qed

lemma answer_inv_act:
  assumes "answer_inv fw" and "\<And>e. ev \<noteq> Fe_request_headers e"
  shows "answer_inv (filter_act ehf ev fw)"
proof (cases "ev = Fe_stream_complete \<or> (ev = Fe_scheduled RESPONSE_EVENT_ID \<and> f_state (fst fw) \<in> {Waiting, Streaming})")
  case True
  moreover have "RESPONSE_EVENT_ID \<noteq> REQUEST_EVENT_ID" "RESPONSE_EVENT_ID \<noteq> UPSTREAM_EVENT_ID"
    by (simp_all add: RESPONSE_EVENT_ID_def REQUEST_EVENT_ID_def UPSTREAM_EVENT_ID_def)
  ultimately show ?thesis
    using answer_inv_stream_complete [OF assms(1)] answer_inv_drain_stream [OF assms(1)]
    by (auto simp: on_scheduled_def)
next
  case False
  then show ?thesis
    using answer_inv_quiet [OF assms(1) quiet_filter_act] assms(2) by blast
qed

section \<open>How a request begins\<close>

lemma report_admission_log:
  "\<exists>m. elog (w_host (report_admission ehf f refused w)) = elog (w_host w) @ m \<and> list_all (\<lambda>c. \<not> downstream c) m"
  by (auto simp: report_admission_def with_metrics_def submitted_def rejected_def split: option.splits)

text \<open>
  Submission of a request that was copied: the client either took it, and the
  filter waits with nothing sent, or refused it, and the refusal was sent.
\<close>

lemma submit_request_log:
  assumes "f_request f = Some request" and "submit_request ehf (f, w) = (f', w')"
  shows "(f_state f' = Waiting \<and> (\<exists>at. f_submitted_at f' = Some at) \<and> f_metrics f' = f_metrics f \<and>
      elog (w_host w') = elog (w_host w) @
        (case f_metrics f of None \<Rightarrow> [] | Some m \<Rightarrow> [Metric (Increment_counter (m_requests m) 1)])) \<or>
    (\<exists>body. f_state f' = Responded \<and> f_submitted_at f' = f_submitted_at f \<and> f_metrics f' = f_metrics f \<and>
      elog (w_host w') = elog (w_host w) @
        (case f_metrics f of None \<Rightarrow> []
         | Some m \<Rightarrow> [Metric (Increment_counter_vec (m_rejected m) [REJECTED_ADMISSION] 1)]) @
        [Send_response 503 [(''content-type'', ''text/plain''), (''x-ruvoy-error'', ''true'')] (Some body)
           (Some ''ruvoy_fiber_submit_failed'')])"
  using assms
  by (auto simp: submit_request_def alloc_stream_def report_admission_def with_metrics_def submitted_def
      rejected_def send_bridge_error_def Let_def split: option.splits prod.splits sum.splits)

text \<open>How the filter stands after the headers, whichever way they went.\<close>

definition admitted_log :: "metrics option \<Rightarrow> envoy_call list \<Rightarrow> bool" where
  "admitted_log m log \<longleftrightarrow> (\<exists>xs. list_all quiet_call xs \<and>
     log = (case m of None \<Rightarrow> [] | Some m \<Rightarrow> [Metric (Increment_counter (m_requests m) 1)]) @ xs)"

definition refused_log :: "metrics option \<Rightarrow> envoy_call list \<Rightarrow> bool" where
  "refused_log m log \<longleftrightarrow> (\<exists>xs reason a b c d. list_all quiet_call xs \<and>
     log = (case m of None \<Rightarrow> [] | Some m \<Rightarrow> [Metric (Increment_counter_vec (m_rejected m) [reason] 1)]) @
       Send_response a b c d # xs)"

lemma admitted_log_append: "admitted_log m log \<Longrightarrow> list_all quiet_call ys \<Longrightarrow> admitted_log m (log @ ys)"
  by (fastforce simp: admitted_log_def)

lemma refused_log_append: "refused_log m log \<Longrightarrow> list_all quiet_call ys \<Longrightarrow> refused_log m (log @ ys)"
  unfolding refused_log_def by (elim exE, rule_tac x = "xs @ ys" in exI) auto

lemma admitted_logI:
  "log = (case m of None \<Rightarrow> [] | Some m \<Rightarrow> [Metric (Increment_counter (m_requests m) 1)]) \<Longrightarrow> admitted_log m log"
  by (simp add: admitted_log_def)

lemma refused_logI:
  "log = (case m of None \<Rightarrow> [] | Some m \<Rightarrow> [Metric (Increment_counter_vec (m_rejected m) [reason] 1)]) @
     [Send_response a b c d] \<Longrightarrow> refused_log m log"
  unfolding refused_log_def by (rule exI [of _ "[]"]) auto

definition begun :: "'e fw \<Rightarrow> bool" where
  "begun fw \<longleftrightarrow>
     (f_state (fst fw) = Waiting \<and> (\<exists>at. f_submitted_at (fst fw) = Some at) \<and>
        admitted_log (f_metrics (fst fw)) (log_of fw)) \<or>
     (f_state (fst fw) = Responded \<and> f_submitted_at (fst fw) = None \<and>
        refused_log (f_metrics (fst fw)) (log_of fw))"

lemma begun_quiet: "begun fw \<Longrightarrow> quiet fw fw' \<Longrightarrow> begun fw'"
  by (auto simp: begun_def quiet_def admitted_log_append refused_log_append)

lemma begins_begun: "filter_begins ehf fw \<Longrightarrow> begun fw"
proof -
  assume "filter_begins ehf fw"
  then obtain e f w where new: "fresh_filter f" and empty: "elog (w_host w) = []"
      and fw: "fw = on_request_headers ehf e (f, w)"
    by (auto simp: filter_begins_def)
  have unsubmitted: "f_submitted_at f = None"
    using new by (auto simp: fresh_filter_def new_http_filter_def)
  show ?thesis
  proof (cases "copy_headers ehf (instant_now ehf (envoy w)) f (envoy w)")
    case (Inl message)
    have "refused_log (f_metrics f) (log_of fw)"
      using empty by (intro refused_logI [where reason = REJECTED_INVALID_REQUEST])
        (auto simp: fw Inl on_request_headers_def send_invalid_request_def send_bridge_error_def
          log_of_def with_metrics_def rejected_def split: option.splits)
    then show ?thesis
      using unsubmitted by (simp add: begun_def fw Inl on_request_headers_def send_invalid_request_def
          send_bridge_error_def)
  next
    case (Inr request)
    obtain f1 w1 where sub: "submit_request ehf (f\<lparr>f_request := Some request\<rparr>, w) = (f1, w1)"
      by (cases "submit_request ehf (f\<lparr>f_request := Some request\<rparr>, w)")
    have "begun (f1, w1)"
      using submit_request_log [OF _ sub] empty unsubmitted
      by (auto simp: begun_def log_of_def intro!: admitted_logI refused_logI)
    then have "begun (f1\<lparr>request_end_pending := e\<rparr>, w1)"
      by (simp add: begun_def log_of_def)
    moreover from this have "begun (forward_request_body ehf (f1\<lparr>request_end_pending := e\<rparr>, w1))"
      using begun_quiet [OF _ quiet_forward_request_body] by blast
    ultimately show ?thesis
      by (cases e) (simp_all add: fw on_request_headers_def Inr sub Let_def)
  qed
qed

lemma begun_answer: "begun fw \<Longrightarrow> answer_inv fw"
  by (auto simp: begun_def admitted_log_def refused_log_def answer_inv_def phase_after_append
      phase_after_quiet split: option.splits)

interpretation answers: inductive_invariant "filter_begins ehf" "filter_step ehf" answer_inv for ehf :: "'e ehf"
proof unfold_locales
  fix fw :: "'e fw" assume "filter_begins ehf fw"
  then show "answer_inv fw"
    by (intro begun_answer begins_begun)
next
  fix fw fw' :: "'e fw" assume inv: "answer_inv fw" and "filter_step ehf fw fw'"
  from this(2) show "answer_inv fw'"
  proof cases
    case (callback ev)
    then show ?thesis
      using answer_inv_act [OF inv] by simp
  next
    case (elsewhere w' w f)
    then show ?thesis
      using inv by (simp add: answer_inv_def log_of_def)
  next
    case (reordered f f' w)
    then show ?thesis
      using answer_inv_quiet [OF inv] rehashed_quiet by blast
  qed
qed

section \<open>The balance of the metrics\<close>

definition requests_counted :: "envoy_call list \<Rightarrow> nat" where
  "requests_counted log = length (filter counts_request log)"

definition responses_counted :: "metrics \<Rightarrow> envoy_call list \<Rightarrow> nat" where
  "responses_counted m log = length (filter (counts_response (m_responses m)) log)"

definition balance_inv :: "'e fw \<Rightarrow> bool" where
  "balance_inv fw \<longleftrightarrow>
     (\<forall>m. f_metrics (fst fw) = Some m \<and> m_responses m \<noteq> m_rejected m \<longrightarrow>
        requests_counted (log_of fw) =
          responses_counted m (log_of fw) + (if f_submitted_at (fst fw) = None then 0 else 1) \<and>
        requests_counted (log_of fw) \<le> 1)"

lemma quiet_counts_nothing:
  "list_all quiet_call xs \<Longrightarrow> filter counts_request xs = [] \<and> filter (counts_response i) xs = []"
  by (induction xs) (auto simp: quiet_call_neutral)

lemma balance_quiet: "balance_inv fw \<Longrightarrow> quiet fw fw' \<Longrightarrow> balance_inv fw'"
  by (auto simp: balance_inv_def quiet_def requests_counted_def responses_counted_def quiet_counts_nothing)

lemma balance_report: "balance_inv fw \<Longrightarrow> balance_inv (report_outcome ehf outcome fw)"
  by (cases fw) (auto simp: balance_inv_def report_outcome_def with_metrics_def responded_def log_of_def
      requests_counted_def responses_counted_def counts_request_def counts_response_def split: option.splits)

lemma balance_send:
  assumes "balance_inv (f, w)" and "downstream c"
    and "f_metrics f' = f_metrics f" and "f_submitted_at f' = f_submitted_at f"
  shows "balance_inv (f', call_envoy ehf c w)"
proof -
  have "\<not> counts_request c" "\<not> counts_response i c" for i
    using assms(2) by (auto simp: downstream_def counts_request_def counts_response_def split: envoy_call.splits)
  then show ?thesis
    using assms(1,3,4) by (auto simp: balance_inv_def log_of_def requests_counted_def responses_counted_def)
qed

lemma balance_fields:
  assumes "balance_inv (f, w)" and "f_metrics f' = f_metrics f" and "f_submitted_at f' = f_submitted_at f"
    and "elog (w_host w') = elog (w_host w)"
  shows "balance_inv (f', w')"
  using assms unfolding balance_inv_def log_of_def by auto

lemma balance_drain_item:
  assumes "balance_inv fw"
  shows "balance_inv (snd (drain_item ehf item fw))"
proof (cases fw)
  case (Pair f w)
  note inv = assms [unfolded Pair]
  show ?thesis
  proof (cases item)
    case End
    have "balance_inv (report_outcome ehf OUTCOME_COMPLETED (f\<lparr>f_state := Responded, f_stream := None\<rparr>, w))"
      by (rule balance_report, rule balance_fields [OF inv]) simp_all
    then show ?thesis
      by (auto simp: Pair End drain_item_def Let_def intro: balance_send split: prod.splits)
  next
    case (Failed e)
    have "balance_inv (report_outcome ehf OUTCOME_FAILED (f\<lparr>f_stream := None\<rparr>, w))"
      by (rule balance_report, rule balance_fields [OF inv]) simp_all
    then show ?thesis
      by (auto simp: Pair Failed drain_item_def Let_def send_bridge_error_def intro: balance_send split: prod.splits)
  qed (use inv in \<open>auto simp: Pair drain_item_def send_response_head_def intro: balance_send\<close>)
qed

lemma balance_drain_loop: "balance_inv fw \<Longrightarrow> balance_inv (snd (drain_loop ehf r fw))"
proof (induction ehf r fw rule: drain_loop.induct)
  case (1 ehf r fw)
  have put: "balance_inv (fst fw, put_stream r s (snd fw))" for s
    using 1(2) by (cases fw) (auto intro: balance_fields)
  show ?case
    using 1(1) put balance_drain_item [OF put]
    by (simp add: drain_loop.simps [of ehf r fw] split: prod.splits option.splits) (metis snd_conv)
qed

lemma balance_act:
  assumes "balance_inv fw" and "\<And>e. ev \<noteq> Fe_request_headers e"
  shows "balance_inv (filter_act ehf ev fw)"
proof -
  consider "ev = Fe_stream_complete" | "ev = Fe_scheduled RESPONSE_EVENT_ID" "f_state (fst fw) \<in> {Waiting, Streaming}"
    | "quiet fw (filter_act ehf ev fw)"
    using quiet_filter_act [of ev fw ehf] assms(2) by blast
  then show ?thesis
  proof cases
    case 1
    then show ?thesis
      using balance_quiet [OF balance_report [OF assms(1)] on_stream_complete_quiet_after] by simp
  next
    case 2
    have "balance_inv (drain_stream ehf fw)"
    proof (cases "f_stream (fst fw)")
      case (Some r)
      obtain returned f1 w1 where l: "drain_loop ehf r fw = (returned, f1, w1)" by (cases "drain_loop ehf r fw")
      then have "balance_inv (f1, w1)"
        using balance_drain_loop [OF assms(1), of ehf r] by simp
      then show ?thesis
        using balance_quiet [OF _ quiet_wake(1)] by (auto simp: drain_stream_def Some l Let_def)
    qed (simp add: drain_stream_def assms)
    then show ?thesis
      using 2 by (simp add: on_scheduled_def RESPONSE_EVENT_ID_def REQUEST_EVENT_ID_def UPSTREAM_EVENT_ID_def)
  qed (rule balance_quiet [OF assms(1)])
qed

lemma begun_balance: "begun fw \<Longrightarrow> balance_inv fw"
  by (auto simp: begun_def admitted_log_def refused_log_def balance_inv_def requests_counted_def responses_counted_def counts_request_def
      counts_response_def dest!: quiet_counts_nothing split: option.splits)

interpretation balances: inductive_invariant "filter_begins ehf" "filter_step ehf" balance_inv for ehf :: "'e ehf"
proof unfold_locales
  fix fw :: "'e fw" assume "filter_begins ehf fw"
  then show "balance_inv fw"
    by (intro begun_balance begins_begun)
next
  fix fw fw' :: "'e fw" assume inv: "balance_inv fw" and "filter_step ehf fw fw'"
  from this(2) show "balance_inv fw'"
  proof cases
    case (callback ev)
    then show ?thesis
      using balance_act [OF inv] by simp
  next
    case (elsewhere w' w f)
    then show ?thesis
      using inv balance_fields by blast
  next
    case (reordered f f' w)
    then show ?thesis
      using balance_quiet [OF inv] rehashed_quiet by blast
  qed
qed

section \<open>What a drain sends\<close>

text \<open>The items of the response queue as calls downstream, by how far the answer has got.\<close>

fun answer_calls :: "rack_filter \<Rightarrow> filter_state \<Rightarrow> stream_item list \<Rightarrow> envoy_call list" where
  "answer_calls f st [] = []"
| "answer_calls f st (Head h # xs) =
     (if st = Waiting then Send_response_headers (response_headers f h) False # answer_calls f Streaming xs
      else answer_calls f st xs)"
| "answer_calls f st (Chunk c # xs) =
     (if st = Streaming then Send_response_data c False # answer_calls f st xs else answer_calls f st xs)"
| "answer_calls f st (End # xs) = (if st = Streaming then [Send_response_data [] True] else [])"
| "answer_calls f st (Failed e # xs) =
     (if st = Waiting
      then [Send_response 500 [(''content-type'', ''text/plain''), (''x-ruvoy-error'', ''true'')]
              (Some (display_error e)) (Some ''ruvoy_fiber_ruby_error'')]
      else [Reset_stream LocalReset ''ruvoy_fiber_ruby_error''])"

definition sent_downstream :: "'e world \<Rightarrow> envoy_call list" where
  "sent_downstream w = filter downstream (elog (w_host w))"

lemma answer_calls_config:
  "diagnostics_enabled f' = diagnostics_enabled f \<Longrightarrow> runtime_thread_id f' = runtime_thread_id f \<Longrightarrow>
   worker_thread_id f' = worker_thread_id f \<Longrightarrow> answer_calls f' st xs = answer_calls f st xs"
  by (induction f st xs rule: answer_calls.induct) (simp_all add: response_headers_def)

lemma sent_downstream_frame [simp]:
  "sent_downstream (call_envoy ehf c w) = sent_downstream w @ (if downstream c then [c] else [])"
  "sent_downstream (put_stream r s w) = sent_downstream w"
  "sent_downstream (client_wake r w) = sent_downstream w"
  "sent_downstream (with_metrics f (\<lambda>m. responded ehf m outcome d) w) = sent_downstream w"
  by (simp_all add: sent_downstream_def with_metrics_def responded_def split: option.splits)

lemma drain_item_sends:
  assumes "drain_item ehf item (f, w) = (returned, f1, w1)"
  shows "sent_downstream w1 @ (if returned then [] else answer_calls f1 (f_state f1) xs) =
      sent_downstream w @ answer_calls f (f_state f) (item # xs)"
    and "returned = is_terminal item"
proof -
  have config: "answer_calls (f\<lparr>f_state := st\<rparr>) st' xs = answer_calls f st' xs" for st st'
    by (rule answer_calls_config) simp_all
  show "sent_downstream w1 @ (if returned then [] else answer_calls f1 (f_state f1) xs) =
      sent_downstream w @ answer_calls f (f_state f) (item # xs)"
    using assms by (cases item) (auto simp: drain_item_def send_response_head_def send_bridge_error_def
        report_outcome_def Let_def config split: if_splits option.splits)
  show "returned = is_terminal item"
    using assms by (cases item) (auto simp: drain_item_def Let_def split: prod.splits)
qed

lemma take_next_open:
  "\<not> paused s \<Longrightarrow> items s = i # xs \<Longrightarrow> \<exists>s'. take_next s = (Some i, s') \<and> items s' = xs \<and> \<not> paused s'"
  by (cases i) (simp_all add: take_next_def)

lemma drain_loop_sends:
  assumes "\<not> paused (get_stream r (snd fw))" and "drain_loop ehf r fw = (returned, f1, w1)"
  shows "sent_downstream w1 = sent_downstream (snd fw) @
      answer_calls (fst fw) (f_state (fst fw)) (items (get_stream r (snd fw)))"
    and "returned = list_ex is_terminal (items (get_stream r (snd fw)))"
    and "\<not> returned \<Longrightarrow> items (get_stream r w1) = []"
proof -
  have "sent_downstream w1 = sent_downstream (snd fw) @
      answer_calls (fst fw) (f_state (fst fw)) (items (get_stream r (snd fw))) \<and>
      returned = list_ex is_terminal (items (get_stream r (snd fw))) \<and>
      (\<not> returned \<longrightarrow> items (get_stream r w1) = [])"
    using assms
  proof (induction "items (get_stream r (snd fw))" arbitrary: fw)
    case Nil
    then show ?case
      by (auto simp: drain_loop.simps [of ehf r fw] take_next_def Nil(1) [symmetric])
  next
    case (Cons i xs)
    obtain s where s: "take_next (get_stream r (snd fw)) = (Some i, s)" "items s = xs" "\<not> paused s"
      using take_next_open [OF Cons.prems(1) Cons.hyps(2) [symmetric]] by blast
    obtain b f2 w2 where item: "drain_item ehf i (fst fw, put_stream r s (snd fw)) = (b, f2, w2)"
      by (cases "drain_item ehf i (fst fw, put_stream r s (snd fw))") auto
    note sends = drain_item_sends [OF item]
    have rest: "get_stream r w2 = s"
      using drain_item_frame [of r ehf i "(fst fw, put_stream r s (snd fw))"] by (simp add: item)
    show ?case
    proof (cases b)
      case True
      then show ?thesis
        using Cons.prems(2) s item sends(1) [of xs] sends(2) by (simp add: drain_loop.simps [of ehf r fw] flip: Cons.hyps(2))
    next
      case False
      then have "drain_loop ehf r (f2, w2) = (returned, f1, w1)"
        using Cons.prems(2) s item by (simp add: drain_loop.simps [of ehf r fw])
      then show ?thesis
        using Cons.hyps(1) [of "(f2, w2)"] rest s sends(1) [of xs] sends(2) False by (simp flip: Cons.hyps(2))
    qed
  qed
  then show "sent_downstream w1 = sent_downstream (snd fw) @
      answer_calls (fst fw) (f_state (fst fw)) (items (get_stream r (snd fw)))"
    "returned = list_ex is_terminal (items (get_stream r (snd fw)))"
    "\<not> returned \<Longrightarrow> items (get_stream r w1) = []"
    by auto
qed

section \<open>A life of the sample request\<close>

text \<open>The headers arrive, the runtime answers, the response is drained, and the request is over.\<close>

definition sample_begun :: "sample_state fw" where
  "sample_begun = on_request_headers sample_ehf True (sample_filter, sample_world ([], []))"

definition sample_head :: response_head where
  "sample_head = \<lparr> head_status = 200, head_headers = [(''content-type'', ''text/plain''), (''rack.hijack'', ''x'')],
     head_thread = 1 \<rparr>"

definition sample_produced :: "sample_state fw \<Rightarrow> sample_state fw" where
  "sample_produced fw =
     (fst fw, put_stream (Plain 1) (run stream_act [Op_push_head sample_head, Op_push_chunk ''hi'', Op_push_end]
        (get_stream (Plain 1) (snd fw))) (snd fw))"

definition sample_answered :: "sample_state fw" where
  "sample_answered = on_scheduled sample_ehf RESPONSE_EVENT_ID (sample_produced sample_begun)"

lemma sample_begun_reachable:
  "reachable (filter_begins sample_ehf) (filter_step sample_ehf) sample_begun"
proof -
  have "fresh_filter sample_filter"
    unfolding fresh_filter_def sample_filter_def by blast
  moreover have "elog (w_host (sample_world ([], []))) = []"
    by (simp add: sample_world_def)
  ultimately show ?thesis
    unfolding sample_begun_def by (blast intro: reachable_init filter_begins_def [THEN iffD2])
qed

lemma sample_answered_reachable:
  "reachable (filter_begins sample_ehf) (filter_step sample_ehf) sample_answered"
proof -
  have "filter_step sample_ehf fw (sample_produced fw)" for fw
    by (cases fw) (simp add: sample_produced_def filter_step.elsewhere)
  moreover have "filter_step sample_ehf fw (on_scheduled sample_ehf RESPONSE_EVENT_ID fw)" for fw
    using filter_step.callback [of "Fe_scheduled RESPONSE_EVENT_ID" sample_ehf fw] by simp
  ultimately show ?thesis
    unfolding sample_answered_def using sample_begun_reachable by (blast intro: reachable_step)
qed

lemma sample_begun_shape:
  obtains f w where "sample_begun = (f, w)" "f_state f = Waiting" "f_stream f = Some (Plain 1)"
    "f_metrics f = Some sample_metrics" "f_submitted_at f = Some 0" "diagnostics_enabled f = False"
    "elog (w_host w) = [Metric (Increment_counter 1 1)]" "get_stream (Plain 1) w = new_stream MAX_BUFFERED_BODY_BYTES"
proof -
  obtain request where copied: "copy_headers sample_ehf (instant_now sample_ehf (envoy (sample_world ([], []))))
      sample_filter (envoy (sample_world ([], []))) = Inr request" "diagnostics request = None"
    using sample_copied by blast
  have begun: "sample_begun = (let (f1, w1) = submit_request sample_ehf (sample_filter\<lparr>f_request := Some request\<rparr>,
      sample_world ([], [])) in forward_request_body sample_ehf (f1\<lparr>request_end_pending := True\<rparr>, w1))"
    by (simp add: sample_begun_def on_request_headers_def copied(1))
  show thesis
    by (intro that [of "fst sample_begun" "snd sample_begun"])
      (simp_all add: begun copied(2) submit_request_def alloc_stream_def Let_def
          submit_def try_acquire_def does_not_fit_def saturating_sub_def send_and_wake_def forward_request_body_def copy_available_def copy_body_def
          call_envoy_def envoy_def client_wake_def report_admission_def with_metrics_def submitted_def
          push_end_def push_def sample_filter_def new_http_filter_def sample_world_def sample_client_def
          sample_ehf_simps sample_metrics_def)
qed

lemma sample_answered_sent:
  "sent_downstream (snd sample_answered) =
     [Send_response_headers [('':status'', ''200''), (''content-type'', ''text/plain'')] False,
      Send_response_data ''hi'' False, Send_response_data [] True]"
proof -
  obtain f w where b: "sample_begun = (f, w)" "f_state f = Waiting" "f_stream f = Some (Plain 1)"
    "diagnostics_enabled f = False" "elog (w_host w) = [Metric (Increment_counter 1 1)]"
    "get_stream (Plain 1) w = new_stream MAX_BUFFERED_BODY_BYTES"
    by (rule sample_begun_shape)
  let ?fw = "sample_produced (f, w)"
  have queue: "items (get_stream (Plain 1) (snd ?fw)) = [Head sample_head, Chunk ''hi'', End]"
      "\<not> paused (get_stream (Plain 1) (snd ?fw))"
    unfolding sample_produced_def snd_conv put_stream_simps b(6)
    by (simp_all add: push_head_def push_chunk_def push_end_def push_def new_stream_def)
  obtain returned f1 w1 where l: "drain_loop sample_ehf (Plain 1) ?fw = (returned, f1, w1)"
    by (cases "drain_loop sample_ehf (Plain 1) ?fw")
  have texts: "starts_with ''content-type'' '':'' = False" "starts_with ''content-type'' ''rack.'' = False"
      "starts_with ''rack.hijack'' ''rack.''" "show_nat 200 = ''200''"
    by code_simp+
  have head: "response_headers f sample_head = [('':status'', ''200''), (''content-type'', ''text/plain'')]"
    using texts b(4) by (simp add: response_headers_def sample_head_def)
  have answered: "sample_answered = drain_stream sample_ehf ?fw"
    using b(2) by (simp add: sample_answered_def b(1) on_scheduled_def sample_produced_def RESPONSE_EVENT_ID_def
        REQUEST_EVENT_ID_def UPSTREAM_EVENT_ID_def)
  have "fst ?fw = f" "sent_downstream (snd ?fw) = []"
    by (simp_all add: sample_produced_def sent_downstream_def b(5))
  then show ?thesis
    using drain_loop_sends(1,2) [OF queue(2) l] b(2,3) queue(1) by (simp add: answered drain_stream_def l head del: One_nat_def get_stream.simps)
qed

section \<open>Properties\<close>

text \<open>
  C2. Whatever callbacks come and whatever happens in between, what the filter
  sends downstream is one well-formed answer: a whole local reply and nothing
  else, or one set of headers, then data, then the end or a reset and nothing
  after it; and the filter's state says how far it got.
\<close>

theorem one_answer_downstream:
  assumes "reachable (filter_begins ehf) (filter_step ehf) fw"
  shows "\<exists>p. phase_after Ph_none (log_of fw) = Some p \<and> state_phase (f_state (fst fw)) p"
  using answers.inv_reachable [OF assms] by (simp add: answer_inv_def)

theorem one_answer_downstream_witness:
  "(\<exists>p. phase_after Ph_none (log_of sample_answered) = Some p \<and> state_phase (f_state (fst sample_answered)) p) \<and>
   length (sent_downstream (snd sample_answered)) = 3"
  using one_answer_downstream [OF sample_answered_reachable] sample_answered_sent by simp

text \<open>
  Draining an unpaused response queue sends exactly what the items mean, in
  their order, up to the first end or failure: the head once, every chunk after
  it, and then the end, a reset, or, if no head was sent, an error reply.  It
  leaves nothing queued unless the answer is over.
\<close>

theorem drain_sends_the_queue:
  assumes "f_stream f = Some r" and "\<not> paused (get_stream r w)"
  shows "sent_downstream (snd (drain_stream ehf (f, w))) =
      sent_downstream w @ answer_calls f (f_state f) (items (get_stream r w)) \<and>
    (list_ex is_terminal (items (get_stream r w)) \<or> items (get_stream r (snd (drain_stream ehf (f, w)))) = [])"
proof -
  obtain returned f1 w1 where l: "drain_loop ehf r (f, w) = (returned, f1, w1)"
    by (cases "drain_loop ehf r (f, w)")
  show ?thesis
    using drain_loop_sends [of r "(f, w)", OF _ l] assms by (auto simp: drain_stream_def l)
qed

theorem drain_sends_the_queue_witness:
  "sent_downstream (snd (drain_stream sample_ehf
      (sample_filter\<lparr>f_stream := Some (Plain 0), f_state := Waiting\<rparr>,
       put_stream (Plain 0) ((new_stream 9)\<lparr>items := [Failed Overloaded, Chunk ''late'']\<rparr>) (sample_world ([], []))))) =
   [Send_response 500 [(''content-type'', ''text/plain''), (''x-ruvoy-error'', ''true'')]
      (Some (display_error Overloaded)) (Some ''ruvoy_fiber_ruby_error'')]"
  by (subst drain_sends_the_queue [THEN conjunct1]) (auto simp: new_stream_def sent_downstream_def sample_world_def)



end
