(* ===== verification/Request_End.thy ===== *)
theory Request_End
  imports Worker_Properties
begin

text \<open>
  The end of a request in worker.rs (\<open>abandon_upstreams\<close>, \<open>on_stream_complete\<close>,
  \<open>Drop\<close>): whatever upstream calls and streams are still open are settled, every
  fiber parked on one of them is owed a wakeup, each is counted once, and no
  later call is taken.
\<close>

section \<open>What the request still waits for\<close>

definition settled :: "response_stream \<Rightarrow> bool" where
  "settled s \<longleftrightarrow> cancelled s \<or> ended s"

definition is_owed :: "stream_ref \<Rightarrow> 'e world \<Rightarrow> bool" where
  "is_owed r w \<longleftrightarrow> r \<in> set (owed (w_client w))"

text \<open>Calls by the queue their fiber reads and the cluster they went to, sent or not.\<close>

definition open_calls :: "'e fw \<Rightarrow> (nat \<times> string) list" where
  "open_calls fw = (case fw of (f, w) \<Rightarrow>
     (if f_upstreams f = None then [] else map (\<lambda>r. (ur_response r, ur_cluster r)) (queued (w_route w))) @
     map (\<lambda>(_, call). (pc_response call, pc_cluster call)) (f_upstream_calls f))"

definition open_channels :: "'e fw \<Rightarrow> (nat \<times> string) list" where
  "open_channels fw = (case fw of (f, w) \<Rightarrow>
     (if f_upstreams f = None then [] else map (\<lambda>r. (us_channel r, us_cluster r)) (queued_streams (w_route w))) @
     map (\<lambda>(_, os). (os_channel os, os_cluster os)) (f_upstream_streams f))"

text \<open>
  A call is over for its fiber when its queue is settled and owed; a stream when
  both its queues are, the second only if someone is parked on it.
\<close>

definition call_over :: "nat \<Rightarrow> 'e world \<Rightarrow> bool" where
  "call_over r w \<longleftrightarrow> settled (get_stream (Plain r) w) \<and> is_owed (Plain r) w"

definition channel_over :: "nat \<Rightarrow> 'e world \<Rightarrow> bool" where
  "channel_over c w \<longleftrightarrow>
     settled (get_stream (Chan_response c) w) \<and> is_owed (Chan_response c) w \<and>
     cancelled (get_stream (Chan_request c) w) \<and>
     (waiter (get_stream (Chan_request c) w) = None \<or> is_owed (Chan_request c) w)"

section \<open>Nothing is undone\<close>

definition onward :: "'e world \<Rightarrow> 'e world \<Rightarrow> bool" where
  "onward w w' \<longleftrightarrow>
     (\<forall>r. (settled (get_stream r w) \<longrightarrow> settled (get_stream r w')) \<and>
          (cancelled (get_stream r w) \<longrightarrow> cancelled (get_stream r w')) \<and>
          waiter (get_stream r w') = waiter (get_stream r w) \<and>
          (is_owed r w \<longrightarrow> is_owed r w')) \<and>
     w_route w' = w_route w"

lemma onward_refl [simp]: "onward w w"
  by (simp add: onward_def)

lemma onward_trans [trans]: "onward a b \<Longrightarrow> onward b c \<Longrightarrow> onward a c"
  by (simp add: onward_def)

lemma call_over_onward: "call_over r w \<Longrightarrow> onward w w' \<Longrightarrow> call_over r w'"
  by (auto simp: call_over_def onward_def)

lemma channel_over_onward: "channel_over c w \<Longrightarrow> onward w w' \<Longrightarrow> channel_over c w'"
  unfolding channel_over_def onward_def by metis

lemma is_owed_simps [simp]:
  "is_owed r (client_wake q w) \<longleftrightarrow> r = q \<or> is_owed r w"
  "is_owed r (put_stream q s w) \<longleftrightarrow> is_owed r w"
  "is_owed r (put_channel c ch w) \<longleftrightarrow> is_owed r w"
  by (auto simp: is_owed_def client_wake_def wake_body_def owe_def put_channel_def)

lemma onward_wake [simp]: "onward w (client_wake r w)" "onward w (wake_stream c w)"
  by (auto simp: onward_def wake_stream_def client_wake_def Let_def is_owed_def wake_body_def owe_def)

lemma get_put_stream: "get_stream q (put_stream r s w) = (if q = r then s else get_stream q w)"
  by (cases q; cases r) auto

lemma get_put_channel:
  "get_stream q (put_channel c ch w) =
     (if q = Chan_response c then ch_response ch else if q = Chan_request c then ch_request ch else get_stream q w)"
  by (cases q) (auto simp: put_channel_def)

lemma put_channel_route: "w_route (put_channel c ch w) = w_route w"
  by (simp add: put_channel_def)

text \<open>A queue goes onward when it is not reopened and keeps its parked fiber.\<close>

definition queue_onward :: "response_stream \<Rightarrow> response_stream \<Rightarrow> bool" where
  "queue_onward s s' \<longleftrightarrow>
     (settled s \<longrightarrow> settled s') \<and> (cancelled s \<longrightarrow> cancelled s') \<and> waiter s' = waiter s"

lemma queue_onward_push: "queue_onward s (snd (push i s))"
  by (cases i) (auto simp: queue_onward_def push_def settled_def)

lemma queue_onward_cancel: "queue_onward s (cancel s)"
  by (auto simp: queue_onward_def cancel_def settled_def)

lemma queue_onward_refl [simp]: "queue_onward s s"
  by (simp add: queue_onward_def)

lemma onward_put_stream: "queue_onward (get_stream r w) s \<Longrightarrow> onward w (put_stream r s w)"
  by (auto simp: onward_def get_put_stream queue_onward_def)

lemma onward_put_channel:
  "queue_onward (ch_response (w_channels w c)) (ch_response ch) \<Longrightarrow>
   queue_onward (ch_request (w_channels w c)) (ch_request ch) \<Longrightarrow> onward w (put_channel c ch w)"
  by (auto simp: onward_def get_put_channel queue_onward_def put_channel_route)

lemma settled_failure [simp]: "settled (snd (push_failure e s))"
  by (simp add: settled_def push_failure_def push_def)

lemma abandon_call_over:
  "onward w (fst (abandon_call rc (w, over)))"
  "call_over (fst rc) (fst (abandon_call rc (w, over)))"
  "snd (abandon_call rc (w, over)) = over @ [(snd rc, Abandoned)]"
  by (cases rc; auto simp: abandon_call_def Let_def call_over_def simp del: get_stream.simps put_stream.simps
      intro: onward_trans [OF onward_put_stream onward_wake(1)] queue_onward_push [of _ "Failed _", folded push_failure_def])+

lemma channel_over_wake:
  assumes "settled (ch_response ch)" and "cancelled (ch_request ch)"
  shows "channel_over c (wake_stream c (put_channel c ch w))"
  using assms by (auto simp: channel_over_def wake_stream_def writer_owed_wakeup_def get_put_channel Let_def
      simp del: get_stream.simps)

lemma fail_channel_simps [simp]:
  "ch_response (fail_channel e ch) = snd (push_failure e (ch_response ch))"
  "ch_request (fail_channel e ch) = cancel (ch_request ch)"
  by (simp_all add: fail_channel_def on_response_def on_request_def)

lemma abandon_unsent_over:
  "onward w (fst (abandon_unsent r (w, over)))"
  "channel_over (us_channel r) (fst (abandon_unsent r (w, over)))"
  "snd (abandon_unsent r (w, over)) = over @ [(us_cluster r, Abandoned)]"
proof -
  show "onward w (fst (abandon_unsent r (w, over)))"
    by (auto simp: abandon_unsent_def Let_def push_failure_def
        intro!: onward_trans [OF onward_put_channel onward_wake(2)] queue_onward_push queue_onward_cancel)
  show "channel_over (us_channel r) (fst (abandon_unsent r (w, over)))"
    by (simp add: abandon_unsent_def Let_def channel_over_wake cancel_def)
qed (simp add: abandon_unsent_def Let_def)

lemma abandon_open_over:
  assumes "response_ended os \<Longrightarrow> settled (ch_response (w_channels w (os_channel os)))"
  shows "onward w (fst (abandon_open os (w, over)))"
    and "channel_over (os_channel os) (fst (abandon_open os (w, over)))"
    and "\<exists>x. snd (abandon_open os (w, over)) = over @ [(os_cluster os, x)]"
proof -
  obtain os1 ch where a: "abandon (os, w_channels w (os_channel os)) = (os1, ch)"
    by (cases "abandon (os, w_channels w (os_channel os))")
  have ch: "queue_onward (ch_response (w_channels w (os_channel os))) (ch_response ch)"
      "queue_onward (ch_request (w_channels w (os_channel os))) (ch_request ch)"
      "settled (ch_response ch)" "cancelled (ch_request ch)" "os_cluster os1 = os_cluster os"
    using a assms by (auto simp: abandon_def gone_def fail_stream_def os_set_outcome_def on_request_def Let_def
        push_failure_def queue_onward_push queue_onward_cancel cancel_def queue_onward_def settled_def push_def
        split: if_splits)
  show "onward w (fst (abandon_open os (w, over)))"
    using onward_trans [OF onward_put_channel onward_wake(2)] ch by (simp add: abandon_open_def a Let_def)
  show "channel_over (os_channel os) (fst (abandon_open os (w, over)))"
    using channel_over_wake ch by (simp add: abandon_open_def a Let_def)
  show "\<exists>x. snd (abandon_open os (w, over)) = over @ [(os_cluster os, x)]"
    using ch by (simp add: abandon_open_def a Let_def)
qed

section \<open>Going through a group\<close>

lemma fold_over:
  assumes step: "\<And>x v l. onward w v \<Longrightarrow> x \<in> set xs \<Longrightarrow>
      onward v (fst (g x (v, l))) \<and> Q x (fst (g x (v, l))) \<and> (\<exists>o1. snd (g x (v, l)) = l @ [(cl x, o1)])"
    and stays: "\<And>x v v'. Q x v \<Longrightarrow> onward v v' \<Longrightarrow> Q x v'"
  shows "onward w (fst (fold g xs (w, l))) \<and> (\<forall>x \<in> set xs. Q x (fst (fold g xs (w, l)))) \<and>
    map fst (snd (fold g xs (w, l))) = map fst l @ map cl xs"
  using step
proof (induction xs arbitrary: w l)
  case (Cons x xs)
  obtain v m where g: "g x (w, l) = (v, m)" by (cases "g x (w, l)")
  have one: "onward w v" "Q x v" "\<exists>o1. m = l @ [(cl x, o1)]"
    using Cons.prems [of w x l] by (simp_all add: g)
  have rest: "onward v (fst (fold g xs (v, m))) \<and> (\<forall>y \<in> set xs. Q y (fst (fold g xs (v, m)))) \<and>
      map fst (snd (fold g xs (v, m))) = map fst m @ map cl xs"
    using Cons.IH [of v m] Cons.prems onward_trans [OF one(1)] by auto
  then show ?case
    using one onward_trans [OF one(1)] stays [OF one(2)] by (auto simp: g)
qed simp

lemma abandon_each_over:
  assumes ended: "\<And>os. os \<in> set opens \<Longrightarrow> response_ended os \<Longrightarrow> settled (get_stream (Chan_response (os_channel os)) w)"
    and each: "abandon_each waiting streams opens w = (w', over)"
  shows "\<forall>(r, cl) \<in> set waiting. call_over r w'" and "\<forall>r \<in> set streams. channel_over (us_channel r) w'"
    and "\<forall>os \<in> set opens. channel_over (os_channel os) w'" and "onward w w'"
    and "map fst over = map snd waiting @ map us_cluster streams @ map os_cluster opens"
proof -
  obtain w1 l1 where a: "fold abandon_call waiting (w, []) = (w1, l1)" by (cases "fold abandon_call waiting (w, [])")
  obtain w2 l2 where b: "fold abandon_unsent streams (w1, l1) = (w2, l2)" by (cases "fold abandon_unsent streams (w1, l1)")
  have c: "fold abandon_open opens (w2, l2) = (w', over)"
    using each by (simp add: abandon_each_def a b)
  have "onward w (fst (fold abandon_call waiting (w, []))) \<and>
      (\<forall>x \<in> set waiting. call_over (fst x) (fst (fold abandon_call waiting (w, [])))) \<and>
      map fst (snd (fold abandon_call waiting (w, []))) = map fst ([] :: (string \<times> call_outcome) list) @ map snd waiting"
    by (rule fold_over) (auto simp: abandon_call_over intro: call_over_onward)
  then have 1: "onward w w1 \<and> (\<forall>x \<in> set waiting. call_over (fst x) w1) \<and> map fst l1 = map snd waiting"
    by (simp add: a)
  have "onward w1 (fst (fold abandon_unsent streams (w1, l1))) \<and>
      (\<forall>x \<in> set streams. channel_over (us_channel x) (fst (fold abandon_unsent streams (w1, l1)))) \<and>
      map fst (snd (fold abandon_unsent streams (w1, l1))) = map fst l1 @ map us_cluster streams"
    by (rule fold_over) (auto simp: abandon_unsent_over intro: channel_over_onward)
  then have 2: "onward w1 w2 \<and> (\<forall>x \<in> set streams. channel_over (us_channel x) w2) \<and>
      map fst l2 = map fst l1 @ map us_cluster streams"
    by (simp add: b)
  have "onward w w2"
    using 1 2 onward_trans by blast
  then have still: "settled (ch_response (w_channels v (os_channel os)))"
    if "onward w2 v" "os \<in> set opens" "response_ended os" for os v
    using ended [OF that(2,3)] that(1) unfolding onward_def by (metis get_stream.simps(2))
  have "onward w2 (fst (fold abandon_open opens (w2, l2))) \<and>
      (\<forall>x \<in> set opens. channel_over (os_channel x) (fst (fold abandon_open opens (w2, l2)))) \<and>
      map fst (snd (fold abandon_open opens (w2, l2))) = map fst l2 @ map os_cluster opens"
    by (rule fold_over) (blast intro: abandon_open_over still channel_over_onward)+
  then have 3: "onward w2 w' \<and> (\<forall>x \<in> set opens. channel_over (os_channel x) w') \<and>
      map fst over = map fst l2 @ map os_cluster opens"
    by (simp add: c)
  have "onward w1 w'" "onward w2 w'" "onward w w'"
    using 1 2 3 onward_trans by blast+
  then show "\<forall>(r, cl) \<in> set waiting. call_over r w'" "\<forall>r \<in> set streams. channel_over (us_channel r) w'"
    "\<forall>os \<in> set opens. channel_over (os_channel os) w'" "onward w w'"
    "map fst over = map snd waiting @ map us_cluster streams @ map os_cluster opens"
    using 1 2 3 call_over_onward [of _ w1 w'] channel_over_onward [of _ w2 w'] by auto
qed

section \<open>The end of a request\<close>

text \<open>The tables agree with their channels, as every report about a stream keeps them.\<close>

definition streams_inv :: "'e fw \<Rightarrow> bool" where
  "streams_inv fw \<longleftrightarrow> list_all (\<lambda>(h, os). os_inv (os, w_channels (snd fw) (os_channel os))) (f_upstream_streams (fst fw))"

lemma abandon_upstreams_over:
  assumes inv: "streams_inv (f, w)" and a: "abandon_upstreams (f, w) = (over, f', w')"
  shows "\<forall>(r, cl) \<in> set (open_calls (f, w)). call_over r w'" and "\<forall>(c, cl) \<in> set (open_channels (f, w)). channel_over c w'"
    and "map fst over = map snd (open_calls (f, w)) @ map snd (open_channels (f, w))"
    and "f_upstream_calls f' = []" and "f_upstream_streams f' = []" and "f_upstreams f' = None"
    and "f_upstreams f = None \<or> closed (w_route w')" and "f_metrics f' = f_metrics f"
    and "onward (w\<lparr>w_route := w_route w'\<rparr>) w'"
proof -
  obtain u w1 where u: "take_unsent (f, w) = (u, w1)" by (cases "take_unsent (f, w)")
  let ?waiting = "map (\<lambda>r. (ur_response r, ur_cluster r)) (unsent_calls u) @
    map (\<lambda>(_, call). (pc_response call, pc_cluster call)) (f_upstream_calls f)"
  obtain w2 l where each: "abandon_each ?waiting (unsent_streams u) (map snd (f_upstream_streams f)) w1 = (w2, l)"
    by (cases "abandon_each ?waiting (unsent_streams u) (map snd (f_upstream_streams f)) w1")
  have res: "over = l" "w' = w2" "f' = f\<lparr>f_upstreams := None, f_upstream_calls := [], f_upstream_streams := []\<rparr>"
    using a by (auto simp: abandon_upstreams_def u each)
  have chan: "w_channels w1 = w_channels w" and route: "f_upstreams f = None \<or> closed (w_route w1)"
      and calls: "?waiting = open_calls (f, w)"
      and streams: "map (\<lambda>r. (us_channel r, us_cluster r)) (unsent_streams u) @
        map (\<lambda>(_, os). (os_channel os, os_cluster os)) (f_upstream_streams f) = open_channels (f, w)"
    using u by (auto simp: take_unsent_def close_calls_def open_calls_def open_channels_def split: option.splits)
  have "settled (get_stream (Chan_response (os_channel os)) w1)" if "os \<in> set (map snd (f_upstream_streams f))" "response_ended os" for os
    using inv that chan by (auto simp: streams_inv_def os_inv_def response_settled_def settled_def list_all_iff)
  note done1 = abandon_each_over [OF this each]
  show "\<forall>(r, cl) \<in> set (open_calls (f, w)). call_over r w'"
    using done1(1) unfolding calls res .
  show "\<forall>(c, cl) \<in> set (open_channels (f, w)). channel_over c w'"
    using done1(2,3) unfolding streams [symmetric] res by auto
  have "map snd (open_channels (f, w)) = map us_cluster (unsent_streams u) @ map os_cluster (map snd (f_upstream_streams f))"
    unfolding streams [symmetric] by auto
  then show "map fst over = map snd (open_calls (f, w)) @ map snd (open_channels (f, w))"
    using done1(5) unfolding res calls by simp
  show "f_upstream_calls f' = []" "f_upstream_streams f' = []" "f_upstreams f' = None" "f_metrics f' = f_metrics f"
    by (simp_all add: res)
  show "f_upstreams f = None \<or> closed (w_route w')"
    using route done1(4) unfolding res onward_def by auto
  have "w1 = w\<lparr>w_route := w_route w1\<rparr>" "w_route w2 = w_route w1"
    using u done1(4) by (auto simp: take_unsent_def close_calls_def onward_def split: option.splits)
  then show "onward (w\<lparr>w_route := w_route w'\<rparr>) w'"
    using done1(4) unfolding res by metis
qed

lemma over_count_call [simp]:
  "call_over r (count_call ehf f cl o1 w) = call_over r w"
  "channel_over c (count_call ehf f cl o1 w) = channel_over c w"
  "w_route (count_call ehf f cl o1 w) = w_route w"
  by (auto simp: call_over_def channel_over_def is_owed_def count_call_def with_metrics_def split: option.splits)

lemma over_count_calls [simp]:
  "call_over r (fold (\<lambda>(cl, o1). count_call ehf f cl o1) xs w) = call_over r w"
  "channel_over c (fold (\<lambda>(cl, o1). count_call ehf f cl o1) xs w) = channel_over c w"
  "w_route (fold (\<lambda>(cl, o1). count_call ehf f cl o1) xs w) = w_route w"
  by (induction xs arbitrary: w) auto

lemma report_outcome_frame:
  assumes "report_outcome ehf outcome (f, w) = (f1, w1)"
  shows "open_calls (f1, w1) = open_calls (f, w)" and "open_channels (f1, w1) = open_channels (f, w)"
    and "streams_inv (f1, w1) = streams_inv (f, w)" and "f_upstreams f1 = f_upstreams f" and "f_metrics f1 = f_metrics f"
proof -
  have "w_channels w1 = w_channels w" "w_route w1 = w_route w" "f1 = f\<lparr>f_submitted_at := None\<rparr>"
    using assms by (auto simp: report_outcome_def with_metrics_def split: option.splits)
  then show "open_calls (f1, w1) = open_calls (f, w)" "open_channels (f1, w1) = open_channels (f, w)"
    "streams_inv (f1, w1) = streams_inv (f, w)" "f_upstreams f1 = f_upstreams f" "f_metrics f1 = f_metrics f"
    by (simp_all add: open_calls_def open_channels_def streams_inv_def)
qed

text \<open>The clusters the outcomes of calls and streams were counted for, in a log.\<close>

definition calls_counted :: "metrics \<Rightarrow> envoy_call list \<Rightarrow> string list" where
  "calls_counted m log = concat (map (\<lambda>c. case c of
     Metric (Increment_counter_vec i [cluster, _] _) \<Rightarrow> if i = m_upstream_calls m then [cluster] else []
   | _ \<Rightarrow> []) log)"

lemma calls_counted_append: "calls_counted m (xs @ ys) = calls_counted m xs @ calls_counted m ys"
  by (simp add: calls_counted_def)

lemma count_calls_log:
  "f_metrics f = Some m \<Longrightarrow>
   calls_counted m (elog (w_host (fold (\<lambda>(cl, o1). count_call ehf f cl o1) xs w))) =
     calls_counted m (elog (w_host w)) @ map fst xs"
proof (induction xs arbitrary: w)
  case (Cons x xs)
  obtain cl o1 where x: "x = (cl, o1)" by (cases x)
  have "calls_counted m (elog (w_host (count_call ehf f cl o1 w))) = calls_counted m (elog (w_host w)) @ [cl]"
    using Cons.prems by (simp add: count_call_def with_metrics_def upstream_call_def calls_counted_def)
  then show ?case
    using Cons by (simp add: x)
qed simp

section \<open>A request with calls open\<close>

text \<open>One call not sent yet, one in flight, and one stream.\<close>

definition sample_calls :: rack_filter where
  "sample_calls = sample_filter\<lparr>f_stream := Some (Plain 0),
     f_request_body := Some \<lparr> sh_stream = Plain 1, sh_event = REQUEST_EVENT_ID \<rparr>,
     f_upstreams := Some \<lparr> uh_settings = \<lparr> clusters = [''queued'', ''sent'', ''stream''], call_timeout = 9,
       max_response_bytes = 8, stream_buffer_bytes = 8 \<rparr>, uh_event = UPSTREAM_EVENT_ID \<rparr>,
     f_upstream_calls := [(7, \<lparr> pc_response = 3, pc_cluster = ''sent'', pc_sent_at = 0 \<rparr>)],
     f_upstream_streams := [(8, new_open_stream 0 0 ''stream'' False)]\<rparr>"

definition sample_calls_world :: "sample_state world" where
  "sample_calls_world = (sample_world ([], []))\<lparr>w_route := new_calls\<lparr>queued :=
     [\<lparr> ur_cluster = ''queued'', ur_headers = [], ur_body = [], ur_timeout = 9, ur_response = 4 \<rparr>]\<rparr>\<rparr>"

lemma sample_calls_inv: "streams_inv (sample_calls, sample_calls_world)"
  by (simp add: streams_inv_def sample_calls_def os_inv_def new_open_stream_def)

lemma sample_open:
  "open_calls (sample_calls, sample_calls_world) = [(4, ''queued''), (3, ''sent'')]"
  "open_channels (sample_calls, sample_calls_world) = [(0, ''stream'')]"
  by (simp_all add: open_calls_def open_channels_def sample_calls_def sample_calls_world_def new_calls_def new_open_stream_def)

section \<open>Properties\<close>

text \<open>
  C7. When its request is over, no upstream call or stream of it is left
  waiting: every one still open, sent or not, is settled with its fiber owed a
  wakeup, the tables are empty, and the route takes no further call.
\<close>

theorem no_fiber_left_waiting:
  assumes "streams_inv (f, w)"
  shows "(\<forall>(r, cl) \<in> set (open_calls (f, w)). call_over r (snd (on_stream_complete ehf (f, w)))) \<and>
    (\<forall>(c, cl) \<in> set (open_channels (f, w)). channel_over c (snd (on_stream_complete ehf (f, w)))) \<and>
    open_calls (on_stream_complete ehf (f, w)) = [] \<and> open_channels (on_stream_complete ehf (f, w)) = [] \<and>
    (f_upstreams f = None \<or> closed (w_route (snd (on_stream_complete ehf (f, w)))))"
proof -
  obtain f1 w1 where r: "report_outcome ehf OUTCOME_CANCELLED (f, w) = (f1, w1)"
    by (cases "report_outcome ehf OUTCOME_CANCELLED (f, w)")
  obtain over f2 w2 where a: "abandon_upstreams (f1, w1) = (over, f2, w2)"
    by (cases "abandon_upstreams (f1, w1)")
  note frame = report_outcome_frame [OF r]
  note over = abandon_upstreams_over [OF frame(3) [THEN iffD2, OF assms] a]
  show ?thesis
    using over(1,2,4-7) frame by (simp add: on_stream_complete_def r a open_calls_def [of "(f2, _)"] open_channels_def [of "(f2, _)"])
qed

theorem no_fiber_left_waiting_witness:
  "call_over 4 (snd (on_stream_complete sample_ehf (sample_calls, sample_calls_world))) \<and>
   call_over 3 (snd (on_stream_complete sample_ehf (sample_calls, sample_calls_world))) \<and>
   channel_over 0 (snd (on_stream_complete sample_ehf (sample_calls, sample_calls_world)))"
  using no_fiber_left_waiting [OF sample_calls_inv, of sample_ehf] by (simp add: sample_open)

text \<open>
  The outcome of every upstream call and stream still open when the request
  ends is counted exactly once, under its cluster.
\<close>

theorem open_calls_counted_once:
  assumes "streams_inv (f, w)" and "f_metrics f = Some m"
  shows "calls_counted m (elog (w_host (snd (on_stream_complete ehf (f, w))))) =
    calls_counted m (elog (w_host w)) @ map snd (open_calls (f, w)) @ map snd (open_channels (f, w))"
proof -
  obtain f1 w1 where r: "report_outcome ehf OUTCOME_CANCELLED (f, w) = (f1, w1)"
    by (cases "report_outcome ehf OUTCOME_CANCELLED (f, w)")
  obtain over f2 w2 where a: "abandon_upstreams (f1, w1) = (over, f2, w2)"
    by (cases "abandon_upstreams (f1, w1)")
  note frame = report_outcome_frame [OF r]
  note over = abandon_upstreams_over [OF frame(3) [THEN iffD2, OF assms(1)] a]
  have "calls_counted m (elog (w_host w1)) = calls_counted m (elog (w_host w))"
    using r by (auto simp: report_outcome_def with_metrics_def responded_def calls_counted_def split: option.splits)
  then show ?thesis
    using over(3,8) frame assms(2) count_calls_log [of f2 m ehf over w2] abandon_upstreams_log [OF a]
    by (simp add: on_stream_complete_def r a)
qed

theorem open_calls_counted_once_witness:
  "calls_counted sample_metrics (elog (w_host (snd (on_stream_complete sample_ehf (sample_calls, sample_calls_world))))) =
     [''queued'', ''sent'', ''stream'']"
  using open_calls_counted_once [OF sample_calls_inv, of sample_metrics sample_ehf]
  by (simp add: sample_open) (simp add: sample_calls_def sample_filter_def new_http_filter_def sample_calls_world_def
      sample_world_def calls_counted_def)

text \<open>
  Dropping the filter cancels the response queue and the request body, and
  owes a wakeup to the fiber writing the one and to the fiber reading the other.
\<close>

theorem drop_cancels_both_queues:
  assumes "streams_inv (f, w)" and "f_stream f = Some (Plain n)"
    and "f_request_body f = Some h" and "sh_stream h = Plain k"
  shows "cancelled (get_stream (Plain n) (snd (drop_filter (f, w)))) \<and>
    (waiter (get_stream (Plain n) (snd (drop_filter (f, w)))) = None \<or> is_owed (Plain n) (snd (drop_filter (f, w)))) \<and>
    cancelled (get_stream (Plain k) (snd (drop_filter (f, w)))) \<and> is_owed (Plain k) (snd (drop_filter (f, w)))"
proof -
  let ?f = "f\<lparr>f_stream := None, f_request_body := None\<rparr>"
  define v where "v = put_stream (Plain n) (cancel (get_stream (Plain n) w)) w"
  define w1 where "w1 = (if writer_owed_wakeup (get_stream (Plain n) v) then client_wake (Plain n) v else v)"
  define w2 where "w2 = client_wake (Plain k) (put_stream (Plain k) (cancel (get_stream (Plain k) w1)) w1)"
  have drop1: "drop_filter (f, w) = snd (abandon_upstreams (?f, w2))"
    using assms(2-4) by (simp add: drop_filter_def w2_def w1_def v_def Let_def)
  obtain over f' w' where a: "abandon_upstreams (?f, w2) = (over, f', w')"
    by (cases "abandon_upstreams (?f, w2)")
  have "w_channels w2 = w_channels w"
    by (simp add: w2_def w1_def v_def client_wake_def)
  then have "streams_inv (?f, w2)"
    using assms(1) by (simp add: streams_inv_def)
  then have onward: "onward (w2\<lparr>w_route := w_route w'\<rparr>) w'"
    using abandon_upstreams_over(9) [OF _ a] by simp
  have route: "get_stream q (u\<lparr>w_route := rt\<rparr>) = get_stream q u" "is_owed q (u\<lparr>w_route := rt\<rparr>) = is_owed q u"
    for q rt and u :: "'a world"
    by (cases q; simp add: is_owed_def)+
  have "cancelled (get_stream (Plain n) w2)" "cancelled (get_stream (Plain k) w2)" "is_owed (Plain k) w2"
      "waiter (get_stream (Plain n) w2) = None \<or> is_owed (Plain n) w2"
    by (auto simp: w2_def w1_def v_def get_put_stream cancel_def writer_owed_wakeup_def
        simp del: get_stream.simps put_stream.simps)
  then show ?thesis
    using onward unfolding onward_def route by (auto simp: drop1 a simp del: get_stream.simps)
qed

theorem drop_cancels_both_queues_witness:
  "cancelled (get_stream (Plain 0) (snd (drop_filter (sample_calls, sample_calls_world)))) \<and>
   cancelled (get_stream (Plain 1) (snd (drop_filter (sample_calls, sample_calls_world)))) \<and>
   is_owed (Plain 1) (snd (drop_filter (sample_calls, sample_calls_world)))"
  using drop_cancels_both_queues [OF sample_calls_inv, of 0 "\<lparr> sh_stream = Plain 1, sh_event = REQUEST_EVENT_ID \<rparr>" 1]
  by (simp add: sample_calls_def)

end
