(* ===== verification/Stream_Tables.thy ===== *)
theory Stream_Tables
  imports Request_End
begin

text \<open>
  The worker's table of open upstream streams and the channels they share with
  their fibers (src/crates/ruvoy-envoy-fiber/src/worker.rs): every callback of the
  filter, with the reports Envoy makes from inside its calls, and every step of a
  fiber keeps the table in agreement with the channels.  The loop over one stream
  asks for no more than what is queued and leaves nothing to ask for.
\<close>

section \<open>What keeps the table\<close>

text \<open>A channel moves on: a settled response stays settled, a wanted reset stays wanted.\<close>

definition channel_onward :: "stream_channel \<Rightarrow> stream_channel \<Rightarrow> bool" where
  "channel_onward a b \<longleftrightarrow> (response_settled a \<longrightarrow> response_settled b) \<and> (reset_wanted a \<longrightarrow> reset_wanted b)"

lemma channel_onward_refl [simp]: "channel_onward a a"
  by (simp add: channel_onward_def)

lemma os_inv_onward: "os_inv (os, a) \<Longrightarrow> channel_onward a b \<Longrightarrow> os_inv (os, b)"
  by (auto simp: os_inv_def channel_onward_def)

lemma channel_onward_act: "channel_onward c (channel_act x c)"
  using settled_stays [of c x] by (cases x) (auto simp: channel_onward_def on_response_def on_request_def set_trailers_def)

lemma streams_inv_put_channel:
  assumes "streams_inv (f, w)" and "channel_onward (w_channels w c) ch"
  shows "streams_inv (f, put_channel c ch w)"
  using assms by (auto simp: streams_inv_def list_all_iff put_channel_def intro: os_inv_onward)

lemma channels_frame [simp]:
  "w_channels (w\<lparr>w_host := h\<rparr>) = w_channels w"
  "w_channels (call_envoy ehf x w) = w_channels w"
  "w_channels (client_wake q w) = w_channels w"
  "w_channels (wake_stream c w) = w_channels w"
  "w_channels (with_metrics f g w) = w_channels w"
  "w_channels (count_call ehf f cl o1 w) = w_channels w"
  "w_channels (report_admission ehf f r w) = w_channels w"
  by (simp_all add: call_envoy_def client_wake_def wake_stream_def with_metrics_def count_call_def report_admission_def
      Let_def split: option.splits)

lemma streams_inv_cong:
  "f_upstream_streams f' = f_upstream_streams f \<Longrightarrow> w_channels w' = w_channels w \<Longrightarrow> streams_inv (f', w') = streams_inv (f, w)"
  by (simp add: streams_inv_def)

lemma streams_inv_put_stream:
  assumes "streams_inv (f, w)" and "settled (get_stream r w) \<longrightarrow> settled s"
  shows "streams_inv (f, put_stream r s w)"
proof (cases r)
  case (Plain n)
  then show ?thesis
    using assms(1) by (simp add: streams_inv_def)
next
  case (Chan_response c)
  then have "put_stream r s w = put_channel c ((w_channels w c)\<lparr>ch_response := s\<rparr>) w"
    by (simp add: put_channel_def)
  then show ?thesis
    using assms Chan_response
    by (auto simp: channel_onward_def response_settled_def settled_def intro!: streams_inv_put_channel)
next
  case (Chan_request c)
  then have "put_stream r s w = put_channel c ((w_channels w c)\<lparr>ch_request := s\<rparr>) w"
    by (simp add: put_channel_def)
  then show ?thesis
    using assms by (auto simp: channel_onward_def response_settled_def intro!: streams_inv_put_channel)
qed

lemma channel_onward_trans: "channel_onward a b \<Longrightarrow> channel_onward b c \<Longrightarrow> channel_onward a c"
  by (simp add: channel_onward_def)

lemma channel_onward_parts:
  "channel_onward (snd s) (snd (end_stream s))"
  "channel_onward (snd s) (snd (fail_stream e s))"
  "channel_onward (snd s) (snd (gone s))"
  "channel_onward a (fail_channel e a)"
  "channel_onward a (on_response (\<lambda>r. snd (push_head h r)) a)"
  "channel_onward a (set_trailers t a)"
  "channel_onward a (a\<lparr>ch_request := q\<rparr>)"
  "channel_onward a (a\<lparr>ch_response := snd (push_chunk_if_room bs (ch_response a))\<rparr>)"
  by (cases s; auto simp: channel_onward_def response_settled_def end_stream_def fail_stream_def fail_channel_def gone_def
      on_response_def on_request_def push_end_def push_failure_def push_head_def set_trailers_def push_chunk_if_room_def
      Let_def push_def cancel_def split: if_splits)+

lemma channel_onward_headers: "channel_onward (snd s) (snd (snd (headers_arrived now hs e s)))"
proof (cases s)
  case (Pair os ch)
  then show ?thesis
    using channel_onward_parts(1,2,5) channel_onward_trans
    by (fastforce simp: headers_arrived_def Let_def split: option.splits)
qed

lemma channel_onward_data: "channel_onward (snd s) (snd (snd (data_arrived d e s)))"
proof (cases s)
  case (Pair os ch)
  obtain fits resp where push: "push_chunk_if_room (concatenate d) (ch_response ch) = (fits, resp)"
    by fastforce
  then have resp: "channel_onward ch (ch\<lparr>ch_response := resp\<rparr>)"
    using channel_onward_parts(8) [of ch "concatenate d"] by simp
  have "channel_onward ch (snd (end_stream (o1, ch\<lparr>ch_response := resp\<rparr>)))"
    "channel_onward ch (snd (fail_stream x (o1, ch\<lparr>ch_response := resp\<rparr>)))" for o1 :: "'a open_stream" and x
    using channel_onward_trans [OF resp] channel_onward_parts(1,2) [of "(o1, ch\<lparr>ch_response := resp\<rparr>)"] by simp_all
  moreover have "channel_onward ch (snd (end_stream (o1, ch)))" for o1 :: "'a open_stream"
    using channel_onward_parts(1) [of "(o1, ch)"] by simp
  ultimately show ?thesis
    using resp by (auto simp: Pair data_arrived_def Let_def push split: option.splits bool.splits)
qed

lemma channel_onward_reports:
  "channel_onward (snd s) (snd (completed s))"
  "channel_onward (snd s) (snd (trailers_arrived ts s))"
  "channel_onward (snd s) (snd (reset_by_envoy r s))"
  "channel_onward (snd s) (snd (abandon s))"
proof -
  have gone: "channel_onward a (snd (gone t))" if "channel_onward a (snd t)" for a and t :: "'a os_state"
    using that channel_onward_parts(3) channel_onward_trans by blast
  have fail: "channel_onward a (snd (fail_stream e (o1, a)))" and ends: "channel_onward a (snd (end_stream (o1, a)))"
    for a e and o1 :: "'a open_stream"
    using channel_onward_parts(1,2) [of "(o1, a)"] by simp_all
  show completed: "channel_onward (snd s) (snd (completed s))"
    unfolding completed_def by (rule gone) (simp add: channel_onward_parts)
  show "channel_onward (snd s) (snd (trailers_arrived ts s))"
    using channel_onward_trans [OF channel_onward_parts(6) ends] by (cases s) (simp add: trailers_arrived_def)
  show "channel_onward (snd s) (snd (reset_by_envoy r s))"
    using completed by (cases s) (auto simp: reset_by_envoy_def Let_def intro!: gone fail)
  show "channel_onward (snd s) (snd (abandon s))"
    by (cases s) (auto simp: abandon_def Let_def intro!: gone fail)
qed

lemma channel_onward_next: "channel_onward (snd s) (snd (snd (next_action s)))"
  by (cases s) (auto simp: next_action_def Let_def channel_onward_parts split: prod.splits option.splits stream_item.splits)

lemma channel_onward_os_act: "channel_onward (snd s) (snd (os_act ev s))"
  by (cases ev) (simp_all add: channel_onward_headers channel_onward_data channel_onward_reports channel_onward_next
      channel_onward_act)

section \<open>Every callback keeps the table\<close>

lemma set_update_subset: "set (AList.update k v al) \<subseteq> insert (k, v) (set al)"
  by (induction al) auto

lemma set_delete_subset: "set (AList.delete k al) \<subseteq> set al"
  by (induction al) auto

lemma streams_inv_report:
  assumes inv: "streams_inv (f, w)" and os: "map_of (f_upstream_streams f) k = Some os"
    and act: "os_act ev (os, w_channels w (os_channel os)) = (os1, ch1)"
  shows "streams_inv (f\<lparr>f_upstream_streams := AList.update k os1 (f_upstream_streams f)\<rparr>, put_channel (os_channel os) ch1 w)"
    and "streams_inv (f\<lparr>f_upstream_streams := AList.delete k (f_upstream_streams f)\<rparr>, put_channel (os_channel os) ch1 w)"
proof -
  have "channel_onward (w_channels w (os_channel os)) ch1"
    using channel_onward_os_act [of "(os, w_channels w (os_channel os))" ev] act by simp
  then have rest: "streams_inv (f, put_channel (os_channel os) ch1 w)"
    by (rule streams_inv_put_channel [OF inv])
  have "os_inv (os, w_channels w (os_channel os))"
    using inv map_of_SomeD [OF os] by (auto simp: streams_inv_def list_all_iff)
  then have new: "os_inv (os1, ch1)"
    using os_wf.inv_act [of "(os, w_channels w (os_channel os))" ev] act by simp
  have chan: "os_channel os1 = os_channel os"
    using os_channel_act [of ev "(os, w_channels w (os_channel os))"] act by simp
  show "streams_inv (f\<lparr>f_upstream_streams := AList.update k os1 (f_upstream_streams f)\<rparr>, put_channel (os_channel os) ch1 w)"
    using rest new chan
    by (auto simp: streams_inv_def list_all_iff put_channel_def dest!: subsetD [OF set_update_subset])
  show "streams_inv (f\<lparr>f_upstream_streams := AList.delete k (f_upstream_streams f)\<rparr>, put_channel (os_channel os) ch1 w)"
    using rest by (auto simp: streams_inv_def list_all_iff dest!: subsetD [OF set_delete_subset])
qed

lemma streams_inv_callback: "streams_inv fw \<Longrightarrow> streams_inv (on_callback ehf cb fw)"
proof (cases fw)
  case (Pair f w)
  assume inv: "streams_inv fw"
  note report = streams_inv_report [OF inv [unfolded Pair]]
  show ?thesis
  proof (cases cb)
    case (Callout_done i result hs body)
    then show ?thesis
      using inv by (simp add: Pair on_http_callout_done_def Let_def streams_inv_def split: option.splits prod.splits)
  next
    case (Stream_headers k hs e)
    then show ?thesis
      using inv report(1) [where ev = "Ev_headers (instant_now ehf (envoy w)) hs e"]
      by (auto simp: Pair on_http_stream_headers_def Let_def streams_inv_def split: option.splits prod.splits)
  next
    case (Stream_data k d e)
    then show ?thesis
      using inv report(1) [where ev = "Ev_data d e"]
      by (auto simp: Pair on_http_stream_data_def Let_def streams_inv_def split: option.splits prod.splits)
  next
    case (Stream_trailers k ts)
    then show ?thesis
      using inv report(1) [where ev = "Ev_trailers ts"]
      by (auto simp: Pair on_http_stream_trailers_def Let_def streams_inv_def split: option.splits prod.splits)
  next
    case (Stream_complete k)
    then show ?thesis
      using inv report(2) [where ev = "Ev_completed"]
      by (auto simp: Pair on_http_stream_complete_def Let_def streams_inv_def split: option.splits prod.splits)
  next
    case (Stream_reset k r)
    then show ?thesis
      using inv report(2) [where ev = "Ev_reset r"]
      by (auto simp: Pair on_http_stream_reset_def Let_def streams_inv_def split: option.splits prod.splits)
  qed
qed

lemma fold_keeps: "(\<And>x s. P s \<Longrightarrow> P (f x s)) \<Longrightarrow> P s \<Longrightarrow> P (fold f xs s)"
  by (induction xs arbitrary: s) auto

lemma streams_inv_reenter: "streams_inv fw \<Longrightarrow> streams_inv (reenter ehf cbs fw)"
  unfolding reenter_def by (rule fold_keeps [where P = streams_inv]) (rule streams_inv_callback)

lemma streams_inv_reentrant: "streams_inv fw \<Longrightarrow> streams_inv (call_reentrant ehf c fw)"
  by (cases fw) (simp add: call_reentrant_def streams_inv_reenter streams_inv_cong [of _ _ "call_envoy ehf c _"])

lemma streams_inv_turn: "streams_inv fw \<Longrightarrow> streams_inv (snd (pump_turn k fw))"
  by (cases fw)
    (auto simp: pump_turn_def Let_def split: option.splits prod.splits stream_action.splits
      intro!: streams_inv_report(1) [where ev = Ev_next])

lemma streams_inv_pump_handle: "streams_inv fw \<Longrightarrow> streams_inv (pump_handle ehf k fw)"
proof (induction ehf k fw rule: pump_handle.induct)
  case (1 ehf k fw)
  obtain c fw1 where turn: "pump_turn k fw = (c, fw1)"
    by (cases "pump_turn k fw")
  then have "streams_inv fw1"
    using streams_inv_turn [OF "1.prems", of k] by simp
  then show ?case
    using "1.IH" [OF turn [symmetric]] turn
    by (subst pump_handle.simps) (cases c; simp add: streams_inv_reentrant)
qed

lemma streams_inv_pump: "streams_inv fw \<Longrightarrow> streams_inv (pump_streams ehf fw)"
proof -
  have "streams_inv (pump_stream ehf k x)" if "streams_inv x" for k and x :: "'a fw"
    using streams_inv_pump_handle [OF that, of ehf k]
    by (auto simp: pump_stream_def streams_inv_def split: prod.splits option.splits)
  then show "streams_inv fw \<Longrightarrow> streams_inv (pump_streams ehf fw)"
    unfolding pump_streams_def by (rule fold_keeps [where P = streams_inv])
qed

lemma streams_inv_send: "streams_inv fw \<Longrightarrow> streams_inv (send_call ehf trace r fw)"
  by (cases fw) (auto simp: send_call_def Let_def streams_inv_def split: prod.splits option.splits)

lemma streams_inv_start: "streams_inv fw \<Longrightarrow> streams_inv (start_stream ehf trace r fw)"
proof (cases fw)
  case (Pair f w)
  assume "streams_inv fw"
  obtain res ch h cbs where start: "start ehf r trace (w_channels w (us_channel r)) (w_host w) = (res, ch, h, cbs)"
    by (metis prod_cases4)
  have "channel_onward (w_channels w (us_channel r)) ch"
    using start channel_onward_trans [OF channel_onward_parts(7) channel_onward_parts(4)]
    by (auto simp: start_def Let_def channel_onward_parts split: if_splits prod.splits option.splits)
  then have "streams_inv (f, put_channel (us_channel r) ch w)"
    using \<open>streams_inv fw\<close> by (simp add: Pair streams_inv_put_channel)
  then have "streams_inv (f, (put_channel (us_channel r) ch w)\<lparr>w_host := h\<rparr>)"
    by (simp add: streams_inv_def)
  then obtain f1 w1 where re: "reenter ehf cbs (f, (put_channel (us_channel r) ch w)\<lparr>w_host := h\<rparr>) = (f1, w1)"
      and inv: "streams_inv (f1, w1)"
    using streams_inv_reenter by (metis surj_pair)
  show ?thesis
  proof (cases res)
    case (Started_open k os)
    then have "\<not> response_ended os" "\<not> reset_sent os"
      using start by (auto simp: start_def Let_def new_open_stream_def split: if_splits prod.splits option.splits)
    then have "streams_inv (f1\<lparr>f_upstream_streams := AList.update k os (f_upstream_streams f1)\<rparr>, w1)"
      using inv by (auto simp: streams_inv_def list_all_iff os_inv_def dest!: subsetD [OF set_update_subset])
    then show ?thesis
      by (simp add: Pair start_stream_def start re Started_open)
  qed (use inv in \<open>simp_all add: Pair start_stream_def start re streams_inv_def\<close>)
qed

lemma streams_inv_send_upstream: "streams_inv fw \<Longrightarrow> streams_inv (send_upstream_calls ehf fw)"
proof (cases fw)
  case (Pair f w)
  assume "streams_inv fw"
  then have "streams_inv (f\<lparr>f_trace := t\<rparr>, w\<lparr>w_route := q\<rparr>)" "streams_inv (f, w\<lparr>w_route := q\<rparr>)" for t q
    by (simp_all add: Pair streams_inv_def)
  moreover have "streams_inv (fold (start_stream ehf trace) ss (fold (send_call ehf trace) cs x))" if "streams_inv x"
    for trace ss cs and x :: "'a fw"
    by (intro fold_keeps [where P = streams_inv] that streams_inv_start streams_inv_send)
  moreover have "streams_inv (f, w)"
    using \<open>streams_inv fw\<close> by (simp add: Pair)
  ultimately show ?thesis
    by (auto simp: Pair send_upstream_calls_def Let_def split: prod.splits intro!: streams_inv_pump)
qed

lemma copy_slices_settled: "settled s \<Longrightarrow> settled (snd (copy_slices limit copied ps s))"
  by (induction limit copied ps s rule: copy_slices.induct) (auto simp: Let_def settled_def push_chunk_def push_def)

lemma streams_inv_copy_body: "streams_inv (f, w) \<Longrightarrow> streams_inv (f, snd (copy_body ehf src limit r w))"
proof -
  assume "streams_inv (f, w)"
  then have "streams_inv (f, put_stream r (snd (copy_slices limit 0 ps (get_stream r w))) w)" for ps
    by (rule streams_inv_put_stream) (simp add: copy_slices_settled)
  then have "streams_inv (f, put_stream r s w)" if "copy_slices limit 0 ps (get_stream r w) = (n, s)" for ps n s
    using that by (metis snd_conv)
  then show ?thesis
    using \<open>streams_inv (f, w)\<close>
    by (auto simp: copy_body_def Let_def streams_inv_cong [of f f "call_envoy ehf _ _"] split: prod.splits)
qed

lemma streams_inv_available: "streams_inv (f, w) \<Longrightarrow> streams_inv (f, snd (copy_available ehf r w))"
proof -
  assume "streams_inv (f, w)"
  then have first: "streams_inv (f, snd (copy_body ehf Retained room r w))" for room
    by (rule streams_inv_copy_body)
  have "streams_inv (f, snd (copy_body ehf Received n r (snd (copy_body ehf Retained room r w))))" for n room
    using first by (rule streams_inv_copy_body)
  with first show ?thesis
    by (simp add: copy_available_def Let_def case_prod_beta)
qed

lemma streams_inv_forward: "streams_inv fw \<Longrightarrow> streams_inv (forward_request_body ehf fw)"
proof (cases fw)
  case (Pair f w)
  assume inv: "streams_inv fw"
  show ?thesis
  proof (cases "f_request_body f")
    case (Some h)
    obtain n w2 where copied: "copy_available ehf (sh_stream h) w = (n, w2)"
      by (cases "copy_available ehf (sh_stream h) w")
    then have kept: "streams_inv (f, w2)"
      using streams_inv_available [of f w ehf "sh_stream h"] inv by (simp add: Pair)
    then have "streams_inv (f, put_stream (sh_stream h) (snd (push_end (get_stream (sh_stream h) w2))) w2)"
      by (rule streams_inv_put_stream) (auto simp: push_end_def push_def settled_def)
    with kept show ?thesis
      by (simp add: Pair forward_request_body_def Some copied Let_def streams_inv_def)
  qed (use inv in \<open>simp add: Pair forward_request_body_def\<close>)
qed

lemma streams_inv_error:
  "streams_inv (send_bridge_error ehf status body details fw) = streams_inv fw"
  "streams_inv (send_invalid_request ehf message fw) = streams_inv fw"
  "streams_inv (report_outcome ehf outcome fw) = streams_inv fw"
  by (cases fw; simp add: send_bridge_error_def send_invalid_request_def report_outcome_def streams_inv_def split: option.splits)+

lemma streams_inv_submit: "streams_inv (submit_request ehf fw) = streams_inv fw"
  by (cases fw)
    (simp add: submit_request_def alloc_stream_def Let_def send_bridge_error_def streams_inv_def
      split: option.splits prod.splits sum.splits)

lemma streams_inv_request_headers: "streams_inv fw \<Longrightarrow> streams_inv (on_request_headers ehf e fw)"
proof (cases fw)
  case (Pair f w)
  assume inv: "streams_inv fw"
  have "streams_inv (f1\<lparr>request_end_pending := e\<rparr>, w1)"
    if "submit_request ehf (f\<lparr>f_request := Some q\<rparr>, w) = (f1, w1)" for q f1 w1
    using streams_inv_submit [of ehf "(f\<lparr>f_request := Some q\<rparr>, w)"] that inv by (simp add: Pair streams_inv_def)
  then show ?thesis
    using inv by (auto simp: Pair on_request_headers_def Let_def streams_inv_error streams_inv_forward split: sum.splits prod.splits)
qed

lemma streams_inv_item: "streams_inv (snd (drain_item ehf item fw)) = streams_inv fw"
  by (cases fw; cases item)
    (simp_all add: drain_item_def send_response_head_def Let_def report_outcome_def send_bridge_error_def streams_inv_def
      split: option.splits)

lemma streams_inv_drain_loop: "streams_inv fw \<Longrightarrow> streams_inv (snd (drain_loop ehf r fw))"
proof (induction ehf r fw rule: drain_loop.induct)
  case (1 ehf r fw)
  obtain item s where taken: "take_next (get_stream r (snd fw)) = (item, s)"
    by (cases "take_next (get_stream r (snd fw))")
  then have "settled s" if "settled (get_stream r (snd fw))"
    using that by (auto simp: take_next_def settled_def split: list.splits if_splits stream_item.splits)
  then have kept: "streams_inv (fst fw, put_stream r s (snd fw))"
    using "1.prems" by (cases fw) (simp add: streams_inv_put_stream)
  show ?case
  proof (cases item)
    case (Some i)
    obtain returned fw1 where sent: "drain_item ehf i (fst fw, put_stream r s (snd fw)) = (returned, fw1)"
      by (cases "drain_item ehf i (fst fw, put_stream r s (snd fw))")
    then have "streams_inv fw1"
      using streams_inv_item [of ehf i "(fst fw, put_stream r s (snd fw))"] kept by simp
    then show ?thesis
      using "1.IH" [OF taken [symmetric] Some sent [symmetric]]
      by (subst drain_loop.simps) (simp add: taken Some sent)
  qed (use kept in \<open>simp add: drain_loop.simps [of ehf r fw] taken\<close>)
qed

lemma streams_inv_scheduled: "streams_inv fw \<Longrightarrow> streams_inv (on_scheduled ehf i fw)"
proof -
  assume inv: "streams_inv fw"
  have "streams_inv (drain_stream ehf fw)"
    using inv streams_inv_drain_loop [OF inv, of ehf]
    by (cases "f_stream (fst fw)") (simp_all add: drain_stream_def Let_def streams_inv_def case_prod_beta)
  with inv show ?thesis
    by (simp add: on_scheduled_def streams_inv_forward streams_inv_send_upstream)
qed

lemma streams_inv_watermarks:
  "streams_inv fw \<Longrightarrow> streams_inv (on_downstream_above_write_buffer_high_watermark fw)"
  "streams_inv fw \<Longrightarrow> streams_inv (on_downstream_below_write_buffer_low_watermark ehf fw)"
proof -
  have "streams_inv (f, put_stream r (set_paused b (get_stream r w)) w)" if "streams_inv (f, w)"
    for b r f and w :: "'a world"
    using that by (rule streams_inv_put_stream) (simp add: set_paused_def settled_def)
  then show "streams_inv fw \<Longrightarrow> streams_inv (on_downstream_above_write_buffer_high_watermark fw)"
    by (cases fw) (auto simp: on_downstream_above_write_buffer_high_watermark_def split: option.splits)
next
  have "streams_inv (f, put_stream r (set_paused b (get_stream r w)) w)" if "streams_inv (f, w)"
    for b r f and w :: "'a world"
    using that by (rule streams_inv_put_stream) (simp add: set_paused_def settled_def)
  then show "streams_inv fw \<Longrightarrow> streams_inv (on_downstream_below_write_buffer_low_watermark ehf fw)"
    by (cases fw) (auto simp: on_downstream_below_write_buffer_low_watermark_def streams_inv_cong [of _ _ "call_envoy ehf _ _"]
        split: option.splits)
qed

lemma streams_inv_complete: "streams_inv (on_stream_complete ehf fw)"
  by (cases fw)
    (simp add: on_stream_complete_def abandon_upstreams_def report_outcome_def streams_inv_def Let_def split: prod.splits)

lemma streams_inv_filter_act: "streams_inv fw \<Longrightarrow> streams_inv (filter_act ehf ev fw)"
  by (cases ev; cases fw)
    (auto simp: streams_inv_request_headers streams_inv_scheduled streams_inv_callback streams_inv_complete
      streams_inv_watermarks on_request_body_def on_request_trailers_def intro!: streams_inv_forward
      intro: streams_inv_cong [THEN iffD2])

section \<open>The loop over one stream\<close>

text \<open>What a fiber writes into a request body: chunks, then an end.\<close>

primrec body_item :: "stream_item \<Rightarrow> bool" where
  "body_item (Chunk c) = True"
| "body_item End = True"
| "body_item (Head h) = False"
| "body_item (Failed e) = False"

definition bodies_only :: "'e world \<Rightarrow> bool" where
  "bodies_only w \<longleftrightarrow> (\<forall>c. list_all body_item (items (ch_request (w_channels w c))))"

text \<open>How often a log asks Envoy something about one upstream stream.\<close>

definition asks :: "u64 \<Rightarrow> envoy_call list \<Rightarrow> nat" where
  "asks h log = length (filter (\<lambda>c. case c of
     Send_http_stream_data k _ _ \<Rightarrow> k = h | Reset_http_stream k \<Rightarrow> k = h | _ \<Rightarrow> False) log)"

lemma asks_append [simp]: "asks h (xs @ ys) = asks h xs + asks h ys"
  by (simp add: asks_def)

lemma asks_nothing [simp]: "asks h [Commit i] = 0" "asks h [Metric x] = 0" "asks h [] = 0"
  by (simp_all add: asks_def)

lemma asks_metrics [simp]:
  "asks h (elog (w_host (count_call ehf f cl o1 w))) = asks h (elog (w_host w))"
  "asks h (elog (w_host (with_metrics f (\<lambda>m. upstream_answered ehf m cl d) w))) = asks h (elog (w_host w))"
  "asks h (elog (w_host (with_metrics f (\<lambda>m x. upstream_answered ehf m cl (g x) x) w))) = asks h (elog (w_host w))"
  by (simp_all add: count_call_def with_metrics_def upstream_call_def upstream_answered_def split: option.splits)

lemma asks_callback: "asks h (log_of (on_callback ehf cb fw)) = asks h (log_of fw)"
  by (cases cb; cases fw)
    (simp_all add: log_of_def on_http_callout_done_def on_http_stream_headers_def on_http_stream_data_def
      on_http_stream_trailers_def on_http_stream_complete_def on_http_stream_reset_def Let_def
      split: option.splits prod.splits)

lemma asks_reentrant: "asks h (log_of (call_reentrant ehf c fw)) = asks h (log_of fw) + asks h [c]"
proof -
  have "asks h (log_of (reenter ehf cbs x)) = asks h (log_of x)" for cbs x
    unfolding reenter_def by (induction cbs arbitrary: x) (simp_all add: asks_callback)
  then show ?thesis
    by (cases fw) (simp add: call_reentrant_def log_of_def)
qed

lemma bodies_only_frame [simp]:
  "bodies_only (call_envoy ehf x w) = bodies_only w"
  "bodies_only (wake_stream c w) = bodies_only w"
  "bodies_only (with_metrics f g w) = bodies_only w"
  "bodies_only (count_call ehf f cl o1 w) = bodies_only w"
  by (simp_all add: bodies_only_def)

lemma bodies_only_put:
  "bodies_only w \<Longrightarrow> list_all body_item (items (ch_request ch)) \<Longrightarrow> bodies_only (put_channel c ch w)"
  by (simp add: bodies_only_def put_channel_def)

lemma bodies_only_report:
  assumes "bodies_only w" and "\<And>x. ev \<noteq> Ev_fiber x" and "ev \<noteq> Ev_next"
  shows "bodies_only (put_channel c (snd (os_act ev (os, w_channels w c))) w)"
  using request_of_act [OF assms(3,2), of "(os, w_channels w c)"] assms(1)
  by (intro bodies_only_put) (auto simp: bodies_only_def cancel_def)

lemma bodies_only_callback: "bodies_only (snd fw) \<Longrightarrow> bodies_only (snd (on_callback ehf cb fw))"
proof (cases fw)
  case (Pair f w)
  assume "bodies_only (snd fw)"
  then have w: "bodies_only w"
    by (simp add: Pair)
  have report: "bodies_only (put_channel c (snd (os_act ev (os, w_channels w c))) w)"
    if "ev \<noteq> Ev_next" "\<And>x. ev \<noteq> Ev_fiber x" for ev c and os :: "nat open_stream"
    using w that(2,1) by (rule bodies_only_report)
  show ?thesis
  proof (cases cb)
    case (Callout_done i result hs body)
    then show ?thesis
      using w by (simp add: Pair on_http_callout_done_def Let_def bodies_only_def split: option.splits prod.splits)
  next
    case (Stream_headers k hs e)
    then show ?thesis
      using w report [where ev = "Ev_headers (instant_now ehf (envoy w)) hs e"]
      by (simp add: Pair on_http_stream_headers_def Let_def case_prod_beta split: option.split)
  next
    case (Stream_data k d e)
    then show ?thesis
      using w report [where ev = "Ev_data d e"]
      by (simp add: Pair on_http_stream_data_def Let_def case_prod_beta split: option.split)
  next
    case (Stream_trailers k ts)
    then show ?thesis
      using w report [where ev = "Ev_trailers ts"]
      by (simp add: Pair on_http_stream_trailers_def Let_def case_prod_beta split: option.split)
  next
    case (Stream_complete k)
    then show ?thesis
      using w report [where ev = Ev_completed]
      by (simp add: Pair on_http_stream_complete_def Let_def case_prod_beta split: option.split)
  next
    case (Stream_reset k r)
    then show ?thesis
      using w report [where ev = "Ev_reset r"]
      by (simp add: Pair on_http_stream_reset_def Let_def case_prod_beta split: option.split)
  qed
qed

lemma bodies_only_reentrant: "bodies_only (snd fw) \<Longrightarrow> bodies_only (snd (call_reentrant ehf c fw))"
proof (cases fw)
  case (Pair f w)
  assume "bodies_only (snd fw)"
  then have "bodies_only (snd (f, call_envoy ehf c w))"
    by (simp add: Pair)
  then show ?thesis
    unfolding Pair call_reentrant_def reenter_def prod.case
    by (rule fold_keeps [where P = "\<lambda>x. bodies_only (snd x)", rotated]) (rule bodies_only_callback)
qed

lemma taken_body_item:
  "take_next s = (i, s1) \<Longrightarrow> list_all body_item (items s) \<Longrightarrow>
   list_all body_item (items s1) \<and> (\<forall>x. i = Some x \<longrightarrow> body_item x) \<and> (i = None \<longrightarrow> s1 = s)"
  by (auto simp: take_next_def split: if_splits list.splits stream_item.splits)

text \<open>An action that is nothing changes nothing, so asking again gives nothing again.\<close>

lemma next_action_nothing:
  assumes "list_all body_item (items (ch_request ch))" and "next_action (os, ch) = (a, os1, ch1)"
  shows "list_all body_item (items (ch_request ch1))" and "a = None \<Longrightarrow> os1 = os \<and> ch1 = ch"
proof -
  obtain i s1 where taken: "take_next (ch_request ch) = (i, s1)"
    by (cases "take_next (ch_request ch)")
  note body = taken_body_item [OF taken assms(1)]
  show "list_all body_item (items (ch_request ch1))" "a = None \<Longrightarrow> os1 = os \<and> ch1 = ch"
    using assms body taken
    by (auto simp: next_action_def Let_def split: if_splits option.splits stream_item.splits)
qed

lemma pump_turn_bodies: "bodies_only (snd fw) \<Longrightarrow> bodies_only (snd (snd (pump_turn h fw)))"
  by (cases fw)
    (auto simp: pump_turn_def Let_def bodies_only_def put_channel_def split: option.splits prod.splits stream_action.splits
      dest!: next_action_nothing(1) [rotated])

lemma update_same: "map_of al k = Some v \<Longrightarrow> AList.update k v al = al"
  by (induction al) (auto split: if_splits)

lemma pump_turn_nothing:
  assumes "bodies_only (snd fw)" and "pump_turn h fw = (None, fw1)"
  shows "fw1 = fw"
proof (cases fw)
  case (Pair f w)
  show ?thesis
  proof (cases "map_of (f_upstream_streams f) h")
    case (Some os)
    obtain a os1 ch1 where act: "next_action (os, w_channels w (os_channel os)) = (a, os1, ch1)"
      by (cases "next_action (os, w_channels w (os_channel os))") auto
    have "a = None"
      using assms(2) by (auto simp: Pair pump_turn_def Some act Let_def split: option.splits stream_action.splits)
    then have "os1 = os" "ch1 = w_channels w (os_channel os)"
      using next_action_nothing(2) [OF _ act] assms(1) by (auto simp: Pair bodies_only_def)
    then show ?thesis
      using assms(2) \<open>a = None\<close> by (simp add: Pair pump_turn_def Some act put_channel_def update_same)
  qed (use assms(2) in \<open>simp add: Pair pump_turn_def\<close>)
qed

lemma pump_turn_asks:
  assumes "pump_turn h fw = (c, fw1)"
  shows "log_of fw1 = log_of fw" and "c = Some x \<Longrightarrow> asks h [x] = 1"
  using assms by (cases fw; auto simp: pump_turn_def Let_def log_of_def asks_def
      split: option.splits prod.splits stream_action.splits)+

section \<open>Runs of a filter\<close>

text \<open>
  A filter from its creation on: callbacks of Envoy in any order, steps of
  fibers on the channels they share with it, whatever leaves the channels alone, and
  the tables found in another order.
\<close>

inductive filter_run :: "'e ehf \<Rightarrow> 'e fw \<Rightarrow> bool" for ehf where
  created: "fresh_filter f \<Longrightarrow> filter_run ehf (f, w)"
| called: "filter_run ehf fw \<Longrightarrow> filter_run ehf (filter_act ehf ev fw)"
| by_fiber: "filter_run ehf (f, w) \<Longrightarrow> filter_run ehf (f, put_channel c (channel_act x (w_channels w c)) w)"
| apart: "filter_run ehf (f, w) \<Longrightarrow> w_channels w' = w_channels w \<Longrightarrow> filter_run ehf (f, w')"
| reordered: "filter_run ehf (f, w) \<Longrightarrow> rehashed f f' \<Longrightarrow> filter_run ehf (f', w)"

lemma filter_run_inv: "filter_run ehf fw \<Longrightarrow> streams_inv fw"
proof (induction rule: filter_run.induct)
  case (created f w)
  then show ?case
    by (auto simp: fresh_filter_def new_http_filter_def streams_inv_def)
next
  case (by_fiber f w c x)
  then show ?case
    by (simp add: streams_inv_put_channel channel_onward_act)
next
  case (apart f w w')
  then show ?case
    by (simp add: streams_inv_def)
next
  case (reordered f w f')
  then show ?case
    by (simp add: streams_inv_def list_all_iff rehashed_parts)
qed (rule streams_inv_filter_act)

section \<open>Properties\<close>



text \<open>
  C36. The loop over one upstream stream ends although Envoy may report from
  inside each of its calls: when it returns, nothing is left to ask for, and
  it asked Envoy at most once for every queued item and once for a reset.
\<close>

theorem pump_handle_finishes:
  assumes "bodies_only (snd fw)"
  shows "fst (pump_turn h (pump_handle ehf h fw)) = None \<and>
    asks h (log_of (pump_handle ehf h fw)) \<le> asks h (log_of fw) + pump_measure h fw"
  using assms
proof (induction ehf h fw rule: pump_handle.induct)
  case (1 ehf h fw)
  obtain c fw1 where turn: "pump_turn h fw = (c, fw1)"
    by (cases "pump_turn h fw")
  note asked = pump_turn_asks [OF turn]
  show ?case
  proof (cases c)
    case None
    then have "fw1 = fw"
      using pump_turn_nothing [OF "1.prems"] turn by simp
    then have "pump_handle ehf h fw = fw"
      using turn None by (subst pump_handle.simps) simp
    then show ?thesis
      using turn None by simp
  next
    case (Some x)
    let ?next = "call_reentrant ehf x fw1"
    have "bodies_only (snd ?next)"
      using pump_turn_bodies [OF "1.prems", of h] turn by (simp add: bodies_only_reentrant)
    note IH = "1.IH" [OF turn [symmetric] Some this]
    have "pump_measure h ?next < pump_measure h fw"
      using pump_turn_shrinks [of h fw x fw1] turn Some le_less_trans [OF call_reentrant_measure] by blast
    moreover have "asks h (log_of ?next) = asks h (log_of fw) + 1"
      using asked Some by (simp add: asks_reentrant)
    moreover have "pump_handle ehf h fw = pump_handle ehf h ?next"
      using turn Some by (subst pump_handle.simps) simp
    ultimately show ?thesis
      using IH by simp
  qed
qed

theorem pump_handle_finishes_witness:
  "asks 8 (log_of (pump_handle sample_ehf 8 (sample_calls, sample_calls_world))) \<le> 1"
proof -
  have "bodies_only (snd (sample_calls, sample_calls_world))"
    by (simp add: bodies_only_def sample_calls_world_def sample_world_def new_stream_def)
  then have "asks 8 (log_of (pump_handle sample_ehf 8 (sample_calls, sample_calls_world))) \<le>
      asks 8 (log_of (sample_calls, sample_calls_world)) + pump_measure 8 (sample_calls, sample_calls_world)"
    using pump_handle_finishes by blast
  then show ?thesis
    by (simp add: log_of_def pump_measure_def sample_calls_def sample_calls_world_def sample_world_def
        new_stream_def new_open_stream_def)
qed

end
