(* ===== verification/Queue_Frame.thy ===== *)
theory Queue_Frame
  imports Stream_Tables
begin

text \<open>
  Who writes to which queue in worker.rs.  A queue that is neither the request body's
  nor the answer of an upstream call is left alone by every callback of the filter,
  reports from inside its calls included, except that the drain takes from the
  response queue, a watermark pauses it and the filter's destruction cancels it.
\<close>

section \<open>A queue nobody else writes\<close>

text \<open>
  The response queue of a request is a fresh object: no upstream call answers into
  it and the request body does not arrive through it.
\<close>

definition unshared :: "nat \<Rightarrow> 'e fw \<Rightarrow> bool" where
  "unshared n fw \<longleftrightarrow>
     (f_upstreams (fst fw) = None \<or> list_all (\<lambda>r. ur_response r \<noteq> n) (queued (w_route (snd fw)))) \<and>
     list_all (\<lambda>(_, call). pc_response call \<noteq> n) (f_upstream_calls (fst fw)) \<and>
     (case f_request_body (fst fw) of None \<Rightarrow> True | Some h \<Rightarrow> sh_stream h \<noteq> Plain n)"

text \<open>What the headers of an answer depend on besides its head.\<close>

definition config_of :: "rack_filter \<Rightarrow> bool \<times> string \<times> string" where
  "config_of f = (diagnostics_enabled f, runtime_thread_id f, worker_thread_id f)"

definition owns :: "nat \<Rightarrow> response_stream \<Rightarrow> bool \<times> string \<times> string \<Rightarrow> 'e fw \<Rightarrow> bool" where
  "owns n s cf fw \<longleftrightarrow> unshared n fw \<and> w_streams (snd fw) n = s \<and> config_of (fst fw) = cf"

lemma streams_frame [simp]:
  "w_streams (call_envoy ehf x w) = w_streams w"
  "w_streams (client_wake q w) = w_streams w"
  "w_streams (wake_stream c w) = w_streams w"
  "w_streams (put_channel c ch w) = w_streams w"
  "w_streams (with_metrics f g w) = w_streams w"
  "w_streams (count_call ehf f cl o1 w) = w_streams w"
  "w_streams (report_admission ehf f r w) = w_streams w"
  by (simp_all add: call_envoy_def client_wake_def wake_stream_def put_channel_def with_metrics_def count_call_def
      report_admission_def Let_def split: option.splits)

lemma route_frame [simp]:
  "w_route (call_envoy ehf x w) = w_route w"
  "w_route (client_wake q w) = w_route w"
  "w_route (wake_stream c w) = w_route w"
  "w_route (put_channel c ch w) = w_route w"
  "w_route (with_metrics f g w) = w_route w"
  "w_route (count_call ehf f cl o1 w) = w_route w"
  "w_route (report_admission ehf f r w) = w_route w"
  by (simp_all add: call_envoy_def client_wake_def wake_stream_def put_channel_def with_metrics_def count_call_def
      report_admission_def Let_def split: option.splits)

lemma config_of_update [simp]:
  "config_of (f\<lparr>f_request_body := a\<rparr>) = config_of f" "config_of (f\<lparr>request_end_pending := b\<rparr>) = config_of f"
  "config_of (f\<lparr>f_diagnostics := d\<rparr>) = config_of f" "config_of (f\<lparr>f_stream := r\<rparr>) = config_of f"
  "config_of (f\<lparr>f_state := st\<rparr>) = config_of f" "config_of (f\<lparr>f_submitted_at := at\<rparr>) = config_of f"
  "config_of (f\<lparr>f_upstreams := u\<rparr>) = config_of f" "config_of (f\<lparr>f_upstream_calls := cs\<rparr>) = config_of f"
  "config_of (f\<lparr>f_upstream_streams := ss\<rparr>) = config_of f" "config_of (f\<lparr>f_trace := tr\<rparr>) = config_of f"
  "config_of (f\<lparr>f_request := rq\<rparr>) = config_of f"
  by (simp_all add: config_of_def)

lemma owns_cong:
  assumes "owns n s cf (f, w)" and "w_streams w' n = w_streams w n"
    and "w_route w' = w_route w" and "f_upstreams f' = f_upstreams f"
    and "set (f_upstream_calls f') \<subseteq> set (f_upstream_calls f)"
    and "f_request_body f' = f_request_body f \<or> f_request_body f' = None" and "config_of f' = config_of f"
  shows "owns n s cf (f', w')"
  using assms by (auto simp: owns_def unshared_def list_all_iff split: option.splits)

lemma owns_callback: "owns n s cf fw \<Longrightarrow> owns n s cf (on_callback ehf cb fw)"
proof (cases fw)
  case (Pair f w)
  assume own: "owns n s cf fw"
  show ?thesis
  proof (cases cb)
    case (Callout_done i result hs body)
    show ?thesis
    proof (cases "map_of (f_upstream_calls f) i")
      case (Some call)
      then have "pc_response call \<noteq> n"
        using own map_of_SomeD [OF Some] by (auto simp: Pair owns_def unshared_def list_all_iff)
      with own Some show ?thesis
        by (auto simp: Pair Callout_done on_http_callout_done_def Let_def split: prod.splits
            intro!: owns_cong [of n s cf f w] dest: subsetD [OF set_delete_subset])
    qed (use own in \<open>simp add: Pair Callout_done on_http_callout_done_def\<close>)
  next
    case (Stream_headers k hs e)
    then show ?thesis
      using own by (auto simp: Pair on_http_stream_headers_def Let_def split: option.splits prod.splits intro!: owns_cong [of n s cf f w])
  next
    case (Stream_data k d e)
    then show ?thesis
      using own by (auto simp: Pair on_http_stream_data_def Let_def split: option.splits prod.splits intro!: owns_cong [of n s cf f w])
  next
    case (Stream_trailers k ts)
    then show ?thesis
      using own by (auto simp: Pair on_http_stream_trailers_def Let_def split: option.splits prod.splits intro!: owns_cong [of n s cf f w])
  next
    case (Stream_complete k)
    then show ?thesis
      using own by (auto simp: Pair on_http_stream_complete_def Let_def split: option.splits prod.splits intro!: owns_cong [of n s cf f w])
  next
    case (Stream_reset k r)
    then show ?thesis
      using own by (auto simp: Pair on_http_stream_reset_def Let_def split: option.splits prod.splits intro!: owns_cong [of n s cf f w])
  qed
qed

lemma owns_reenter: "owns n s cf fw \<Longrightarrow> owns n s cf (reenter ehf cbs fw)"
  unfolding reenter_def by (rule fold_keeps [where P = "owns n s cf"]) (rule owns_callback)

lemma owns_reentrant: "owns n s cf fw \<Longrightarrow> owns n s cf (call_reentrant ehf c fw)"
  by (cases fw) (auto simp: call_reentrant_def intro!: owns_reenter intro: owns_cong)

lemma owns_turn: "owns n s cf fw \<Longrightarrow> owns n s cf (snd (pump_turn k fw))"
  by (cases fw) (auto simp: pump_turn_def Let_def split: option.splits prod.splits stream_action.splits intro: owns_cong)

lemma owns_pump_handle: "owns n s cf fw \<Longrightarrow> owns n s cf (pump_handle ehf k fw)"
proof (induction ehf k fw rule: pump_handle.induct)
  case (1 ehf k fw)
  obtain c fw1 where turn: "pump_turn k fw = (c, fw1)"
    by (cases "pump_turn k fw")
  then have "owns n s cf fw1"
    using owns_turn [OF "1.prems", of k] by simp
  then show ?case
    using "1.IH" [OF turn [symmetric]] turn
    by (subst pump_handle.simps) (cases c; simp add: owns_reentrant)
qed

lemma owns_pump: "owns n s cf fw \<Longrightarrow> owns n s cf (pump_streams ehf fw)"
proof -
  have "owns n s cf (pump_stream ehf k x)" if "owns n s cf x" for k and x :: "'a fw"
    using owns_pump_handle [OF that, of ehf k]
    by (auto simp: pump_stream_def split: prod.splits option.splits intro: owns_cong)
  then show "owns n s cf fw \<Longrightarrow> owns n s cf (pump_streams ehf fw)"
    unfolding pump_streams_def by (rule fold_keeps [where P = "owns n s cf"])
qed

lemma owns_send: "owns n s cf fw \<Longrightarrow> ur_response r \<noteq> n \<Longrightarrow> owns n s cf (send_call ehf trace r fw)"
  by (cases fw) (auto simp: send_call_def send_def Let_def owns_def unshared_def list_all_iff
      split: prod.splits option.splits dest!: subsetD [OF set_update_subset])

lemma owns_start: "owns n s cf fw \<Longrightarrow> owns n s cf (start_stream ehf trace r fw)"
proof (cases fw)
  case (Pair f w)
  assume own: "owns n s cf fw"
  obtain res ch h cbs where start: "start ehf r trace (w_channels w (us_channel r)) (w_host w) = (res, ch, h, cbs)"
    by (metis prod_cases4)
  have "owns n s cf (f, (put_channel (us_channel r) ch w)\<lparr>w_host := h\<rparr>)"
    using own by (auto simp: Pair intro: owns_cong)
  then obtain f1 w1 where re: "reenter ehf cbs (f, (put_channel (us_channel r) ch w)\<lparr>w_host := h\<rparr>) = (f1, w1)"
      and own1: "owns n s cf (f1, w1)"
    using owns_reenter by (metis surj_pair)
  show ?thesis
    using own1 by (cases res) (auto simp: Pair start_stream_def start re intro!: owns_cong [OF own1])
qed

lemma fold_keeps_set: "(\<And>x s. x \<in> set xs \<Longrightarrow> P s \<Longrightarrow> P (f x s)) \<Longrightarrow> P s \<Longrightarrow> P (fold f xs s)"
  by (induction xs arbitrary: s) auto

lemma owns_send_upstream: "owns n s cf fw \<Longrightarrow> owns n s cf (send_upstream_calls ehf fw)"
proof (cases fw)
  case (Pair f w)
  assume own: "owns n s cf fw"
  show ?thesis
  proof (cases "f_upstreams f")
    case (Some u)
    let ?route = "snd (take_queued_streams (snd (take_queued (w_route w))))"
    have fresh: "ur_response r \<noteq> n" if "r \<in> set (queued (w_route w))" for r
      using own that Some by (auto simp: Pair owns_def unshared_def list_all_iff)
    have base: "owns n s cf (f\<lparr>f_trace := t\<rparr>, w\<lparr>w_route := ?route\<rparr>)" "owns n s cf (f, w\<lparr>w_route := ?route\<rparr>)" for t
      using own Some by (auto simp: Pair owns_def unshared_def list_all_iff take_queued_def take_queued_streams_def)
    have "owns n s cf (fold (start_stream ehf trace) ss (fold (send_call ehf trace) (queued (w_route w)) x))"
      if "owns n s cf x" for trace ss and x :: "'a fw"
      by (intro fold_keeps [where P = "owns n s cf"] fold_keeps_set [where P = "owns n s cf"] that owns_start owns_send fresh)
    with base show ?thesis
      by (auto simp: Pair send_upstream_calls_def Some take_queued_def take_queued_streams_def Let_def intro!: owns_pump)
  qed (use own in \<open>simp add: Pair send_upstream_calls_def\<close>)
qed

lemma put_other_stream: "r \<noteq> Plain n \<Longrightarrow> w_streams (put_stream r s w) n = w_streams w n"
  by (cases r) auto

lemma copy_available_other:
  assumes "r \<noteq> Plain n"
  shows "w_streams (snd (copy_available ehf r w)) n = w_streams w n" "w_route (snd (copy_available ehf r w)) = w_route w"
proof -
  have "w_streams (snd (copy_body ehf src limit r v)) n = w_streams v n \<and> w_route (snd (copy_body ehf src limit r v)) = w_route v"
    for src limit and v :: "'a world"
    by (simp add: copy_body_def Let_def put_other_stream [OF assms] split: prod.splits)
  then show "w_streams (snd (copy_available ehf r w)) n = w_streams w n"
      "w_route (snd (copy_available ehf r w)) = w_route w"
    by (simp_all add: copy_available_def Let_def case_prod_beta)
qed

lemma owns_forward: "owns n s cf fw \<Longrightarrow> owns n s cf (forward_request_body ehf fw)"
proof (cases fw)
  case (Pair f w)
  assume own: "owns n s cf fw"
  show ?thesis
  proof (cases "f_request_body f")
    case (Some h)
    obtain k w2 where copied: "copy_available ehf (sh_stream h) w = (k, w2)"
      by (cases "copy_available ehf (sh_stream h) w")
    have other: "sh_stream h \<noteq> Plain n"
      using own Some by (simp add: Pair owns_def unshared_def)
    then have "w_streams w2 n = w_streams w n" "w_route w2 = w_route w"
      using copy_available_other [OF other, of ehf w] by (simp_all add: copied)
    then show ?thesis
      using own by (auto simp: Pair forward_request_body_def Some copied Let_def put_other_stream [OF other]
          intro!: owns_cong [of n s cf f w])
  qed (use own in \<open>simp add: Pair forward_request_body_def\<close>)
qed

lemma owns_report_outcome: "owns n s cf fw \<Longrightarrow> owns n s cf (report_outcome ehf outcome fw)"
  by (cases fw) (auto simp: report_outcome_def split: option.splits intro: owns_cong)

text \<open>Giving up what is open at the end touches no queue but those of the open calls.\<close>

lemma fold_world:
  assumes "\<And>x v l. x \<in> set xs \<Longrightarrow> F (fst (g x (v, l))) = F v"
  shows "F (fst (fold g xs acc)) = F (fst acc)"
  using assms
proof (induction xs arbitrary: acc)
  case (Cons x xs)
  then show ?case
    by (cases acc) simp
qed simp

lemma abandon_each_other:
  assumes "list_all (\<lambda>(r, _). r \<noteq> n) waiting"
  shows "w_streams (fst (abandon_each waiting streams opens w)) n = w_streams w n"
proof -
  let ?F = "\<lambda>v :: 'a world. w_streams v n"
  have call: "?F (fst (abandon_call x (v, l))) = ?F v" if "x \<in> set waiting" for x v l
    using assms that by (cases x) (auto simp: abandon_call_def Let_def list_all_iff)
  have 1: "?F (fst (fold abandon_call waiting (w, []))) = ?F (fst (w, [] :: (string \<times> call_outcome) list))"
    by (rule fold_world [where F = ?F]) (rule call)
  have 2: "?F (fst (fold abandon_unsent streams acc)) = ?F (fst acc)" for acc
    by (rule fold_world [where F = ?F]) (simp add: abandon_unsent_def Let_def)
  have 3: "?F (fst (fold abandon_open opens acc)) = ?F (fst acc)" for acc
    by (rule fold_world [where F = ?F]) (simp add: abandon_open_def Let_def split: prod.splits)
  show ?thesis
    using 1 by (simp only: abandon_each_def 2 3 fst_conv)
qed

lemma owns_abandon: "owns n s cf fw \<Longrightarrow> owns n s cf (snd (abandon_upstreams fw))"
proof (cases fw)
  case (Pair f w)
  assume own: "owns n s cf fw"
  obtain u w1 where u: "take_unsent (f, w) = (u, w1)" by (cases "take_unsent (f, w)")
  let ?waiting = "map (\<lambda>r. (ur_response r, ur_cluster r)) (unsent_calls u) @
    map (\<lambda>(_, call). (pc_response call, pc_cluster call)) (f_upstream_calls f)"
  have other: "list_all (\<lambda>(r, _). r \<noteq> n) ?waiting" "w_streams w1 = w_streams w"
    using own u by (auto simp: Pair owns_def unshared_def take_unsent_def close_calls_def list_all_iff split: option.splits)
  have "w_streams (fst (abandon_each ?waiting (unsent_streams u) (map snd (f_upstream_streams f)) w1)) n = w_streams w n"
    using abandon_each_other [OF other(1), of "unsent_streams u" "map snd (f_upstream_streams f)" w1] other(2) by simp
  then show ?thesis
    using own by (auto simp: Pair abandon_upstreams_def u owns_def unshared_def split: prod.splits)
qed

lemma owns_stream_complete: "owns n s cf fw \<Longrightarrow> owns n s cf (on_stream_complete ehf fw)"
proof -
  assume own: "owns n s cf fw"
  obtain over f w where a: "abandon_upstreams (report_outcome ehf OUTCOME_CANCELLED fw) = (over, f, w)"
    by (cases "abandon_upstreams (report_outcome ehf OUTCOME_CANCELLED fw)") auto
  have "owns n s cf (f, w)"
    using owns_abandon [OF owns_report_outcome [OF own], of ehf OUTCOME_CANCELLED] by (simp add: a)
  then have "owns n s cf (f, fold (\<lambda>(cl, x). count_call ehf f cl x) over w)"
    by (intro fold_keeps [where P = "\<lambda>v. owns n s cf (f, v)"]) (auto intro: owns_cong)
  then show ?thesis
    by (simp add: on_stream_complete_def a)
qed

text \<open>No callback but the drain touches what is queued for the client; a watermark sets its pause.\<close>

lemma owns_filter_act:
  assumes own: "owns n s cf fw" and stream: "f_stream (fst fw) = None \<or> f_stream (fst fw) = Some (Plain n)"
    and ev: "\<And>e. ev \<noteq> Fe_request_headers e" "ev = Fe_scheduled RESPONSE_EVENT_ID \<Longrightarrow> f_state (fst fw) \<notin> {Waiting, Streaming}"
  shows "\<exists>p. owns n (s\<lparr>paused := p\<rparr>) cf (filter_act ehf ev fw)"
proof -
  obtain f w where fw: "fw = (f, w)" by (cases fw)
  have pend: "owns n s cf (f\<lparr>request_end_pending := b\<rparr>, w)" for b
    using own by (auto simp: fw intro: owns_cong)
  have queue: "w_streams w n = s"
    using own by (simp add: fw owns_def)
  have pause: "owns n (s\<lparr>paused := p\<rparr>) cf (f, put_stream (Plain n) (set_paused p s) w)" for p
    using own by (simp add: fw owns_def unshared_def set_paused_def)
  have still: "\<exists>p. owns n (s\<lparr>paused := p\<rparr>) cf x" if "owns n s cf x" for x :: "'a fw"
    using that by (intro exI [of _ "paused s"]) simp
  show ?thesis
  proof (cases ev)
    case (Fe_scheduled i)
    have "owns n s cf (on_scheduled ehf i fw)"
      using own ev(2) Fe_scheduled owns_forward [OF own] owns_send_upstream [OF own] by (auto simp: on_scheduled_def)
    then show ?thesis
      using still by (simp add: Fe_scheduled)
  next
    case Fe_above_watermark
    show ?thesis
    proof (cases "f_stream f")
      case (Some r)
      then show ?thesis
        using pause [of True] stream queue
        by (intro exI [of _ True]) (simp add: Fe_above_watermark fw on_downstream_above_write_buffer_high_watermark_def)
    qed (use own still in \<open>simp add: Fe_above_watermark fw on_downstream_above_write_buffer_high_watermark_def\<close>)
  next
    case Fe_below_watermark
    have "owns n (s\<lparr>paused := False\<rparr>) cf (f, call_envoy ehf c (put_stream (Plain n) (set_paused False s) w))" for c
      using pause [of False] by (rule owns_cong) simp_all
    then show ?thesis
      using own queue still stream
      by (cases "f_stream f") (auto simp: Fe_below_watermark fw on_downstream_below_write_buffer_low_watermark_def)
  qed (use ev(1) own still owns_callback [OF own] owns_stream_complete [OF own] owns_forward [OF pend] in
    \<open>auto simp: fw on_request_body_def on_request_trailers_def\<close>)
qed

lemma drop_filter_cancels:
  assumes own: "owns n s cf fw" and stream: "f_stream (fst fw) = None \<or> f_stream (fst fw) = Some (Plain n)"
  shows "owns n (if f_stream (fst fw) = None then s else cancel s) cf (drop_filter fw)"
    and "f_stream (fst (drop_filter fw)) = None" and "log_of (drop_filter fw) = log_of fw"
    and "f_state (fst (drop_filter fw)) = f_state (fst fw)"
proof -
  obtain f w where fw: "fw = (f, w)" by (cases fw)
  let ?s = "if f_stream f = None then s else cancel s"
  define w1 where "w1 = (case f_stream f of None \<Rightarrow> w | Some r \<Rightarrow>
      let w' = put_stream r (cancel (get_stream r w)) w in
      if writer_owed_wakeup (get_stream r w') then client_wake r w' else w')"
  define w2 where "w2 = (case f_request_body f of None \<Rightarrow> w1 | Some h \<Rightarrow>
      client_wake (sh_stream h) (put_stream (sh_stream h) (cancel (get_stream (sh_stream h) w1)) w1))"
  define f2 where "f2 = f\<lparr>f_stream := None, f_request_body := None\<rparr>"
  have dropped: "drop_filter fw = snd (abandon_upstreams (f2, w2))"
    unfolding w2_def w1_def f2_def by (simp add: drop_filter_def fw Let_def)
  have w1: "w_streams w1 n = ?s" "w_route w1 = w_route w" "elog (w_host w1) = elog (w_host w)"
    using own stream by (auto simp: w1_def fw owns_def Let_def split: option.splits)
  have w2: "w_streams w2 n = ?s" "w_route w2 = w_route w" "elog (w_host w2) = elog (w_host w)"
    using own w1 by (auto simp: w2_def fw owns_def unshared_def put_other_stream split: option.splits)
  have "owns n ?s cf (f2, w2)"
    using own w2 by (auto simp: fw f2_def owns_def unshared_def)
  then show "owns n (if f_stream (fst fw) = None then s else cancel s) cf (drop_filter fw)"
    unfolding dropped using owns_abandon by (simp only: fw fst_conv)
  have q: "quiet (f2, w2) (drop_filter fw)"
    unfolding dropped by (rule quiet_abandon_upstreams)
  then show "f_stream (fst (drop_filter fw)) = None" "f_state (fst (drop_filter fw)) = f_state (fst fw)"
    by (simp_all add: quiet_def f2_def fw)
  obtain over f3 w3 where a: "abandon_upstreams (f2, w2) = (over, f3, w3)"
    by (cases "abandon_upstreams (f2, w2)") auto
  show "log_of (drop_filter fw) = log_of fw"
    unfolding dropped using abandon_upstreams_log(1) [OF a] w2(3) by (simp add: a log_of_def fw)
qed

lemma owns_rehashed: "owns n s cf (f, w) \<Longrightarrow> rehashed f f' \<Longrightarrow> owns n s cf (f', w)"
  by (erule owns_cong) (simp_all add: rehashed_parts config_of_def)

end
