(* ===== verification/Rack_Env.thy ===== *)
theory Rack_Env
  imports Fiber_Client "HOL-Library.AList"
begin

text \<open>
  Translation between an owned request and the Rack protocol, src/src/rack.rs:
  the environment an application is called with, what it returned, the upgrade
  it accepted, and the two ways of running it.

  Ruby is not part of the repository.  A Ruby object is an opaque \<open>'v\<close>; each
  call into Ruby is a field of the record \<open>ruby\<close>, whose result is the text of the
  exception it raised or its value.  The application, the body reader and the
  \<open>StringIO\<close> class of a \<open>CallContext\<close> are in there too.  The environment is Ruby's hash, in
  insertion order.  While a body is streamed the fiber, its worker and the
  reactor all use the response queue, so what happens to it is a sequence of
  \<open>stream_op\<close>s that Ruby's part of the parameter chooses.  Clock readings are
  arguments.
\<close>

section \<open>Data\<close>

datatype concurrency = Serial | Interleaved

definition multithread :: "concurrency \<Rightarrow> bool" where
  "multithread c = (case c of Interleaved \<Rightarrow> True | Serial \<Rightarrow> False)"

datatype ('v, 'u) env_value =
    Ev_text string
  | Ev_bytes bytes
  | Ev_bool bool
  | Ev_object 'v
  | Ev_context envoy_context
  | Ev_upstream 'u
  | Ev_list "string list"

type_synonym ('v, 'u) rack_env = "(string \<times> ('v, 'u) env_value) list"

text \<open>
  What the application returned, by the conversions the code asks of it.  A
  header value is an array of strings or one string.
\<close>

datatype header_value =
    Hv_many "(string, string list) result"
  | Hv_one "(string, string) result"

record 'v rack_array =
  ra_len :: nat
  ra_status :: "(string, int) result"
  ra_headers :: "(string, ((string, string) result \<times> header_value) list) result"
  ra_body :: "(string, 'v) result"

record ('v, 'h, 'u) ruby =
  aset_raises :: "string \<Rightarrow> string option"
  string_io_new :: "bytes \<Rightarrow> (string, 'v) result"
  binmode :: "'v \<Rightarrow> (string, unit) result"
  request_body_new :: "'h \<Rightarrow> (string, 'v) result"
  app_call :: "('v, 'u) rack_env \<Rightarrow> (string, 'v rack_array) result"
  read_body :: "'v \<Rightarrow> (string, bytes) result"
  stream_body :: "'v \<Rightarrow> 'v \<Rightarrow> stream_op list \<times> (string, unit) result"
  close_input :: "'v \<Rightarrow> (string, unit) result"
  debug_text :: "string \<Rightarrow> string"

record 'v call_context =
  has_request_body_class :: bool
  rack_errors :: 'v
  ruby_thread_object_id :: u64
  cc_concurrency :: concurrency
  cc_extensions :: bool

record ('v, 'u) env_build =
  eb_env :: "('v, 'u) rack_env"
  eb_input :: 'v
  eb_protocols :: "string list option"
  eb_streaming_input :: "'v option"
  eb_diagnostics :: "request_diagnostics option"
  runtime_queue_time :: "duration option"
  rack_input_time :: duration

section \<open>The environment\<close>

definition INTERNED_KEYS :: "string list" where
  "INTERNED_KEYS =
     [''CONTENT_LENGTH'', ''CONTENT_TYPE'', ''HTTP_ACCEPT'', ''HTTP_ACCEPT_ENCODING'', ''HTTP_ACCEPT_LANGUAGE'',
      ''HTTP_AUTHORIZATION'', ''HTTP_CACHE_CONTROL'', ''HTTP_CONNECTION'', ''HTTP_COOKIE'', ''HTTP_HOST'',
      ''HTTP_IF_MODIFIED_SINCE'', ''HTTP_IF_NONE_MATCH'', ''HTTP_ORIGIN'', ''HTTP_RANGE'', ''HTTP_REFERER'',
      ''HTTP_USER_AGENT'', ''HTTP_X_FORWARDED_FOR'', ''HTTP_X_FORWARDED_PROTO'', ''HTTP_X_REQUEST_ID'',
      ''PATH_INFO'', ''QUERY_STRING'', ''REMOTE_ADDR'', ''REQUEST_METHOD'', ''SCRIPT_NAME'', ''SERVER_NAME'',
      ''SERVER_PORT'', ''SERVER_PROTOCOL'', ''rack.errors'', ''rack.input'', ''rack.multiprocess'',
      ''rack.multithread'', ''rack.run_once'', ''rack.url_scheme'', ''ruvoy.context'', ''ruvoy.force_gc'',
      ''ruvoy.upstream'']"

text \<open>The table maps a key to the interned string of the same text.\<close>

definition env_keys :: "string \<rightharpoonup> string" where
  "env_keys = map_of (map (\<lambda>k. (k, k)) INTERNED_KEYS)"

definition aset ::
    "('v, 'h, 'u) ruby \<Rightarrow> string \<Rightarrow> ('v, 'u) env_value \<Rightarrow> ('v, 'u) rack_env \<Rightarrow> (string, ('v, 'u) rack_env) result" where
  "aset rb key v env = (case aset_raises rb key of None \<Rightarrow> Inr (AList.update key v env) | Some e \<Rightarrow> Inl e)"

definition set_env ::
    "('v, 'h, 'u) ruby \<Rightarrow> string \<Rightarrow> ('v, 'u) env_value \<Rightarrow> ('v, 'u) rack_env \<Rightarrow> (bridge_error, ('v, 'u) rack_env) result" where
  "set_env rb key v env =
     map_sum (ruby_error (''setting '' @ key)) id
       (case env_keys key of Some interned \<Rightarrow> aset rb interned v env | None \<Rightarrow> aset rb key v env)"

text \<open>Entries written one after the other; the first failure ends it.\<close>

fun set_all ::
    "('v, 'h, 'u) ruby \<Rightarrow> (string \<times> ('v, 'u) env_value) list \<Rightarrow> ('v, 'u) rack_env
       \<Rightarrow> (bridge_error, ('v, 'u) rack_env) result" where
  "set_all rb [] env = Inr env"
| "set_all rb ((k, v) # rest) env = and_then (set_env rb k v env) (set_all rb rest)"

text \<open>The buffer the key is built in is cleared first, so nothing of it is left.\<close>

definition env_header_key :: "string \<Rightarrow> string option" where
  "env_header_key name =
     (if starts_with name '':'' then None
      else Some
        (if eq_ignore_ascii_case name ''content-type'' then ''CONTENT_TYPE''
         else if eq_ignore_ascii_case name ''content-length'' then ''CONTENT_LENGTH''
         else ''HTTP_'' @ map (\<lambda>c. if c = CHR ''-'' then CHR ''_'' else to_ascii_uppercase c) name))"

definition header_tokens :: "string \<Rightarrow> (string \<times> bytes) list \<Rightarrow> string list" where
  "header_tokens wanted headers =
     concat (map (\<lambda>(_, v). filter (\<lambda>t. t \<noteq> []) (map trim (split_on CHR '','' (from_utf8_lossy v))))
       (filter (\<lambda>(name, _). eq_ignore_ascii_case name wanted) headers))"

definition upgrade_protocols :: "(string \<times> bytes) list \<Rightarrow> string list option" where
  "upgrade_protocols headers =
     (if \<not> list_ex (\<lambda>t. eq_ignore_ascii_case t ''upgrade'') (header_tokens ''connection'' headers) then None
      else let protocols = header_tokens ''upgrade'' headers
           in if protocols \<noteq> [] then Some protocols else None)"

definition collected_input :: "('v, 'h, 'u) ruby \<Rightarrow> bytes \<Rightarrow> (bridge_error, 'v) result" where
  "collected_input rb body =
     and_then (map_sum (ruby_error ''creating rack.input StringIO'') id (string_io_new rb body)) (\<lambda>input.
     and_then (map_sum (ruby_error ''setting rack.input binary mode'') id (binmode rb input)) (\<lambda>_.
     Inr input))"

definition streaming_input :: "('v, 'h, 'u) ruby \<Rightarrow> 'v call_context \<Rightarrow> 'h \<Rightarrow> (bridge_error, 'v) result" where
  "streaming_input rb ctx handle =
     (if \<not> has_request_body_class ctx
      then Inl (InvalidResponse ''this runtime cannot serve a streaming request body'')
      else map_sum (ruby_error ''creating rack.input'') id (request_body_new rb handle))"

text \<open>An entry written only when there is a value.\<close>

definition opt_entry :: "string \<Rightarrow> 'a option \<Rightarrow> (string \<times> 'a) list" where
  "opt_entry k x = (case x of None \<Rightarrow> [] | Some v \<Rightarrow> [(k, v)])"

text \<open>The path and the query, at the first question mark.\<close>

definition path_of :: "string \<Rightarrow> string \<times> string" where
  "path_of p = (case split_once CHR ''?'' p of Some x \<Rightarrow> x | None \<Rightarrow> (p, []))"

text \<open>What is written before the input, in the order of the code.\<close>

definition env_entries ::
    "'v call_context \<Rightarrow> ('h, 'u) request \<Rightarrow> (string \<times> ('v, 'u) env_value) list" where
  "env_entries ctx r =
     (let md = req_metadata r;
          (path_info, query_string) = path_of (req_path r)
      in [(''REQUEST_METHOD'', Ev_text (req_method r)),
          (''SCRIPT_NAME'', Ev_text []),
          (''PATH_INFO'', Ev_text path_info),
          (''QUERY_STRING'', Ev_text query_string),
          (''SERVER_NAME'', Ev_text (md_server_name md)),
          (''SERVER_PORT'', Ev_text (show_nat (unat (md_server_port md)))),
          (''SERVER_PROTOCOL'', Ev_text (md_protocol md)),
          (''HTTP_HOST'', Ev_text (md_authority md))] @
         opt_entry ''REMOTE_ADDR'' (map_option Ev_text (md_remote_addr md)) @
         [(''rack.url_scheme'', Ev_text (md_scheme md)),
          (''rack.errors'', Ev_object (rack_errors ctx)),
          (''rack.multithread'', Ev_bool (multithread (cc_concurrency ctx))),
          (''rack.multiprocess'', Ev_bool False),
          (''rack.run_once'', Ev_bool False),
          (''ruvoy.force_gc'', Ev_bool (force_gc r))] @
         opt_entry ''ruvoy.context'' (map_option Ev_context (opt_filter (\<lambda>_. cc_extensions ctx) (req_context r))) @
         opt_entry ''ruvoy.upstream'' (map_option Ev_upstream (opt_filter (\<lambda>_. cc_extensions ctx) (req_upstreams r))) @
         opt_entry ''rack.protocol'' (map_option Ev_list (opt_filter (\<lambda>_. cc_extensions ctx) (upgrade_protocols (req_headers r)))))"

definition header_entries :: "(string \<times> bytes) list \<Rightarrow> (string \<times> ('v, 'u) env_value) list" where
  "header_entries headers =
     List.map_filter (\<lambda>(name, v). map_option (\<lambda>k. (k, Ev_bytes v)) (env_header_key name)) headers"

definition build_env ::
    "('v, 'h, 'u) ruby \<Rightarrow> 'v call_context \<Rightarrow> ('h, 'u) request \<Rightarrow> instant \<Rightarrow> duration
       \<Rightarrow> (bridge_error, ('v, 'u) env_build) result" where
  "build_env rb ctx r runtime_started_at input_time =
     and_then (set_all rb (env_entries ctx r) []) (\<lambda>env1.
     and_then (set_all rb (header_entries (req_headers r)) env1) (\<lambda>env2.
     and_then (case body_stream r of
                 Some handle \<Rightarrow> map_sum id (\<lambda>i. (i, Some i)) (streaming_input rb ctx handle)
               | None \<Rightarrow> map_sum id (\<lambda>i. (i, None)) (collected_input rb (req_body r))) (\<lambda>(input, closed_after).
     and_then (set_env rb ''rack.input'' (Ev_object input) env2) (\<lambda>env3.
     Inr \<lparr> eb_env = env3, eb_input = input,
           eb_protocols = opt_filter (\<lambda>_. cc_extensions ctx) (upgrade_protocols (req_headers r)),
           eb_streaming_input = closed_after, eb_diagnostics = diagnostics r,
           runtime_queue_time = Option.bind (diagnostics r)
             (\<lambda>d. map_option (\<lambda>at. runtime_started_at - at) (submitted_at d)),
           rack_input_time = input_time \<rparr>))))"

section \<open>The response\<close>

fun copy_response_headers ::
    "((string, string) result \<times> header_value) list \<Rightarrow> header_list \<Rightarrow> (string, header_list) result" where
  "copy_response_headers [] acc = Inr acc"
| "copy_response_headers ((name, v) # rest) acc =
     and_then name (\<lambda>n.
     and_then (case v of Hv_many vs \<Rightarrow> vs | Hv_one x \<Rightarrow> map_sum id (\<lambda>x. [x]) x) (\<lambda>vs.
     copy_response_headers rest (acc @ map (\<lambda>x. (n, x)) vs)))"

record 'v response_parts =
  rp_status :: u16
  rp_headers :: header_list
  rp_body :: 'v

definition response_parts_of :: "'v rack_array \<Rightarrow> (bridge_error, 'v response_parts) result" where
  "response_parts_of a =
     (if ra_len a \<noteq> 3
      then Inl (InvalidResponse (''expected 3 entries, got '' @ show_nat (ra_len a)))
      else
        and_then (and_then (map_sum (ruby_error ''converting response status'') id (ra_status a)) (\<lambda>status.
          if 0 \<le> status \<and> status \<le> 65535 then Inr (word_of_int status)
          else Inl (InvalidResponse (''status '' @ show_int status @ '' is outside the u16 range'')))) (\<lambda>status.
        and_then (and_then (map_sum (ruby_error ''converting response headers'') id (ra_headers a)) (\<lambda>hash.
          map_sum (ruby_error ''copying response headers'') id (copy_response_headers hash []))) (\<lambda>headers.
        and_then (map_sum (ruby_error ''reading response body'') id (ra_body a)) (\<lambda>body.
        Inr \<lparr> rp_status = status, rp_headers = headers, rp_body = body \<rparr>))))"

text \<open>\<open>position\<close> and \<open>remove\<close> of the first header of that name.\<close>

fun remove_first :: "string \<Rightarrow> header_list \<Rightarrow> (string \<times> header_list) option" where
  "remove_first n [] = None"
| "remove_first n ((k, v) # rest) =
     (if k = n then Some (v, rest) else map_option (\<lambda>(x, hs). (x, (k, v) # hs)) (remove_first n rest))"

definition accepted_protocol ::
    "(string \<Rightarrow> string) \<Rightarrow> header_list \<Rightarrow> string list option
       \<Rightarrow> (bridge_error, string option) result \<times> header_list" where
  "accepted_protocol debug headers offered =
     (case remove_first ''rack.protocol'' headers of
        None \<Rightarrow> (Inr None, headers)
      | Some (protocol, rest) \<Rightarrow>
          if \<not> (case offered of None \<Rightarrow> False | Some ps \<Rightarrow> list_ex (\<lambda>c. c = protocol) ps)
          then (Inl (InvalidResponse (''rack.protocol '' @ debug protocol @ '' is not one the client offered'')), rest)
          else (Inr (Some protocol),
                filter (\<lambda>(name, _). \<not> eq_ignore_ascii_case name ''upgrade'' \<and> \<not> eq_ignore_ascii_case name ''connection'') rest))"

definition stage_timing_headers :: "('v, 'u) env_build \<Rightarrow> duration \<Rightarrow> duration \<Rightarrow> header_list" where
  "stage_timing_headers b rack_call_time response_copy_time =
     (case eb_diagnostics b of
        None \<Rightarrow> []
      | Some d \<Rightarrow>
          let ingress_time = unwrap_or (map_option (\<lambda>at. at - received_at d) (submitted_at d)) 0 in
          [(''x-ruvoy-stage-timing'', ''1''),
           (''x-ruvoy-stage-ingress-ns'', show_nat ingress_time),
           (''x-ruvoy-stage-body-copy-ns'', show_nat (body_copy_time d)),
           (''x-ruvoy-stage-body-callbacks'', show_nat (unat (body_callbacks d))),
           (''x-ruvoy-stage-runtime-queue-ns'', show_nat (unwrap_or (runtime_queue_time b) 0)),
           (''x-ruvoy-stage-rack-input-ns'', show_nat (rack_input_time b)),
           (''x-ruvoy-stage-rack-call-ns'', show_nat rack_call_time),
           (''x-ruvoy-stage-response-copy-ns'', show_nat response_copy_time)])"

section \<open>Running the application\<close>

text \<open>The clock readings one call makes.\<close>

record call_times =
  t_runtime_started :: instant
  t_rack_input :: duration
  t_rack_call :: duration
  t_response_copy :: duration

definition rack_call ::
    "('v, 'h, 'u) ruby \<Rightarrow> 'v call_context \<Rightarrow> ('h, 'u) request \<Rightarrow> call_times \<Rightarrow> (bridge_error, response) result" where
  "rack_call rb ctx r t =
     and_then (build_env rb ctx r (t_runtime_started t) (t_rack_input t)) (\<lambda>b.
     and_then (map_sum (ruby_error ''calling app.call(env)'') id (app_call rb (eb_env b))) (\<lambda>a.
     and_then (response_parts_of a) (\<lambda>parts.
     and_then (map_sum (ruby_error ''consuming response body'') id (read_body rb (rp_body parts))) (\<lambda>body.
     Inr \<lparr> resp_status = rp_status parts,
           resp_headers = rp_headers parts @ stage_timing_headers b (t_rack_call t) (t_response_copy t),
           resp_body = body, resp_thread = ruby_thread_object_id ctx \<rparr>))))"

text \<open>
  The streamed response: what it returns, the queue it leaves, and how often it
  woke the worker.
\<close>

definition respond ::
    "('v, 'h, 'u) ruby \<Rightarrow> 'v call_context \<Rightarrow> ('v, 'u) env_build \<Rightarrow> call_times \<Rightarrow> response_stream
       \<Rightarrow> (bridge_error, unit) result \<times> response_stream \<times> nat" where
  "respond rb ctx b t s =
     (case and_then (map_sum (ruby_error ''calling app.call(env)'') id (app_call rb (eb_env b))) response_parts_of of
        Inl e \<Rightarrow> (Inl e, s, 0)
      | Inr parts \<Rightarrow>
          (case accepted_protocol (debug_text rb) (rp_headers parts) (eb_protocols b) of
             (Inl e, _) \<Rightarrow> (Inl e, s, 0)
           | (Inr accepted, headers0) \<Rightarrow>
               let status = (case accepted of None \<Rightarrow> rp_status parts | Some _ \<Rightarrow> 101);
                   headers1 = (case accepted of None \<Rightarrow> headers0
                     | Some protocol \<Rightarrow> headers0 @ [(''upgrade'', protocol), (''connection'', ''upgrade'')]);
                   headers2 = headers1 @ stage_timing_headers b (t_rack_call t) 0;
                   (pushed, s1) = push_head \<lparr> head_status = status, head_headers = headers2,
                                              head_thread = ruby_thread_object_id ctx \<rparr> s
               in if \<not> pushed then (Inr (), s1, 0)
                  else
                    let (uses, streamed) = stream_body rb (rp_body parts) (eb_input b);
                        s2 = run stream_act uses s1
                    in case map_sum (ruby_error ''streaming response body'') id streamed of
                         Inl e \<Rightarrow> (Inl e, s2, 1)
                       | Inr _ \<Rightarrow> (Inr (), snd (push_end s2), 2)))"

text \<open>The input over a body still arriving is closed whatever happened; that it raised is ignored.\<close>

definition call_streaming ::
    "('v, 'h, 'u) ruby \<Rightarrow> 'v call_context \<Rightarrow> ('h, 'u) request \<Rightarrow> call_times \<Rightarrow> response_stream
       \<Rightarrow> (bridge_error, unit) result \<times> response_stream \<times> nat \<times> 'v list" where
  "call_streaming rb ctx r t s =
     (case build_env rb ctx r (t_runtime_started t) (t_rack_input t) of
        Inl e \<Rightarrow> (Inl e, s, 0, [])
      | Inr b \<Rightarrow>
          let (result, s1, wakes) = respond rb ctx b t s
          in (result, s1, wakes, (case eb_streaming_input b of None \<Rightarrow> [] | Some input \<Rightarrow> [input])))"

section \<open>Facts about the environment\<close>

lemma set_env_eq: "set_env rb key v env = map_sum (ruby_error (''setting '' @ key)) id (aset rb key v env)"
proof -
  have "map_of (map (\<lambda>k. (k, k)) ks) key \<in> {None, Some key}" for ks
    by (induction ks) auto
  from this [of INTERNED_KEYS] show ?thesis
    unfolding set_env_def env_keys_def by auto
qed

lemma set_env_Inr:
  "set_env rb key v env = Inr env' \<longleftrightarrow> aset_raises rb key = None \<and> env' = AList.update key v env"
  by (auto simp: set_env_eq aset_def split: option.splits)

lemma set_all_Inr:
  "set_all rb xs env = Inr env' \<Longrightarrow> map_of env' = map_of env ++ map_of (rev xs)"
proof (induction xs arbitrary: env)
  case (Cons x xs)
  obtain k v where x: "x = (k, v)" by (cases x)
  have "map_of env' = map_of (AList.update k v env) ++ map_of (rev xs)"
    using Cons by (auto simp: x and_then_Inr_iff set_env_Inr)
  moreover have "map_of (rev (x # xs)) = [k \<mapsto> v] ++ map_of (rev xs)"
    by (simp add: x)
  ultimately show ?case
    by (simp add: update_conv' del: fun_upd_apply)
qed simp

definition header_reach :: "string \<Rightarrow> bool" where
  "header_reach k \<longleftrightarrow> starts_with k ''HTTP_'' \<or> k = ''CONTENT_TYPE'' \<or> k = ''CONTENT_LENGTH''"

definition http_key :: "string \<Rightarrow> string" where
  "http_key name = ''HTTP_'' @ map (\<lambda>c. if c = CHR ''-'' then CHR ''_'' else to_ascii_uppercase c) name"

lemma env_header_key_cases:
  assumes "env_header_key name = Some k"
  obtains "k = ''CONTENT_TYPE''" | "k = ''CONTENT_LENGTH''" | "k = http_key name"
proof -
  have "Some k = (if starts_with name '':'' then None else Some
      (if eq_ignore_ascii_case name ''content-type'' then ''CONTENT_TYPE''
       else if eq_ignore_ascii_case name ''content-length'' then ''CONTENT_LENGTH'' else http_key name))"
    using assms unfolding env_header_key_def http_key_def by (rule sym)
  then have "k = ''CONTENT_TYPE'' \<or> k = ''CONTENT_LENGTH'' \<or> k = http_key name"
    by (simp only: option.inject option.distinct simp_thms split: if_splits)
  then show thesis
    using that by blast
qed

lemma http_key_reach: "header_reach (http_key name)"
  unfolding header_reach_def http_key_def by (rule disjI1) (rule starts_with_append)

lemma env_header_key_reach: "env_header_key name = Some k \<Longrightarrow> header_reach k"
  by (erule env_header_key_cases) (simp_all only: http_key_reach, simp_all only: header_reach_def simp_thms)

lemma header_entries_reach: "k \<in> fst ` set (header_entries headers) \<Longrightarrow> header_reach k"
  unfolding header_entries_def by (induction headers)
    (auto simp: List.map_filter_simps intro: env_header_key_reach split: option.splits)

lemma build_env_lookup:
  assumes "build_env rb ctx r started input_time = Inr b"
  shows "map_of (eb_env b) = (map_of (rev (env_entries ctx r)) ++ map_of (rev (header_entries (req_headers r))))
      (''rack.input'' \<mapsto> Ev_object (eb_input b))"
    and "eb_protocols b = opt_filter (\<lambda>_. cc_extensions ctx) (upgrade_protocols (req_headers r))"
  using assms by (auto simp: build_env_def and_then_Inr_iff set_env_Inr update_conv' dest!: set_all_Inr)

lemma header_entries_unreached: "\<not> header_reach k \<Longrightarrow> map_of (rev (header_entries headers)) k = None"
  using header_entries_reach [of k headers] by (auto simp: map_of_eq_None_iff)

lemma build_env_beyond_headers:
  assumes "build_env rb ctx r started input_time = Inr b" and "\<not> header_reach k"
  shows "map_of (eb_env b) k =
    (if k = ''rack.input'' then Some (Ev_object (eb_input b)) else map_of (rev (env_entries ctx r)) k)"
  by (simp add: build_env_lookup(1) [OF assms(1)] map_add_def header_entries_unreached [OF assms(2)])

lemma opt_entry_lookup: "map_of (opt_entry k x) k' = (if k' = k then x else None)" "rev (opt_entry k x) = opt_entry k x"
  by (simp_all add: opt_entry_def split: option.splits)

lemma unreached_keys:
  "\<not> header_reach ''REQUEST_METHOD''" "\<not> header_reach ''PATH_INFO''" "\<not> header_reach ''QUERY_STRING''"
  "\<not> header_reach ''SERVER_NAME''" "\<not> header_reach ''SERVER_PORT''" "\<not> header_reach ''REMOTE_ADDR''"
  "\<not> header_reach ''rack.url_scheme''" "\<not> header_reach ''rack.multithread''" "\<not> header_reach ''rack.input''"
  by code_simp+

lemma entries_lookup:
  "map_of (rev (env_entries ctx r)) ''REQUEST_METHOD'' = Some (Ev_text (req_method r))"
  "map_of (rev (env_entries ctx r)) ''PATH_INFO'' = Some (Ev_text (fst (path_of (req_path r))))"
  "map_of (rev (env_entries ctx r)) ''QUERY_STRING'' = Some (Ev_text (snd (path_of (req_path r))))"
  "map_of (rev (env_entries ctx r)) ''SERVER_NAME'' = Some (Ev_text (md_server_name (req_metadata r)))"
  "map_of (rev (env_entries ctx r)) ''SERVER_PORT'' = Some (Ev_text (show_nat (unat (md_server_port (req_metadata r)))))"
  "map_of (rev (env_entries ctx r)) ''rack.url_scheme'' = Some (Ev_text (md_scheme (req_metadata r)))"
  "map_of (rev (env_entries ctx r)) ''rack.multithread'' = Some (Ev_bool (multithread (cc_concurrency ctx)))"
  by (simp_all add: env_entries_def Let_def split_beta map_add_def opt_entry_lookup)

lemma entries_lookup_remote:
  "map_of (rev (env_entries ctx r)) ''REMOTE_ADDR'' = map_option Ev_text (md_remote_addr (req_metadata r))"
  by (cases "md_remote_addr (req_metadata r)") (simp_all add: env_entries_def Let_def split_beta map_add_def opt_entry_lookup)

section \<open>Facts about a response\<close>

lemma remove_first_None: "remove_first n hs = None \<longleftrightarrow> n \<notin> fst ` set hs"
  by (induction n hs rule: remove_first.induct) auto

lemma remove_first_Some:
  "remove_first n hs = Some (v, rest) \<Longrightarrow> \<exists>pre post. hs = pre @ (n, v) # post \<and> rest = pre @ post \<and> n \<notin> fst ` set pre"
proof (induction hs arbitrary: rest)
  case (Cons h hs)
  obtain k x where h: "h = (k, x)" by (cases h)
  show ?case
  proof (cases "k = n")
    case True
    then show ?thesis
      using Cons.prems by (intro exI [of _ "[]"] exI [of _ hs]) (simp add: h)
  next
    case False
    then obtain rest' where r: "remove_first n hs = Some (v, rest')" "rest = (k, x) # rest'"
      using Cons.prems by (auto simp: h)
    then obtain pre post where "hs = pre @ (n, v) # post" "rest' = pre @ post" "n \<notin> fst ` set pre"
      using Cons.IH by blast
    then show ?thesis
      using r False by (intro exI [of _ "(k, x) # pre"] exI [of _ post]) (simp add: h)
  qed
qed simp

lemma copy_response_headers_Inr:
  "copy_response_headers hash acc = Inr hs \<Longrightarrow> \<exists>more. hs = acc @ more"
  by (induction hash acc rule: copy_response_headers.induct) (auto simp: and_then_Inr_iff)

lemma respond_settles:
  assumes "respond rb ctx b t s = (Inr u, s1, wakes)"
  shows "cancelled s1 \<or> ended s1" and "s1 = s \<or> wakes = 2"
proof -
  have refused: "push i s = (False, s') \<Longrightarrow> (cancelled s \<or> ended s) \<and> s' = s" for i s'
    by (auto simp: push_def Let_def split: if_splits)
  have end1: "cancelled (snd (push_end x)) \<or> ended (snd (push_end x))" for x
    unfolding push_end_def by (rule push_terminal_settles) simp
  show "cancelled s1 \<or> ended s1" "s1 = s \<or> wakes = 2"
    using assms end1 unfolding respond_def push_head_def
    by (auto simp: Let_def dest: refused split: sum.splits prod.splits if_splits)
qed

section \<open>A Ruby to evaluate on\<close>

text \<open>It never raises; its application answers an upgrade and streams one chunk.\<close>

definition sample_ruby :: "(nat, nat, nat) ruby" where
  "sample_ruby =
     \<lparr> aset_raises = (\<lambda>k. None), string_io_new = (\<lambda>b. Inr 1), binmode = (\<lambda>v. Inr ()),
       request_body_new = (\<lambda>h. Inr 2),
       app_call = (\<lambda>env. Inr \<lparr> ra_len = 3, ra_status = Inr 200,
         ra_headers = Inr [(Inr ''rack.protocol'', Hv_one (Inr ''websocket'')), (Inr ''Connection'', Hv_one (Inr ''close'')),
           (Inr ''set-cookie'', Hv_many (Inr [''a=1'', ''b=2'']))],
         ra_body = Inr 3 \<rparr>),
       read_body = (\<lambda>v. Inr ''hi''),
       stream_body = (\<lambda>v i. ([Op_push_chunk ''hi'', Op_take_next], Inr ())),
       close_input = (\<lambda>v. Inr ()), debug_text = (\<lambda>x. x) \<rparr>"

definition sample_context :: "nat call_context" where
  "sample_context = \<lparr> has_request_body_class = True, rack_errors = 9, ruby_thread_object_id = 5,
     cc_concurrency = Interleaved, cc_extensions = True \<rparr>"

definition sample_upgrade :: "(nat, nat) request" where
  "sample_upgrade = (new_request ''GET'' ''/ws?room=1'' [])\<lparr>req_headers :=
     [(''x-id'', ''1''), (''Connection'', ''keep-alive, Upgrade''), (''upgrade'', ''websocket''), (''X-ID'', ''2'')]\<rparr>"

definition sample_times :: call_times where
  "sample_times = \<lparr> t_runtime_started = 7, t_rack_input = 1, t_rack_call = 2, t_response_copy = 3 \<rparr>"

lemma set_all_total: "(\<And>k. aset_raises rb k = None) \<Longrightarrow> \<exists>env'. set_all rb xs env = Inr env'"
  by (induction xs arbitrary: env) (auto simp: set_env_eq aset_def)

lemma sample_built:
  assumes "body_stream r = None"
  obtains b where "build_env sample_ruby sample_context r a d = Inr b"
proof -
  have raises: "aset_raises sample_ruby k = None" for k
    by (simp add: sample_ruby_def)
  obtain env1 where 1: "set_all sample_ruby (env_entries sample_context r) [] = Inr env1"
    using set_all_total [OF raises] by blast
  obtain env2 where 2: "set_all sample_ruby (header_entries (req_headers r)) env1 = Inr env2"
    using set_all_total [OF raises] by blast
  have "collected_input sample_ruby (req_body r) = Inr 1"
    by (simp add: collected_input_def sample_ruby_def)
  then show thesis
    using that assms by (simp add: build_env_def 1 2 set_env_eq aset_def raises)
qed

lemma header_tokens_other: "\<not> eq_ignore_ascii_case name wanted \<Longrightarrow> header_tokens wanted ((name, v) # hs) = header_tokens wanted hs"
  by (simp add: header_tokens_def)

section \<open>Properties\<close>





text \<open>
  An upgrade is granted only for a protocol the client offered, and the
  headers that go out with it name no other: the application's own upgrade and
  connection headers are gone, everything else is kept in order.
\<close>

theorem upgrade_only_as_offered:
  assumes "accepted_protocol debug headers offered = (Inr (Some protocol), rest)"
  shows "(\<exists>ps. offered = Some ps \<and> protocol \<in> set ps) \<and>
    (\<exists>pre post. headers = pre @ (''rack.protocol'', protocol) # post \<and>
       rest = filter (\<lambda>(name, _). \<not> eq_ignore_ascii_case name ''upgrade'' \<and> \<not> eq_ignore_ascii_case name ''connection'')
         (pre @ post))"
proof -
  obtain rest0 where r: "remove_first ''rack.protocol'' headers = Some (protocol, rest0)"
    and offered: "case offered of None \<Rightarrow> False | Some ps \<Rightarrow> list_ex (\<lambda>c. c = protocol) ps"
    and rest: "rest = filter (\<lambda>(name, _). \<not> eq_ignore_ascii_case name ''upgrade'' \<and> \<not> eq_ignore_ascii_case name ''connection'') rest0"
    using assms by (auto simp: accepted_protocol_def split: option.splits prod.splits if_splits)
  show ?thesis
    using remove_first_Some [OF r] offered rest by (auto simp: list_ex_iff split: option.splits)
qed

theorem upgrade_only_as_offered_witness:
  "\<exists>ps. Some [''websocket''] = Some ps \<and> ''websocket'' \<in> set ps"
  using upgrade_only_as_offered [of id "[(''rack.protocol'', ''websocket''), (''x'', ''y'')]" "Some [''websocket'']"
      "''websocket''" "[(''x'', ''y'')]"]
  by (simp add: accepted_protocol_def eq_ignore_ascii_case_def to_ascii_lowercase_def byte_val_def)



text \<open>
  A response is taken only in the shape Rack gives it: three entries, a
  status that fits sixteen bits and is then exactly the status sent, and headers
  that could all be read.
\<close>

theorem response_shape_checked:
  assumes "response_parts_of a = Inr parts"
  shows "ra_len a = 3 \<and> (\<exists>hash. ra_headers a = Inr hash \<and> copy_response_headers hash [] = Inr (rp_headers parts)) \<and>
    ra_status a = Inr (uint (rp_status parts)) \<and> ra_body a = Inr (rp_body parts)"
proof -
  have "uint (word_of_int i :: u16) = i" if "0 \<le> i" "i \<le> 65535" for i
    using that by (simp add: unsigned_of_int take_bit_int_eq_self)
  then show ?thesis
    using assms by (auto simp: response_parts_of_def and_then_Inr_iff map_sum_Inr_iff split: if_splits)
qed

theorem response_shape_checked_witness:
  "ra_status \<lparr> ra_len = 3, ra_status = Inr 204, ra_headers = Inr [], ra_body = Inr (0 :: nat) \<rparr> = Inr (uint (204 :: u16))"
  using response_shape_checked [of "\<lparr> ra_len = 3, ra_status = Inr 204, ra_headers = Inr [], ra_body = Inr (0 :: nat) \<rparr>"
      "\<lparr> rp_status = 204, rp_headers = [], rp_body = 0 \<rparr>"]
  by (simp add: response_parts_of_def)

end
