(* ===== verification/Response_Delivery.thy ===== *)
theory Response_Delivery
  imports Queue_Frame Rack_Env
begin

text \<open>
  The way of a response from the application to the client: rack.rs and fiber.rs
  put a head, chunks and an end into the response queue on the runtime thread
  while worker.rs takes them out and sends them, item by item, between pauses of
  the client, reports about upstream calls and the end of the request.
\<close>

section \<open>What the runtime thread puts into the queue\<close>

text \<open>
  The order in which one executed request uses its queue (\<open>rack::call_streaming\<close> under
  \<open>Bridge::execute\<close>): a head, if it is taken the body, and then the end; or a failure at
  any point before the end.  The reactor may resolve a parked writer at any time.
\<close>

datatype producer = Not_started | Writing | Finished

fun producer_step :: "stream_op \<Rightarrow> response_stream \<Rightarrow> producer \<Rightarrow> producer option" where
  "producer_step (Op_push_head h) s Not_started = Some (if fst (push_head h s) then Writing else Finished)"
| "producer_step (Op_push_chunk c) s Writing = Some Writing"
| "producer_step (Op_push_within_budget c) s Writing = Some Writing"
| "producer_step (Op_push_if_room c) s Writing = Some Writing"
| "producer_step (Op_park_writer v) s Writing = Some Writing"
| "producer_step Op_push_end s Writing = Some Finished"
| "producer_step (Op_push_failure e) s Not_started = Some Finished"
| "producer_step (Op_push_failure e) s Writing = Some Finished"
| "producer_step Op_unpark s p = Some p"
| "producer_step _ s p = None"

definition is_over :: "stream_item list \<Rightarrow> bool" where
  "is_over xs \<longleftrightarrow> xs \<noteq> [] \<and> is_terminal (last xs)"

text \<open>The answers there are: nothing yet, a failure alone, or a head, a body and perhaps its end.\<close>

definition well_formed_answer :: "stream_item list \<Rightarrow> bool" where
  "well_formed_answer xs \<longleftrightarrow> xs = [] \<or> (\<exists>e. xs = [Failed e]) \<or>
     (\<exists>h cs rest. xs = Head h # map Chunk cs @ rest \<and> (rest = [] \<or> (\<exists>i. rest = [i] \<and> is_terminal i)))"

definition produced :: "producer \<Rightarrow> stream_item list \<Rightarrow> response_stream \<Rightarrow> bool" where
  "produced p xs q \<longleftrightarrow> (case p of
       Not_started \<Rightarrow> xs = [] \<and> \<not> ended q
     | Writing \<Rightarrow> (\<exists>h cs. xs = Head h # map Chunk cs) \<and> \<not> ended q
     | Finished \<Rightarrow> well_formed_answer xs \<and> (cancelled q \<or> is_over xs))"

lemma well_formed_simps [simp]:
  "well_formed_answer []" "well_formed_answer [Failed e]" "well_formed_answer (Head h # map Chunk cs)"
  "is_terminal i \<Longrightarrow> well_formed_answer (Head h # map Chunk cs @ [i])"
  unfolding well_formed_answer_def by (blast intro: append_Nil2 [symmetric])+

lemma produced_well_formed: "produced p xs q \<Longrightarrow> well_formed_answer xs"
  by (cases p) (auto simp: produced_def)

lemma is_over_snoc [simp]: "is_over (xs @ [i]) = is_terminal i" "\<not> is_over []"
  by (simp_all add: is_over_def)

lemma produced_chunk: "produced Writing xs q \<Longrightarrow> \<not> ended q' \<Longrightarrow> produced Writing (xs @ [Chunk c]) q'"
proof -
  assume "produced Writing xs q" "\<not> ended q'"
  then obtain h cs where "xs @ [Chunk c] = Head h # map Chunk (cs @ [c])"
    by (auto simp: produced_def)
  with \<open>\<not> ended q'\<close> show ?thesis
    unfolding produced_def producer.case by blast
qed

lemma produced_over:
  assumes "produced Writing xs q \<or> produced Not_started xs q \<and> (\<exists>e. i = Failed e)" and "is_terminal i"
  shows "produced Finished (xs @ [i]) q'"
  using assms by (auto simp: produced_def)

lemma produced_refused:
  "produced Writing xs q \<or> produced Not_started xs q \<Longrightarrow> cancelled q' \<Longrightarrow> produced Finished xs q'"
  by (auto simp: produced_def)

lemma produced_step:
  assumes "producer_step op q p = Some p'" and "produced p xs q"
  shows "produced p' (xs @ stream_accepts op q) (stream_act op q)"
proof -
  have same: "produced p xs (q\<lparr>waiter := v\<rparr>)" for v
    using assms(2) by (cases p) (simp_all add: produced_def)
  show ?thesis
    using assms same
  proof (induction op q p rule: producer_step.induct)
    case (1 h s)
    then show ?case
      by (auto simp: produced_def push_head_def push_def split: if_splits)
  next
    case (2 c s)
    then show ?case
      using produced_chunk [of xs s] by (auto simp: push_chunk_def push_def produced_def)
  next
    case (3 c s)
    then show ?case
      using produced_chunk [of xs s] by (auto simp: push_chunk_within_budget_def Let_def) (auto simp: produced_def)
  next
    case (4 c s)
    then show ?case
      using produced_chunk [of xs s] by (auto simp: push_chunk_if_room_def Let_def produced_def)
  next
    case (5 v s)
    then show ?case
      by (auto simp: park_writer_def)
  next
    case (6 s)
    then show ?case
      using produced_over [of xs s End] produced_refused [of xs s s] by (auto simp: push_end_def push_def produced_def)
  next
    case (7 e s)
    then show ?case
      using produced_over [of xs s "Failed e"] produced_refused [of xs s s]
      by (auto simp: push_failure_def push_def produced_def)
  next
    case (8 e s)
    then show ?case
      using produced_over [of xs s "Failed e"] produced_refused [of xs s s]
      by (auto simp: push_failure_def push_def produced_def)
  next
    case (9 s p)
    then show ?case
      by (simp add: unpark_def)
  qed simp_all
qed

section \<open>The way of a response\<close>

text \<open>
  The filter with its world, how far the application has got, the items its queue
  has taken over, and those the worker has taken out.
\<close>

record 'e download =
  dl_fw :: "'e fw"
  dl_producer :: producer
  dl_accepted :: "stream_item list"
  dl_taken :: "stream_item list"

definition dl_queue :: "nat \<Rightarrow> 'e download \<Rightarrow> response_stream" where
  "dl_queue n d = w_streams (snd (dl_fw d)) n"

text \<open>
  The worker's drain is taken apart into its turns, so that the runtime thread may
  write between any two of them.  Every other callback is one step; so is what the
  runtime and Envoy do to anything but this queue, and the filter's destruction.
\<close>

inductive download_step :: "'e ehf \<Rightarrow> nat \<Rightarrow> 'e download \<Rightarrow> 'e download \<Rightarrow> bool" for ehf n where
  produce: "dl_fw d = (f, w) \<Longrightarrow> producer_step op (w_streams w n) (dl_producer d) = Some p \<Longrightarrow>
    download_step ehf n d (d\<lparr>dl_fw := (f, put_stream (Plain n) (stream_act op (w_streams w n)) w),
      dl_producer := p, dl_accepted := dl_accepted d @ stream_accepts op (w_streams w n)\<rparr>)"
| turn: "dl_fw d = (f, w) \<Longrightarrow> f_stream f = Some (Plain n) \<Longrightarrow> f_state f \<in> {Waiting, Streaming} \<Longrightarrow>
    take_next (w_streams w n) = (Some item, s) \<Longrightarrow>
    download_step ehf n d (d\<lparr>dl_fw := snd (drain_item ehf item (f, put_stream (Plain n) s w)),
      dl_taken := dl_taken d @ [item]\<rparr>)"
| callback: "(\<And>e. ev \<noteq> Fe_request_headers e) \<Longrightarrow>
    (ev = Fe_scheduled RESPONSE_EVENT_ID \<Longrightarrow> f_state (fst (dl_fw d)) \<notin> {Waiting, Streaming}) \<Longrightarrow>
    download_step ehf n d (d\<lparr>dl_fw := filter_act ehf ev (dl_fw d)\<rparr>)"
| elsewhere: "dl_fw d = (f, w) \<Longrightarrow> elog (w_host w') = elog (w_host w) \<Longrightarrow> w_streams w' n = w_streams w n \<Longrightarrow>
    unshared n (f, w') \<Longrightarrow> download_step ehf n d (d\<lparr>dl_fw := (f, w')\<rparr>)"
| reordered: "dl_fw d = (f, w) \<Longrightarrow> rehashed f f' \<Longrightarrow> download_step ehf n d (d\<lparr>dl_fw := (f', w)\<rparr>)"
| dropped: "download_step ehf n d (d\<lparr>dl_fw := drop_filter (dl_fw d)\<rparr>)"

inductive_cases download_stepE: "download_step ehf n d d'"

text \<open>It begins with a request that was copied and admitted.\<close>

definition download_begins :: "'e ehf \<Rightarrow> nat \<Rightarrow> 'e download \<Rightarrow> bool" where
  "download_begins ehf n d \<longleftrightarrow>
     (\<exists>e f w. fresh_filter f \<and> elog (w_host w) = [] \<and> dl_fw d = on_request_headers ehf e (f, w)) \<and>
     f_stream (fst (dl_fw d)) = Some (Plain n) \<and>
     dl_producer d = Not_started \<and> dl_accepted d = [] \<and> dl_taken d = []"

definition progress :: "filter_state \<Rightarrow> stream_item list \<Rightarrow> bool" where
  "progress st taken \<longleftrightarrow> taken = [] \<and> st = Waiting \<or> (\<exists>h cs. taken = Head h # map Chunk cs \<and> st = Streaming)"

definition delivery_inv :: "nat \<Rightarrow> 'e download \<Rightarrow> bool" where
  "delivery_inv n d \<longleftrightarrow> (case dl_fw d of (f, w) \<Rightarrow>
     unshared n (f, w) \<and> stream_inv (w_streams w n) \<and>
     (f_stream f = None \<or> f_stream f = Some (Plain n)) \<and>
     produced (dl_producer d) (dl_accepted d) (w_streams w n) \<and>
     (if cancelled (w_streams w n) then prefix (dl_taken d) (dl_accepted d)
      else dl_accepted d = dl_taken d @ items (w_streams w n)) \<and>
     sent_downstream w = answer_calls f Waiting (dl_taken d) \<and>
     (if f_stream f = None then cancelled (w_streams w n) \<or> is_over (dl_taken d)
      else \<not> cancelled (w_streams w n) \<and> progress (f_state f) (dl_taken d)) \<and>
     (f_state f = Responded \<longrightarrow> is_over (dl_taken d)))"

lemma answer_calls_config_of: "config_of f' = config_of f \<Longrightarrow> answer_calls f' st xs = answer_calls f st xs"
  by (rule answer_calls_config) (simp_all add: config_of_def)

lemma answer_calls_chunks:
  "answer_calls f Streaming (map Chunk cs @ xs) = map (\<lambda>c. Send_response_data c False) cs @ answer_calls f Streaming xs"
  by (induction cs) auto

lemma answer_calls_snoc:
  "progress st taken \<Longrightarrow> answer_calls f Waiting (taken @ [item]) = answer_calls f Waiting taken @ answer_calls f st [item]"
  using answer_calls_chunks [of f _ "[]"] by (auto simp: progress_def answer_calls_chunks)

text \<open>What can come next in a well-formed answer.\<close>

lemma map_Chunk_split:
  assumes "map Chunk cs @ rest = map Chunk ds @ item # more_items" and "rest = [] \<or> (\<exists>i. rest = [i] \<and> is_terminal i)"
  shows "(\<exists>c. item = Chunk c) \<or> is_terminal item"
proof -
  have "item \<in> set (map Chunk cs @ rest)"
    unfolding assms(1) by simp
  then show ?thesis
    using assms(2) by auto
qed

lemma next_item:
  assumes "well_formed_answer (taken @ item # rest)" and "progress st taken"
  shows "st = Waiting \<and> taken = [] \<and> ((\<exists>h. item = Head h) \<or> (\<exists>e. item = Failed e)) \<or>
    st = Streaming \<and> ((\<exists>c. item = Chunk c) \<or> is_terminal item)"
  using assms(2) unfolding progress_def
proof
  assume "taken = [] \<and> st = Waiting"
  then show ?thesis
    using assms(1) by (auto simp: well_formed_answer_def)
next
  assume "\<exists>h cs. taken = Head h # map Chunk cs \<and> st = Streaming"
  then obtain h ds where taken: "taken = Head h # map Chunk ds" and st: "st = Streaming" by blast
  obtain cs tl_items where "map Chunk cs @ tl_items = map Chunk ds @ item # rest"
      and "tl_items = [] \<or> (\<exists>i. tl_items = [i] \<and> is_terminal i)"
    using assms(1) unfolding well_formed_answer_def taken by auto (metis append_Nil2)
  from map_Chunk_split [OF this] show ?thesis
    by (simp add: st)
qed

lemma progress_next:
  assumes "well_formed_answer (taken @ item # rest)" and "progress st taken" and "\<not> is_terminal item"
  shows "progress Streaming (taken @ [item])"
proof -
  have "(\<exists>h cs. taken = Head h # map Chunk cs) \<and> (\<exists>c. item = Chunk c) \<or> taken = [] \<and> (\<exists>h. item = Head h)"
    using next_item [OF assms(1,2)] assms(2,3) by (auto simp: progress_def)
  then have "\<exists>h cs. taken @ [item] = Head h # map Chunk cs"
  proof
    assume "(\<exists>h cs. taken = Head h # map Chunk cs) \<and> (\<exists>c. item = Chunk c)"
    then obtain h cs c where "taken = Head h # map Chunk cs" "item = Chunk c" by blast
    then have "taken @ [item] = Head h # map Chunk (cs @ [c])" by simp
    then show ?thesis by blast
  qed auto
  then show ?thesis
    by (simp add: progress_def)
qed

section \<open>Every step keeps it\<close>

lemma sent_downstream_streams [simp]: "sent_downstream (w\<lparr>w_streams := ss\<rparr>) = sent_downstream w"
  by (simp add: sent_downstream_def)

lemma take_next_parts:
  assumes "take_next q = (Some item, s)"
  shows "items q = item # items s" "cancelled s = cancelled q" "ended s = ended q"
  using assms by (auto simp: take_next_def split: if_splits list.splits stream_item.splits)

lemma drain_item_fields:
  assumes "f_state f \<in> {Waiting, Streaming}" and "drain_item ehf item (f, w) = (returned, f1, w1)"
  shows "config_of f1 = config_of f" and "f_stream f1 = (if is_terminal item then None else f_stream f)"
    and "f_state f1 = (if is_terminal item then Responded else if \<exists>h. item = Head h then Streaming else f_state f)"
    and "owns n s cf (f, w) \<Longrightarrow> owns n s cf (f1, w1)"
proof -
  show "config_of f1 = config_of f" "f_stream f1 = (if is_terminal item then None else f_stream f)"
      "f_state f1 = (if is_terminal item then Responded else if \<exists>h. item = Head h then Streaming else f_state f)"
    using assms by (cases item; auto simp: drain_item_def send_response_head_def report_outcome_def send_bridge_error_def
        Let_def split: if_splits)+
  show "owns n s cf (f, w) \<Longrightarrow> owns n s cf (f1, w1)"
    using assms(2) by (cases item)
      (auto simp: drain_item_def send_response_head_def report_outcome_def send_bridge_error_def Let_def
        intro: owns_cong split: if_splits option.splits)
qed

lemma owns_of_inv: "delivery_inv n d \<Longrightarrow> owns n (dl_queue n d) (config_of (fst (dl_fw d))) (dl_fw d)"
  by (auto simp: delivery_inv_def owns_def dl_queue_def split: prod.splits)

text \<open>A step that leaves the queue as it is, up to its pause, and sends nothing.\<close>

definition sends_nothing :: "'e fw \<Rightarrow> 'e fw \<Rightarrow> bool" where
  "sends_nothing fw fw' \<longleftrightarrow> sent_downstream (snd fw') = sent_downstream (snd fw) \<and>
     f_state (fst fw') = f_state (fst fw) \<and> f_stream (fst fw') = f_stream (fst fw)"

lemma quiet_sends_nothing: "quiet fw fw' \<Longrightarrow> sends_nothing fw fw'"
  by (auto simp: sends_nothing_def quiet_def sent_downstream_def log_of_def list_all_iff filter_empty_conv quiet_call_neutral)

lemma complete_sends_nothing: "sends_nothing fw (on_stream_complete ehf fw)"
proof -
  have "sends_nothing fw (report_outcome ehf OUTCOME_CANCELLED fw)"
    by (cases fw) (simp add: sends_nothing_def report_outcome_def split: option.splits)
  then show ?thesis
    using quiet_sends_nothing [OF on_stream_complete_quiet_after [of ehf fw]] by (simp add: sends_nothing_def)
qed

lemma delivery_inv_frame:
  assumes "delivery_inv n d" and "sends_nothing (dl_fw d) fw'"
    and "owns n ((dl_queue n d)\<lparr>paused := p\<rparr>) (config_of (fst (dl_fw d))) fw'"
  shows "delivery_inv n (d\<lparr>dl_fw := fw'\<rparr>)"
proof -
  obtain f w f' w' where fw: "dl_fw d = (f, w)" "fw' = (f', w')" by fastforce
  have q: "w_streams w' n = (w_streams w n)\<lparr>paused := p\<rparr>" and cfg: "config_of f' = config_of f" and un: "unshared n (f', w')"
    using assms(3) by (simp_all add: owns_def dl_queue_def fw)
  have produced: "produced x xs (q0\<lparr>paused := p\<rparr>) = produced x xs q0" for x xs q0
    by (cases x) (simp_all add: produced_def)
  have inv: "stream_inv (w_streams w n) \<Longrightarrow> stream_inv (w_streams w' n)"
    using stream_inv_flags(4) [of "w_streams w n" p] by (simp add: q set_paused_def)
  show ?thesis
    using assms(1,2) inv un unfolding delivery_inv_def fw sends_nothing_def
    by (simp add: q produced answer_calls_config_of [OF cfg] fw)
qed

lemma delivery_inv_produce:
  assumes "delivery_inv n d" and "dl_fw d = (f, w)" and "producer_step op (w_streams w n) (dl_producer d) = Some p"
  shows "delivery_inv n (d\<lparr>dl_fw := (f, put_stream (Plain n) (stream_act op (w_streams w n)) w),
      dl_producer := p, dl_accepted := dl_accepted d @ stream_accepts op (w_streams w n)\<rparr>)"
proof -
  let ?q = "w_streams w n"
  have ok: "op \<noteq> Op_cancel" "op \<noteq> Op_take_next"
    using assms(3) by auto
  have dead: "cancelled (stream_act op ?q) = cancelled ?q"
    using only_cancel_kills [of ?q op] stream_stays_cancelled [of ?q op] ok(1) by blast
  have inv: "stream_inv ?q"
    using assms(1) by (simp add: delivery_inv_def assms(2))
  then have inv': "stream_inv (stream_act op ?q)"
    by (rule stream_wf.inv_act)
  have live: "\<not> cancelled ?q \<Longrightarrow> items (stream_act op ?q) = items ?q @ stream_accepts op ?q"
    using stream_live_fifo [of op ?q] dead ok(2) by (cases op) (auto simp: stream_hands_out_def)
  have silent: "cancelled ?q \<Longrightarrow> stream_accepts op ?q = []"
    using stream_dead_silent [OF inv] by simp
  show ?thesis
    using assms(1) inv' live silent produced_step [OF assms(3), of "dl_accepted d"]
    by (auto simp: delivery_inv_def assms(2) dead unshared_def)
qed

lemma delivery_inv_turn:
  assumes inv: "delivery_inv n d" and fw: "dl_fw d = (f, w)" and stream: "f_stream f = Some (Plain n)"
    and taken: "take_next (w_streams w n) = (Some item, s)"
  shows "delivery_inv n (d\<lparr>dl_fw := snd (drain_item ehf item (f, put_stream (Plain n) s w)), dl_taken := dl_taken d @ [item]\<rparr>)"
proof -
  let ?q = "w_streams w n" and ?w = "put_stream (Plain n) s w"
  note parts = take_next_parts [OF taken]
  have i: "unshared n (f, w)" "stream_inv ?q" "produced (dl_producer d) (dl_accepted d) ?q"
      "dl_accepted d = dl_taken d @ items ?q" "sent_downstream w = answer_calls f Waiting (dl_taken d)"
      "\<not> cancelled ?q" "progress (f_state f) (dl_taken d)"
    using inv stream by (auto simp: delivery_inv_def fw split: if_splits)
  have s: "stream_inv s"
    using stream_inv_take_next [OF i(2)] by (simp add: taken)
  have state: "f_state f \<in> {Waiting, Streaming}"
    using i(7) by (auto simp: progress_def)
  obtain returned f1 w1 where item: "drain_item ehf item (f, ?w) = (returned, f1, w1)"
    by (cases "drain_item ehf item (f, ?w)") auto
  note fields = drain_item_fields [OF state item]
  have "owns n s (config_of f) (f, ?w)"
    using i(1) by (auto simp: owns_def unshared_def)
  then have own: "unshared n (f1, w1)" "w_streams w1 n = s"
    using fields(4) by (auto simp: owns_def)
  have wf: "well_formed_answer (dl_taken d @ item # items s)"
    using produced_well_formed [OF i(3)] by (simp add: i(4) parts)
  have calls: "answer_calls f1 st xs = answer_calls f st xs" for st xs
    using fields(1) by (rule answer_calls_config_of)
  have sent: "sent_downstream w1 = answer_calls f Waiting (dl_taken d @ [item])"
    using drain_item_sends(1) [OF item, of "[]"] answer_calls_snoc [OF i(7), of f item] i(5)
    by (simp split: if_splits)
  have produced: "produced (dl_producer d) (dl_accepted d) s"
    using i(3) parts by (cases "dl_producer d") (simp_all add: produced_def)
  have next_progress: "\<not> is_terminal item \<Longrightarrow> progress (f_state f1) (dl_taken d @ [item])"
    using progress_next [OF wf i(7)] next_item [OF wf i(7)] fields(3) by auto
  show ?thesis
    unfolding item snd_conv
    using own s stream produced sent i(4,6) parts next_progress fields(2,3) state
    by (auto simp: delivery_inv_def calls)
qed

lemma delivery_inv_dropped:
  assumes inv: "delivery_inv n d"
  shows "delivery_inv n (d\<lparr>dl_fw := drop_filter (dl_fw d)\<rparr>)"
proof -
  obtain f w f' w' where fw: "dl_fw d = (f, w)" and df: "drop_filter (f, w) = (f', w')" by fastforce
  have stream: "f_stream (fst (dl_fw d)) = None \<or> f_stream (fst (dl_fw d)) = Some (Plain n)"
    using inv by (auto simp: delivery_inv_def split: prod.splits)
  note drop = drop_filter_cancels [OF owns_of_inv [OF inv] stream, unfolded fw df fst_conv]
  let ?q = "w_streams w n"
  have own: "unshared n (f', w')" "w_streams w' n = (if f_stream f = None then ?q else cancel ?q)" "config_of f' = config_of f"
    using drop(1) by (simp_all add: owns_def dl_queue_def fw)
  have sent: "sent_downstream w' = sent_downstream w"
    using drop(3) by (simp add: sent_downstream_def log_of_def fw)
  have produced: "produced (dl_producer d) (dl_accepted d) ?q \<Longrightarrow> produced (dl_producer d) (dl_accepted d) (cancel ?q)"
    by (cases "dl_producer d") (auto simp: produced_def cancel_def)
  show ?thesis
    using inv own(1) sent drop(2,4) produced stream_inv_cancel [of ?q] unfolding delivery_inv_def fw
    by (auto simp: own(2) answer_calls_config_of [OF own(3)] df cancel_def)
qed

lemma delivery_inv_callback:
  assumes inv: "delivery_inv n d" and ev: "\<And>e. ev \<noteq> Fe_request_headers e"
      "ev = Fe_scheduled RESPONSE_EVENT_ID \<Longrightarrow> f_state (fst (dl_fw d)) \<notin> {Waiting, Streaming}"
  shows "delivery_inv n (d\<lparr>dl_fw := filter_act ehf ev (dl_fw d)\<rparr>)"
proof -
  have stream: "f_stream (fst (dl_fw d)) = None \<or> f_stream (fst (dl_fw d)) = Some (Plain n)"
    using inv by (auto simp: delivery_inv_def split: prod.splits)
  obtain p where own: "owns n ((dl_queue n d)\<lparr>paused := p\<rparr>) (config_of (fst (dl_fw d))) (filter_act ehf ev (dl_fw d))"
    using owns_filter_act [OF owns_of_inv [OF inv] stream ev] by blast
  have "sends_nothing (dl_fw d) (filter_act ehf ev (dl_fw d))"
  proof (cases "ev = Fe_stream_complete")
    case False
    then show ?thesis
      using quiet_sends_nothing [OF quiet_filter_act] ev by blast
  qed (simp add: complete_sends_nothing)
  then show ?thesis
    using delivery_inv_frame [OF inv _ own] by simp
qed

lemma delivery_inv_step: "delivery_inv n d \<Longrightarrow> download_step ehf n d d' \<Longrightarrow> delivery_inv n d'"
proof (erule download_step.cases, goal_cases)
  case (1 d0 f w op p)
  then show ?case
    using delivery_inv_produce by blast
next
  case (2 d0 f w item s)
  then show ?case
    using delivery_inv_turn by blast
next
  case (3 ev d0)
  then show ?case
    using delivery_inv_callback by blast
next
  case (4 d0 f w w')
  then show ?case
    by (simp add: delivery_inv_def sent_downstream_def)
next
  case (5 d0 f w f')
  then have "sends_nothing (dl_fw d) (f', w)"
    using quiet_sends_nothing [OF rehashed_quiet] by simp
  moreover have "owns n ((dl_queue n d)\<lparr>paused := paused (dl_queue n d)\<rparr>) (config_of (fst (dl_fw d))) (f', w)"
    using 5 owns_rehashed owns_of_inv [of n d] by simp
  ultimately show ?case
    using delivery_inv_frame 5 by blast
next
  case (6 d0)
  then show ?case
    using delivery_inv_dropped by blast
qed

section \<open>How it begins\<close>

lemma submit_request_queue:
  assumes "f_request f = Some q" and "f_upstream_calls f = []" and "f_upstreams f = None"
    and "submit_request ehf (f, w) = (f', w')" and "f_stream f' = Some (Plain n)"
  shows "owns n (new_stream MAX_BUFFERED_BODY_BYTES) (config_of f) (f', w')" and "f_state f' = Waiting"
  using assms
  by (auto simp: submit_request_def alloc_stream_def Let_def send_bridge_error_def owns_def unshared_def new_calls_def
      split: option.splits prod.splits sum.splits)

lemma begins_inv: "download_begins ehf n d \<Longrightarrow> delivery_inv n d"
proof -
  assume begins: "download_begins ehf n d"
  then obtain e f w where new: "fresh_filter f" and empty: "elog (w_host w) = []"
      and fw: "dl_fw d = on_request_headers ehf e (f, w)" and stream: "f_stream (fst (dl_fw d)) = Some (Plain n)"
      and unstarted: "dl_producer d = Not_started" "dl_accepted d = []" "dl_taken d = []"
    by (auto simp: download_begins_def)
  have fresh: "f_upstream_calls f = []" "f_upstreams f = None" "f_stream f = None"
    using new by (auto simp: fresh_filter_def new_http_filter_def)
  obtain q where copied: "copy_headers ehf (instant_now ehf (envoy w)) f (envoy w) = Inr q"
    using stream fresh(3)
    by (cases "copy_headers ehf (instant_now ehf (envoy w)) f (envoy w)")
      (simp_all add: fw on_request_headers_def send_invalid_request_def send_bridge_error_def)
  obtain f1 w1 where sub: "submit_request ehf (f\<lparr>f_request := Some q\<rparr>, w) = (f1, w1)"
    by (cases "submit_request ehf (f\<lparr>f_request := Some q\<rparr>, w)")
  have res: "dl_fw d = (if e then forward_request_body ehf (f1\<lparr>request_end_pending := e\<rparr>, w1) else (f1\<lparr>request_end_pending := e\<rparr>, w1))"
    by (simp add: fw on_request_headers_def copied sub Let_def)
  have quiet: "quiet (f1\<lparr>request_end_pending := e\<rparr>, w1) (dl_fw d)"
    unfolding res using quiet_forward_request_body by auto
  then have "f_stream f1 = Some (Plain n)"
    using stream by (simp add: quiet_def)
  then have own: "owns n (new_stream MAX_BUFFERED_BODY_BYTES) (config_of f) (f1, w1)" and state: "f_state f1 = Waiting"
    using submit_request_queue [OF _ _ _ sub, of q n] fresh by simp_all
  have "owns n (new_stream MAX_BUFFERED_BODY_BYTES) (config_of f) (f1\<lparr>request_end_pending := e\<rparr>, w1)"
    using own by (rule owns_cong) simp_all
  then have "owns n (new_stream MAX_BUFFERED_BODY_BYTES) (config_of f) (dl_fw d)"
    unfolding res by (cases e) (simp_all add: owns_forward)
  moreover have "sent_downstream (snd (dl_fw d)) = []" "f_state (fst (dl_fw d)) = Waiting"
  proof -
    have "begun (dl_fw d)"
      using begins_begun [of ehf "dl_fw d"] new empty fw by (auto simp: filter_begins_def)
    moreover show "f_state (fst (dl_fw d)) = Waiting"
      using quiet state by (simp add: quiet_def)
    ultimately show "sent_downstream (snd (dl_fw d)) = []"
      by (auto simp: begun_def admitted_log_def sent_downstream_def log_of_def list_all_iff filter_empty_conv
          quiet_call_neutral split: option.splits)
  qed
  ultimately show ?thesis
    using stream stream_inv_new [of MAX_BUFFERED_BODY_BYTES]
    by (cases "dl_fw d") (simp add: delivery_inv_def owns_def produced_def progress_def unstarted, simp add: new_stream_def)
qed

interpretation deliveries: inductive_invariant "download_begins ehf n" "download_step ehf n" "delivery_inv n"
  for ehf :: "'e ehf" and n
  by unfold_locales (blast intro: begins_inv delivery_inv_step)+

section \<open>The drain is made of turns\<close>

lemma drain_loop_turns:
  "dl_fw d = fw \<Longrightarrow> f_stream (fst fw) = Some (Plain n) \<Longrightarrow> f_state (fst fw) \<in> {Waiting, Streaming} \<Longrightarrow> unshared n fw \<Longrightarrow>
   \<exists>xs. (download_step ehf n)\<^sup>*\<^sup>* d (d\<lparr>dl_fw := snd (drain_loop ehf (Plain n) fw), dl_taken := dl_taken d @ xs\<rparr>)"
proof (induction ehf "Plain n" fw arbitrary: d rule: drain_loop.induct)
  case (1 ehf fw)
  obtain f w where fw: "fw = (f, w)" by (cases fw)
  obtain item s where take: "take_next (w_streams w n) = (item, s)" by (cases "take_next (w_streams w n)")
  show ?case
  proof (cases item)
    case None
    then have "s = w_streams w n"
      using take by (auto simp: take_next_def split: if_splits list.splits stream_item.splits)
    then have "drain_loop ehf (Plain n) fw = (False, fw)"
      using take None by (simp add: drain_loop.simps [of ehf "Plain n" "(f, w)"] fw)
    moreover have "d\<lparr>dl_fw := fw\<rparr> = d"
      by (simp flip: 1(2))
    ultimately show ?thesis
      by (intro exI [of _ "[]"]) simp
  next
    case (Some i)
    obtain returned fw1 where sent: "drain_item ehf i (f, put_stream (Plain n) s w) = (returned, fw1)"
      by (cases "drain_item ehf i (f, put_stream (Plain n) s w)")
    let ?d = "d\<lparr>dl_fw := fw1, dl_taken := dl_taken d @ [i]\<rparr>"
    have turn: "download_step ehf n d ?d"
      using download_step.turn [of d f w n i s ehf] 1(2-4) take Some sent by (simp add: fw)
    show ?thesis
    proof (cases returned)
      case True
      then have "drain_loop ehf (Plain n) fw = (True, fw1)"
        using take Some sent by (simp add: drain_loop.simps [of ehf "Plain n" "(f, w)"] fw)
      then show ?thesis
        using turn by (intro exI [of _ "[i]"]) auto
    next
      case False
      then have loop: "drain_loop ehf (Plain n) fw = drain_loop ehf (Plain n) fw1"
        using take Some sent by (simp add: drain_loop.simps [of ehf "Plain n" "(f, w)"] fw)
      obtain f1 w1 where fw1: "fw1 = (f1, w1)" by (cases fw1)
      have state: "f_state f \<in> {Waiting, Streaming}"
        using 1(4) by (simp add: fw)
      note fields = drain_item_fields [OF state sent [unfolded fw1]]
      have open_item: "\<not> is_terminal i"
        using False drain_item_sends(2) [OF sent [unfolded fw1]] by simp
      have "owns n s (config_of f) (f, put_stream (Plain n) s w)"
        using 1(5) by (auto simp: owns_def unshared_def fw)
      then have "unshared n fw1"
        using fields(4) by (simp add: owns_def fw1)
      moreover have "f_stream (fst fw1) = Some (Plain n)" "f_state (fst fw1) \<in> {Waiting, Streaming}"
        using fields(2,3) open_item 1(3) state by (auto simp: fw1 fw)
      ultimately obtain xs where "(download_step ehf n)\<^sup>*\<^sup>* ?d (?d\<lparr>dl_fw := snd (drain_loop ehf (Plain n) fw1), dl_taken := dl_taken ?d @ xs\<rparr>)"
        using "1.hyps" [of "Some i" s i returned fw1 ?d] take Some sent False by (auto simp: fw)
      with turn have "(download_step ehf n)\<^sup>*\<^sup>* d (?d\<lparr>dl_fw := snd (drain_loop ehf (Plain n) fw1), dl_taken := dl_taken ?d @ xs\<rparr>)"
        by (rule converse_rtranclp_into_rtranclp)
      then show ?thesis
        by (intro exI [of _ "i # xs"]) (simp add: loop)
    qed
  qed
qed

lemma drain_is_turns:
  assumes "dl_fw d = fw" and "f_stream (fst fw) = Some (Plain n)" and "f_state (fst fw) \<in> {Waiting, Streaming}" and "delivery_inv n d"
  shows "\<exists>xs. (download_step ehf n)\<^sup>*\<^sup>* d (d\<lparr>dl_fw := drain_stream ehf fw, dl_taken := dl_taken d @ xs\<rparr>)"
proof -
  have "unshared n fw"
    using assms(4) by (auto simp: delivery_inv_def simp flip: assms(1) split: prod.splits)
  then obtain xs where turns: "(download_step ehf n)\<^sup>*\<^sup>* d (d\<lparr>dl_fw := snd (drain_loop ehf (Plain n) fw), dl_taken := dl_taken d @ xs\<rparr>)"
    using drain_loop_turns [OF assms(1-3)] by blast
  obtain returned f1 w1 where loop: "drain_loop ehf (Plain n) fw = (returned, f1, w1)"
    by (cases "drain_loop ehf (Plain n) fw") auto
  let ?d = "d\<lparr>dl_fw := (f1, w1), dl_taken := dl_taken d @ xs\<rparr>"
  have "delivery_inv n ?d"
    using deliveries.inv_rtrancl [OF assms(4) turns] by (simp add: loop)
  then have "unshared n (f1, w1)"
    by (simp add: delivery_inv_def)
  then have "unshared n (f1, client_wake (Plain n) w1)"
    by (simp add: unshared_def)
  then have "download_step ehf n ?d (?d\<lparr>dl_fw := (f1, client_wake (Plain n) w1)\<rparr>)"
    by (intro download_step.elsewhere [where w = w1]) simp_all
  moreover have "?d\<lparr>dl_fw := x\<rparr> = d\<lparr>dl_fw := x, dl_taken := dl_taken d @ xs\<rparr>" for x
    by (cases d) simp
  ultimately have "(download_step ehf n)\<^sup>*\<^sup>* d (d\<lparr>dl_fw := (f1, client_wake (Plain n) w1), dl_taken := dl_taken d @ xs\<rparr>)"
    using turns by (metis loop rtranclp.rtrancl_into_rtrancl snd_conv)
  then show ?thesis
    using turns assms(2) by (intro exI [of _ xs]) (auto simp: drain_stream_def loop Let_def)
qed

section \<open>An executed request is a run of the producer\<close>

fun producer_run :: "stream_op list \<Rightarrow> response_stream \<Rightarrow> producer \<Rightarrow> producer option" where
  "producer_run [] s p = Some p"
| "producer_run (op # ops) s p = Option.bind (producer_step op s p) (producer_run ops (stream_act op s))"

text \<open>What the body may do with the queue while it is streamed: write, park and be resolved.\<close>

fun writer_op :: "stream_op \<Rightarrow> bool" where
  "writer_op (Op_push_chunk c) = True"
| "writer_op (Op_push_within_budget c) = True"
| "writer_op (Op_push_if_room c) = True"
| "writer_op (Op_park_writer v) = True"
| "writer_op Op_unpark = True"
| "writer_op _ = False"

lemma producer_run_append:
  "producer_run (xs @ ys) s p = Option.bind (producer_run xs s p) (producer_run ys (run stream_act xs s))"
proof (induction xs arbitrary: s p)
  case (Cons x xs)
  then show ?case
    by (cases "producer_step x s p") simp_all
qed simp

lemma producer_run_writes: "list_all writer_op ops \<Longrightarrow> producer_run ops s Writing = Some Writing"
proof (induction ops arbitrary: s)
  case (Cons op ops)
  then show ?case
    by (cases op) simp_all
qed simp

lemma produced_run:
  "producer_run ops s p = Some p' \<Longrightarrow> produced p xs s \<Longrightarrow>
   produced p' (xs @ emitted stream_act stream_accepts ops s) (run stream_act ops s)"
proof (induction ops arbitrary: s p xs)
  case (Cons op ops)
  then obtain p1 where step: "producer_step op s p = Some p1" and rest: "producer_run ops (stream_act op s) p1 = Some p'"
    by (auto simp: bind_eq_Some_conv)
  show ?case
    using Cons.IH [OF rest produced_step [OF step Cons.prems(2)]] by simp
qed simp

lemma producer_run_no_cancel: "producer_run ops s p = Some p' \<Longrightarrow> Op_cancel \<notin> set ops \<and> Op_take_next \<notin> set ops"
  by (induction ops arbitrary: s p) (auto simp: bind_eq_Some_conv)

lemma respond_run:
  assumes writes: "\<And>v i. list_all writer_op (fst (stream_body rb v i))" and res: "respond rb ctx b t s = (res, s1, wakes)"
  obtains (early) e where "res = Inl e" "s1 = s"
  | (refused) h where "res = Inr ()" "\<not> fst (push_head h s)" "s1 = stream_act (Op_push_head h) s"
  | (broken) e h uses where "res = Inl e" "fst (push_head h s)" "list_all writer_op uses"
      "s1 = run stream_act (Op_push_head h # uses) s"
  | (whole) h uses where "res = Inr ()" "fst (push_head h s)" "list_all writer_op uses"
      "s1 = run stream_act (Op_push_head h # uses @ [Op_push_end]) s"
proof (cases "and_then (map_sum (ruby_error ''calling app.call(env)'') id (app_call rb (eb_env b))) response_parts_of")
  case (Inl e)
  then show ?thesis
    using res early by (auto simp: respond_def)
next
  case (Inr parts)
  obtain accepted headers0 where acc: "accepted_protocol (debug_text rb) (rp_headers parts) (eb_protocols b) = (accepted, headers0)"
    by (cases "accepted_protocol (debug_text rb) (rp_headers parts) (eb_protocols b)")
  show ?thesis
  proof (cases accepted)
    case (Inl e)
    then show ?thesis
      using res early by (auto simp: respond_def \<open>and_then _ _ = Inr parts\<close> acc)
  next
    case (Inr protocol)
    define h where "h = \<lparr> head_status = (case protocol of None \<Rightarrow> rp_status parts | Some _ \<Rightarrow> 101),
        head_headers = (case protocol of None \<Rightarrow> headers0
          | Some p \<Rightarrow> headers0 @ [(''upgrade'', p), (''connection'', ''upgrade'')]) @ stage_timing_headers b (t_rack_call t) 0,
        head_thread = ruby_thread_object_id ctx \<rparr>"
    obtain pushed s' where push: "push_head h s = (pushed, s')" by (cases "push_head h s")
    obtain uses streamed where body: "stream_body rb (rp_body parts) (eb_input b) = (uses, streamed)"
      by (cases "stream_body rb (rp_body parts) (eb_input b)")
    have eq: "respond rb ctx b t s = (if \<not> pushed then (Inr (), s', 0)
        else case map_sum (ruby_error ''streaming response body'') id streamed of
            Inl e \<Rightarrow> (Inl e, run stream_act uses s', 1)
          | Inr _ \<Rightarrow> (Inr (), snd (push_end (run stream_act uses s')), 2))"
      using push unfolding respond_def \<open>and_then _ _ = Inr parts\<close> acc Inr sum.case prod.case Let_def h_def body by simp
    have "list_all writer_op uses"
      using writes [of "rp_body parts" "eb_input b"] by (simp add: body)
    then show ?thesis
    proof (cases pushed)
      case False
      then show ?thesis
        using res push by (intro refused [of h]) (simp_all add: eq)
    next
      case True
      show ?thesis
      proof (cases streamed)
        case (Inl e)
        then show ?thesis
          using res push True \<open>list_all writer_op uses\<close>
          by (intro broken [of "ruby_error ''streaming response body'' e" h uses]) (simp_all add: eq)
      next
        case (Inr u)
        then show ?thesis
          using res push True \<open>list_all writer_op uses\<close> by (intro whole [of h uses]) (simp_all add: eq)
      qed
    qed
  qed
qed

lemma executed_run:
  assumes writes: "\<And>v i. list_all writer_op (fst (stream_body rb v i))"
    and call: "call_streaming rb ctx r t s = (outcome, s1, wakes, ins)"
    and exec: "bridge_execute (Inr ()) outcome (Some c) adm s1 = (ack, slot, adm1, s2, woken)"
  shows "\<exists>ops. producer_run ops s Not_started = Some Finished \<and> s2 = run stream_act ops s"
proof -
  have s2: "outcome = Inl e \<Longrightarrow> s2 = stream_act (Op_push_failure e) s1" "outcome = Inr u \<Longrightarrow> s2 = s1" for e u
    using exec by (auto simp: bridge_execute_def)
  have early: ?thesis if "outcome = Inl e" "s1 = s" for e
    using that s2 by (intro exI [of _ "[Op_push_failure e]"]) simp
  show ?thesis
  proof (cases "build_env rb ctx r (t_runtime_started t) (t_rack_input t)")
    case (Inl e)
    then show ?thesis
      using call early by (auto simp: call_streaming_def)
  next
    case (Inr b)
    then have res: "respond rb ctx b t s = (outcome, s1, wakes)"
      using call by (auto simp: call_streaming_def Let_def split: prod.splits)
    from writes res show ?thesis
    proof (cases rule: respond_run)
      case (refused h)
      then show ?thesis
        using s2(2) by (intro exI [of _ "[Op_push_head h]"]) simp
    next
      case (broken e h uses)
      then show ?thesis
        using s2(1) by (intro exI [of _ "Op_push_head h # uses @ [Op_push_failure e]"])
          (simp add: producer_run_append producer_run_writes)
    next
      case (whole h uses)
      then show ?thesis
        using s2(2) by (intro exI [of _ "Op_push_head h # uses @ [Op_push_end]"])
          (simp add: producer_run_append producer_run_writes)
    qed (use early in blast)
  qed
qed

section \<open>Facts about answers\<close>

text \<open>The body the client has been sent.\<close>

definition body_sent :: "envoy_call list \<Rightarrow> bytes" where
  "body_sent calls = concat (map (\<lambda>c. case c of Send_response_data d _ \<Rightarrow> d | _ \<Rightarrow> []) calls)"

lemma well_formed_butlast: "well_formed_answer (xs @ [y]) \<Longrightarrow> well_formed_answer xs"
proof (cases "xs = []")
  case False
  assume "well_formed_answer (xs @ [y])"
  then have "(\<exists>e. xs @ [y] = [Failed e]) \<or>
      (\<exists>h cs rest. xs @ [y] = Head h # map Chunk cs @ rest \<and> (rest = [] \<or> (\<exists>i. rest = [i])))"
    unfolding well_formed_answer_def by blast
  then obtain h cs rest where eq: "xs @ [y] = Head h # map Chunk cs @ rest" and rest: "rest = [] \<or> (\<exists>i. rest = [i])"
    using False by auto
  obtain xs' where xs: "xs = Head h # xs'" "xs' @ [y] = map Chunk cs @ rest"
    using eq False by (cases xs) simp_all
  show ?thesis
  proof (cases "rest = []")
    case False
    then show ?thesis
      using rest xs by auto
  next
    case True
    then show ?thesis
      using xs by (cases cs rule: rev_cases) simp_all
  qed
qed simp

lemma well_formed_prefix: "well_formed_answer (xs @ ys) \<Longrightarrow> well_formed_answer xs"
proof (induction ys rule: rev_induct)
  case (snoc y ys)
  then show ?case
    using well_formed_butlast [of "xs @ ys" y] by simp
qed simp

lemma over_is_last: "well_formed_answer (xs @ ys) \<Longrightarrow> is_over xs \<Longrightarrow> ys = []"
proof -
  assume wf: "well_formed_answer (xs @ ys)" and over: "is_over xs"
  then obtain zs i where xs: "xs = zs @ [i]" "is_terminal i"
    by (cases xs rule: rev_cases) auto
  have "terminal_last (xs @ ys)"
    using wf unfolding well_formed_answer_def
    by (elim disjE exE conjE) (auto simp: terminal_last_def butlast_append list_all_iff simp flip: map_butlast)
  then show "ys = []"
    using xs by (cases ys rule: rev_cases) (auto simp: terminal_last_def butlast_append list_all_iff)
qed

lemma body_sent_append [simp]: "body_sent (xs @ ys) = body_sent xs @ body_sent ys" "body_sent [] = []"
  by (simp_all add: body_sent_def)

lemma body_sent_answer: "well_formed_answer xs \<Longrightarrow> body_sent (answer_calls f Waiting xs) = body_of xs"
proof -
  have chunks: "body_sent (map (\<lambda>c. Send_response_data c False) cs) = concat cs" "body_of (map Chunk cs) = concat cs" for cs
    by (induction cs) (simp_all add: body_sent_def)
  have last_item: "is_terminal i \<Longrightarrow> body_sent (answer_calls f Streaming [i]) = [] \<and> item_bytes i = []" for i
    by (cases i) (simp_all add: body_sent_def)
  have head: "body_sent (c # cs) = body_sent [c] @ body_sent cs" for c cs
    by (simp add: body_sent_def)
  assume "well_formed_answer xs"
  then show ?thesis
    unfolding well_formed_answer_def
    by (elim disjE exE conjE)
      (auto simp: answer_calls_chunks answer_calls_chunks [of _ _ "[]", simplified] head [of "Send_response_headers _ _"] chunks last_item body_sent_def [of "[_]"])
qed

lemma drain_returned_responded:
  "f_state (fst fw) \<in> {Waiting, Streaming} \<Longrightarrow> fst (drain_loop ehf r fw) \<Longrightarrow> f_state (fst (snd (drain_loop ehf r fw))) = Responded"
proof (induction ehf r fw rule: drain_loop.induct)
  case (1 ehf r fw)
  obtain item s where take: "take_next (get_stream r (snd fw)) = (item, s)" by (cases "take_next (get_stream r (snd fw))")
  show ?case
  proof (cases item)
    case None
    then show ?thesis
      using "1.prems" take by (simp add: drain_loop.simps [of ehf r fw])
  next
    case (Some i)
    obtain returned f1 w1 where sent: "drain_item ehf i (fst fw, put_stream r s (snd fw)) = (returned, f1, w1)"
      by (cases "drain_item ehf i (fst fw, put_stream r s (snd fw))") auto
    note fields = drain_item_fields(3) [OF "1.prems"(1) sent] and over = drain_item_sends(2) [OF sent]
    show ?thesis
    proof (cases returned)
      case True
      then show ?thesis
        using take Some sent fields over by (simp add: drain_loop.simps [of ehf r fw])
    next
      case False
      then have loop: "drain_loop ehf r fw = drain_loop ehf r (f1, w1)"
        using take Some sent by (simp add: drain_loop.simps [of ehf r fw])
      have "f_state f1 \<in> {Waiting, Streaming}"
        using "1.prems"(1) False fields over by auto
      then show ?thesis
        using "1.IH" [OF take [symmetric] Some sent [symmetric] False] "1.prems"(2) by (simp add: loop)
    qed
  qed
qed

lemma producer_run_keeps:
  "producer_run ops s p = Some p' \<Longrightarrow> \<not> cancelled s \<Longrightarrow>
   paused (run stream_act ops s) = paused s \<and> \<not> cancelled (run stream_act ops s) \<and>
   items (run stream_act ops s) = items s @ emitted stream_act stream_accepts ops s"
proof (induction ops arbitrary: s p)
  case (Cons op ops)
  then obtain p1 where step: "producer_step op s p = Some p1" and rest: "producer_run ops (stream_act op s) p1 = Some p'"
    by (auto simp: bind_eq_Some_conv)
  have live: "\<not> cancelled (stream_act op s)"
    using only_cancel_kills [of s op] Cons.prems(2) step by auto
  have "paused (stream_act op s) = paused s"
    using step by (cases op) (auto simp: stream_ops Let_def split: stream_item.splits)
  moreover have "items (stream_act op s) = items s @ stream_accepts op s"
    using stream_live_fifo [OF live] step by (cases op) (auto simp: stream_hands_out_def)
  ultimately show ?case
    using Cons.IH [OF rest live] by simp
qed simp

section \<open>A response of the sample request\<close>

text \<open>A Ruby whose application answers 200 with one chunk.\<close>

definition plain_ruby :: "(nat, scheduled_handle, upstreams_handle) ruby" where
  "plain_ruby =
     \<lparr> aset_raises = (\<lambda>k. None), string_io_new = (\<lambda>b. Inr 1), binmode = (\<lambda>v. Inr ()),
       request_body_new = (\<lambda>h. Inr 2),
       app_call = (\<lambda>env. Inr \<lparr> ra_len = 3, ra_status = Inr 200, ra_headers = Inr [], ra_body = Inr 3 \<rparr>),
       read_body = (\<lambda>v. Inr ''hi''),
       stream_body = (\<lambda>v i. ([Op_push_within_budget ''hi''], Inr ())),
       close_input = (\<lambda>v. Inr ()), debug_text = (\<lambda>x. x) \<rparr>"

definition sample_download :: "sample_state download" where
  "sample_download = \<lparr> dl_fw = sample_begun, dl_producer = Not_started, dl_accepted = [], dl_taken = [] \<rparr>"

lemma sample_download_begins: "download_begins sample_ehf 1 sample_download"
proof -
  have "fresh_filter sample_filter"
    unfolding fresh_filter_def sample_filter_def by blast
  moreover have "elog (w_host (sample_world ([], []))) = []"
    by (simp add: sample_world_def)
  ultimately have "\<exists>e f w. fresh_filter f \<and> elog (w_host w) = [] \<and> dl_fw sample_download = on_request_headers sample_ehf e (f, w)"
    unfolding sample_download_def download.simps sample_begun_def by blast
  moreover have "f_stream (fst (dl_fw sample_download)) = Some (Plain 1)"
    using sample_begun_shape by (metis download.select_convs(1) fst_conv sample_download_def)
  ultimately show ?thesis
    by (simp add: download_begins_def sample_download_def)
qed

lemma sample_download_reachable: "reachable (download_begins sample_ehf 1) (download_step sample_ehf 1) sample_download"
  by (rule reachable_init) (rule sample_download_begins)

text \<open>The application puts a head, a chunk and the end into the queue.\<close>

definition sample_ops :: "stream_op list" where
  "sample_ops = [Op_push_head sample_head, Op_push_within_budget ''hi'', Op_push_end]"

lemma produce_run:
  assumes "producer_run ops (w_streams w n) (dl_producer d) = Some p" and "dl_fw d = (f, w)"
  shows "(download_step ehf n)\<^sup>*\<^sup>* d (d\<lparr>dl_fw := (f, put_stream (Plain n) (run stream_act ops (w_streams w n)) w),
      dl_producer := p, dl_accepted := dl_accepted d @ emitted stream_act stream_accepts ops (w_streams w n)\<rparr>)"
  using assms
proof (induction ops arbitrary: d w)
  case Nil
  then have "d\<lparr>dl_fw := (f, put_stream (Plain n) (w_streams w n) w), dl_producer := p, dl_accepted := dl_accepted d\<rparr> = d"
    by (cases d) simp
  then show ?case
    by simp
next
  case (Cons op ops)
  let ?q = "w_streams w n"
  obtain p1 where step: "producer_step op ?q (dl_producer d) = Some p1" and rest: "producer_run ops (stream_act op ?q) p1 = Some p"
    using Cons.prems(1) by (auto simp: bind_eq_Some_conv)
  let ?d = "d\<lparr>dl_fw := (f, put_stream (Plain n) (stream_act op ?q) w), dl_producer := p1,
      dl_accepted := dl_accepted d @ stream_accepts op ?q\<rparr>"
  have "download_step ehf n d ?d"
    using download_step.produce [OF Cons.prems(2) step] .
  moreover have "(download_step ehf n)\<^sup>*\<^sup>* ?d (d\<lparr>dl_fw := (f, put_stream (Plain n) (run stream_act (op # ops) ?q) w),
      dl_producer := p, dl_accepted := dl_accepted d @ emitted stream_act stream_accepts (op # ops) ?q\<rparr>)"
    using Cons.IH [of "put_stream (Plain n) (stream_act op ?q) w" ?d] rest by simp
  ultimately show ?case
    by (rule converse_rtranclp_into_rtranclp)
qed

lemma reachable_rtrancl: "reachable init step s \<Longrightarrow> step\<^sup>*\<^sup>* s t \<Longrightarrow> reachable init step t"
  by (rotate_tac 1, induction rule: rtranclp_induct) (auto intro: reachable_step)

lemma sample_delivered:
  obtains d where "reachable (download_begins sample_ehf 1) (download_step sample_ehf 1) d"
    "f_state (fst (dl_fw d)) = Responded" "dl_accepted d = [Head sample_head, Chunk ''hi'', End]"
proof -
  obtain f w where b: "sample_begun = (f, w)" "f_state f = Waiting" "f_stream f = Some (Plain 1)"
      "get_stream (Plain 1) w = new_stream MAX_BUFFERED_BODY_BYTES"
    by (rule sample_begun_shape)
  have new: "w_streams w 1 = new_stream MAX_BUFFERED_BODY_BYTES"
    using b(4) by simp
  let ?q = "run stream_act sample_ops (w_streams w 1)"
  let ?fw = "(f, put_stream (Plain 1) ?q w)"
  let ?items = "[Head sample_head, Chunk ''hi'', End]"
  let ?d = "sample_download\<lparr>dl_fw := ?fw, dl_producer := Finished, dl_accepted := ?items\<rparr>"
  have ran: "producer_run sample_ops (w_streams w 1) Not_started = Some Finished"
      "emitted stream_act stream_accepts sample_ops (w_streams w 1) = ?items" "items ?q = ?items" "\<not> paused ?q"
    unfolding new sample_ops_def
    by (simp_all add: push_head_def push_def push_chunk_within_budget_def push_end_def new_stream_def MAX_BUFFERED_BODY_BYTES_def)
  have "(download_step sample_ehf 1)\<^sup>*\<^sup>* sample_download ?d"
    using produce_run [of sample_ops w 1 sample_download Finished f sample_ehf] ran(1,2) b(1)
    by (simp add: sample_download_def del: put_stream.simps One_nat_def)
  then have reach: "reachable (download_begins sample_ehf 1) (download_step sample_ehf 1) ?d"
    using reachable_rtrancl [OF sample_download_reachable] by blast
  have inv: "delivery_inv 1 ?d"
    using reach by (rule deliveries.inv_reachable)
  obtain xs where "(download_step sample_ehf 1)\<^sup>*\<^sup>* ?d (?d\<lparr>dl_fw := drain_stream sample_ehf ?fw, dl_taken := dl_taken ?d @ xs\<rparr>)"
    using drain_is_turns [OF _ _ _ inv, of ?fw sample_ehf] b(2,3) by (auto simp del: put_stream.simps One_nat_def)
  then have reach': "reachable (download_begins sample_ehf 1) (download_step sample_ehf 1)
      (?d\<lparr>dl_fw := drain_stream sample_ehf ?fw, dl_taken := dl_taken ?d @ xs\<rparr>)"
    using reachable_rtrancl [OF reach] by blast
  obtain returned f1 w1 where loop: "drain_loop sample_ehf (Plain 1) ?fw = (returned, f1, w1)"
    by (cases "drain_loop sample_ehf (Plain 1) ?fw") auto
  have "returned"
    using drain_loop_sends(2) [OF _ loop] ran(3,4) by simp
  then have "f_state (fst (drain_stream sample_ehf ?fw)) = Responded"
    using drain_returned_responded [of ?fw sample_ehf "Plain 1"] b(2,3) loop
    by (simp add: drain_stream_def del: put_stream.simps One_nat_def)
  then show thesis
    using that [OF reach'] by simp
qed

section \<open>From the filter to the runtime\<close>

definition client_frame :: "'e world \<Rightarrow> 'e world \<Rightarrow> bool" where
  "client_frame w w' \<longleftrightarrow> commands (w_client w') = commands (w_client w)"

lemma client_frame_simps [simp]:
  "client_frame w w" "client_frame w (client_wake r w') = client_frame w w'"
  "client_frame w (put_stream r s w') = client_frame w w'" "client_frame w (call_envoy ehf c w') = client_frame w w'"
  "client_frame w (with_metrics f g w') = client_frame w w'" "client_frame w (report_admission ehf f x w') = client_frame w w'"
  by (simp_all add: client_frame_def client_wake_def wake_body_def call_envoy_def with_metrics_def report_admission_def
      split: option.splits)

lemma copy_available_client: "client_frame v w \<Longrightarrow> client_frame v (snd (copy_available ehf r w))"
proof -
  have "client_frame v (snd (copy_body ehf src limit r x)) = client_frame v x" for src limit and x :: "'a world"
    by (simp add: copy_body_def Let_def split: prod.splits)
  then show "client_frame v w \<Longrightarrow> client_frame v (snd (copy_available ehf r w))"
    by (simp add: copy_available_def Let_def case_prod_beta)
qed

lemma forward_client: "client_frame w (snd (forward_request_body ehf (f, w)))"
proof (cases "f_request_body f")
  case (Some h)
  show ?thesis
    using copy_available_client [of w w ehf "sh_stream h"]
    by (cases "copy_available ehf (sh_stream h) w") (simp add: forward_request_body_def Some Let_def)
qed (simp add: forward_request_body_def)

lemma receive_all:
  assumes "list_all (\<lambda>c. \<not> is_shutdown c) cs" and "receive_commands senders empty_batch cs = (b, rest)"
  shows "envelopes b = calls_of cs"
proof -
  obtain taken where "cs = taken @ rest" "envelopes b = calls_of taken" "rest = [] \<or> list_ex is_shutdown taken"
    using receive_commands_splits [OF assms(2)] by auto
  then show ?thesis
    using assms(1) by (auto simp: list_ex_iff list_all_iff)
qed

text \<open>What submission puts on the channel: the request as it was copied, with its two queues.\<close>

definition same_request :: "rack_request \<Rightarrow> rack_request \<Rightarrow> bool" where
  "same_request q r \<longleftrightarrow> req_method r = req_method q \<and> req_path r = req_path q \<and> req_body r = req_body q \<and>
     req_headers r = req_headers q \<and> req_metadata r = req_metadata q \<and> req_context r = req_context q \<and> force_gc r = force_gc q"

lemma submit_request_command:
  assumes "f_request f = Some q" and "submit_request ehf (f, w) = (f', w')" and "f_stream f' = Some r" and "f_stream f = None"
  shows "\<exists>call. commands (w_client w') = commands (w_client w) @ [Cmd_call call] \<and>
    fc_handle call = \<lparr> sh_stream = r, sh_event = RESPONSE_EVENT_ID \<rparr> \<and>
    body_stream (fc_request call) = f_request_body f' \<and> f_request_body f' \<noteq> None \<and>
    same_request q (fc_request call)"
  unfolding same_request_def using assms
  by (auto simp: submit_request_def alloc_stream_def Let_def submit_def send_and_wake_def send_bridge_error_def
      report_admission_def with_metrics_def split: option.splits prod.splits sum.splits if_splits)

section \<open>Properties\<close>

lemma finished_answer_is_whole:
  assumes "delivery_inv n d" and "f_state (fst (dl_fw d)) = Responded"
  shows "dl_taken d = dl_accepted d \<and> is_over (dl_accepted d) \<and> dl_producer d = Finished"
proof -
  obtain f w where fw: "dl_fw d = (f, w)" by (cases "dl_fw d")
  have prod: "produced (dl_producer d) (dl_accepted d) (w_streams w n)" and over: "is_over (dl_taken d)"
      and "\<exists>rest. dl_accepted d = dl_taken d @ rest"
    using assms by (auto simp: delivery_inv_def fw prefix_def split: if_splits)
  then have whole: "dl_taken d = dl_accepted d"
    using over_is_last produced_well_formed [OF prod] by auto
  moreover have "dl_producer d = Finished"
    using prod over whole by (cases "dl_producer d") (auto simp: produced_def is_over_def last_map split: if_splits)
  ultimately show ?thesis
    using over by simp
qed

text \<open>
  C1. Whatever the application, the client and Envoy do, and however they interleave, the client gets
  the application's answer and nothing else: what the queue took over is a head, a body and its end or a
  failure, what the worker took is a beginning of it, what was sent is exactly that beginning, with
  the body's bytes in order, and unless the filter is gone the rest is still queued.  Once the filter has
  responded, the application is done, everything it put into the queue was sent, and the last of it was the end or
  the failure.
\<close>

theorem response_reaches_client_in_order:
  assumes "reachable (download_begins ehf n) (download_step ehf n) d"
  shows "well_formed_answer (dl_accepted d) \<and>
    (\<exists>rest. dl_accepted d = dl_taken d @ rest \<and> (cancelled (dl_queue n d) \<or> rest = items (dl_queue n d))) \<and>
    sent_downstream (snd (dl_fw d)) = answer_calls (fst (dl_fw d)) Waiting (dl_taken d) \<and>
    body_sent (sent_downstream (snd (dl_fw d))) = body_of (dl_taken d) \<and>
    (f_state (fst (dl_fw d)) = Responded \<longrightarrow>
       dl_taken d = dl_accepted d \<and> is_over (dl_accepted d) \<and> dl_producer d = Finished)"
proof -
  obtain f w where fw: "dl_fw d = (f, w)" by (cases "dl_fw d")
  have inv: "delivery_inv n d"
    using assms by (rule deliveries.inv_reachable)
  then have wf: "well_formed_answer (dl_accepted d)" and sent: "sent_downstream w = answer_calls f Waiting (dl_taken d)"
      and rest: "\<exists>rest. dl_accepted d = dl_taken d @ rest \<and> (cancelled (dl_queue n d) \<or> rest = items (dl_queue n d))"
    by (auto simp: delivery_inv_def fw dl_queue_def prefix_def dest: produced_well_formed split: if_splits)
  then have "body_sent (sent_downstream w) = body_of (dl_taken d)"
    using body_sent_answer well_formed_prefix by auto
  then show ?thesis
    using wf sent rest finished_answer_is_whole [OF inv] by (simp add: fw)
qed

theorem response_reaches_client_in_order_witness:
  "\<exists>d. reachable (download_begins sample_ehf 1) (download_step sample_ehf 1) d \<and>
     f_state (fst (dl_fw d)) = Responded \<and> dl_taken d = [Head sample_head, Chunk ''hi'', End] \<and>
     body_sent (sent_downstream (snd (dl_fw d))) = body_of (dl_taken d)"
  using sample_delivered response_reaches_client_in_order by metis



text \<open>
  C4. A request that was admitted reaches the runtime: the next pass of the reactor takes, behind
  the calls submitted before it, one call that carries the request as it was copied from Envoy, with the body queue
  the filter fills and the response queue it drains.
\<close>

theorem admitted_request_reaches_runtime:
  assumes "fresh_filter f0" and "copy_headers ehf (instant_now ehf (envoy w0)) f0 (envoy w0) = Inr q"
    and "on_request_headers ehf e (f0, w0) = (f, w)" and "f_stream f = Some (Plain n)"
    and "list_all (\<lambda>c. \<not> is_shutdown c) (commands (w_client w0))"
    and "bridge_drain get_stream put_stream now (Inr ()) senders (w_client w) w = (Inr b, resolved, rt, w1)"
  shows "\<exists>call. envelopes b = calls_of (commands (w_client w0)) @ [call] \<and> same_request q (fc_request call) \<and>
    fc_handle call = \<lparr> sh_stream = Plain n, sh_event = RESPONSE_EVENT_ID \<rparr> \<and>
    body_stream (fc_request call) = f_request_body f \<and> f_request_body f \<noteq> None"
proof -
  have fresh: "f_stream f0 = None"
    using assms(1) by (auto simp: fresh_filter_def new_http_filter_def)
  obtain f1 v1 where sub: "submit_request ehf (f0\<lparr>f_request := Some q\<rparr>, w0) = (f1, v1)"
    by (cases "submit_request ehf (f0\<lparr>f_request := Some q\<rparr>, w0)")
  let ?f1 = "f1\<lparr>request_end_pending := e\<rparr>"
  have fw: "(f, w) = (if e then forward_request_body ehf (?f1, v1) else (?f1, v1))"
    using assms(2,3) sub by (simp add: on_request_headers_def Let_def)
  have kept: "commands (w_client w) = commands (w_client v1)" "f_stream f = f_stream f1" "f_request_body f = f_request_body f1"
    using fw forward_client [of v1 ehf ?f1] quiet_forward_request_body [of "(?f1, v1)" ehf]
    by (auto simp: client_frame_def quiet_def forward_request_body_def Let_def split: if_splits option.splits prod.splits)
  obtain call where call: "commands (w_client v1) = commands (w_client w0) @ [Cmd_call call]"
      "fc_handle call = \<lparr> sh_stream = Plain n, sh_event = RESPONSE_EVENT_ID \<rparr>"
      "body_stream (fc_request call) = f_request_body f1" "f_request_body f1 \<noteq> None" "same_request q (fc_request call)"
    using submit_request_command [OF _ sub, of q "Plain n"] assms(4) kept(2) fresh by auto
  obtain cs where "receive_commands senders empty_batch (commands (w_client w)) = (b, cs)"
    using assms(6) by (auto simp: bridge_drain_def take_owed_def Let_def split: prod.splits)
  then have "envelopes b = calls_of (commands (w_client w))"
    using receive_all [of "commands (w_client w)"] assms(5) call(1) kept(1) by simp
  then show ?thesis
    using call kept by auto
qed

theorem admitted_request_reaches_runtime_witness:
  "\<exists>f w b rs rt w1 call. sample_begun = (f, w) \<and>
     bridge_drain get_stream put_stream 0 (Inr ()) True (w_client w) w = (Inr b, rs, rt, w1) \<and>
     envelopes b = [call] \<and> fc_handle call = \<lparr> sh_stream = Plain 1, sh_event = RESPONSE_EVENT_ID \<rparr>"
proof -
  have new: "fresh_filter sample_filter"
    unfolding fresh_filter_def sample_filter_def by blast
  obtain q where copied: "copy_headers sample_ehf (instant_now sample_ehf (envoy (sample_world ([], []))))
      sample_filter (envoy (sample_world ([], []))) = Inr q"
    using sample_copied by blast
  obtain f w where b: "sample_begun = (f, w)" "f_stream f = Some (Plain 1)"
    by (rule sample_begun_shape)
  have empty: "commands (w_client (sample_world ([], []))) = []"
    by (simp add: sample_world_def sample_client_def)
  obtain x rs rt w1 where drain: "bridge_drain get_stream put_stream 0 (Inr ()) True (w_client w) w = (Inr x, rs, rt, w1)"
    by (cases "resolve_wakeups get_stream put_stream (owed (w_client w)) w";
        cases "receive_commands True empty_batch (commands (w_client w))")
      (auto simp: bridge_drain_def take_owed_def Let_def)
  have "\<exists>call. envelopes x = [call] \<and> fc_handle call = \<lparr> sh_stream = Plain 1, sh_event = RESPONSE_EVENT_ID \<rparr>"
    using admitted_request_reaches_runtime [OF new copied b(1) [unfolded sample_begun_def] b(2) _ drain] empty by auto
  then show ?thesis
    using b(1) drain by blast
qed

end
