(* ===== verification/Vm_Startup.thy ===== *)
theory Vm_Startup
  imports Bridge_Types
begin

text \<open>
  Preparing the embedded Ruby VM: what the owner thread asks of Ruby, in order,
  before the application may serve (\<open>prepare_fiber_runtime\<close> and \<open>load_fiber_app\<close>
  in src/src/fiber.rs, the class definitions of src/src/chunks.rs and
  src/src/extensions.rs, src/src/vm.rs, and \<open>prepare\<close> of src/src/sync.rs).

  Ruby is a parameter: a record with the function that answers a call in the
  state the VM is in, and the conversions of a Ruby value.  An answer is a value,
  an exception with its text, or a panic that unwinds the thread.
\<close>

section \<open>Asking Ruby\<close>

text \<open>
  A call names what is evaluated, defined or looked up.  A file of src/ruby that
  is compiled into the library is given by its name, a class by its path, an
  argument list by the texts in it.
\<close>

datatype vm_call =
    Eval string
  | Eval_included string
  | Require string
  | Define_module string
  | Define_class string
  | Define_error string string
  | Define_method string string nat
  | Define_private_method string string nat
  | Const_get string string
  | Funcall string string "string list"

datatype 'v vm_answer = Answered 'v | Raised string | Panicked panic_payload

record ('s, 'v) vm =
  vm_ask :: "'s \<Rightarrow> vm_call \<Rightarrow> 'v vm_answer \<times> 's"
  vm_string :: "'v \<Rightarrow> (string, string) result"
  vm_i64 :: "'v \<Rightarrow> (string, int) result"

text \<open>Why preparing stopped: an error it returned, or a panic for \<open>catch_unwind\<close>.\<close>

datatype halt = Halt_error bridge_error | Halt_panic panic_payload

type_synonym ('s, 'a) startup = "'s \<Rightarrow> (halt, 'a) result \<times> 's"

definition vm_return :: "'a \<Rightarrow> ('s, 'a) startup" where
  "vm_return a s = (Inr a, s)"

definition vm_fail :: "bridge_error \<Rightarrow> ('s, 'a) startup" where
  "vm_fail e s = (Inl (Halt_error e), s)"

text \<open>The question mark between two steps.\<close>

definition vm_then :: "('s, 'a) startup \<Rightarrow> ('a \<Rightarrow> ('s, 'b) startup) \<Rightarrow> ('s, 'b) startup" where
  "vm_then m k s = (case m s of (Inl h, s1) \<Rightarrow> (Inl h, s1) | (Inr a, s1) \<Rightarrow> k a s1)"

definition vm_seq :: "('s, 'a) startup \<Rightarrow> ('s, 'b) startup \<Rightarrow> ('s, 'b) startup" where
  "vm_seq m k = vm_then m (\<lambda>_. k)"

text \<open>One call, with \<open>ruby_error\<close> naming it in the error.\<close>

definition ask :: "('s, 'v) vm \<Rightarrow> string \<Rightarrow> vm_call \<Rightarrow> ('s, 'v) startup" where
  "ask vm what c s =
     (case vm_ask vm s c of
        (Answered v, s1) \<Rightarrow> (Inr v, s1)
      | (Raised e, s1) \<Rightarrow> (Inl (Halt_error (ruby_error what e)), s1)
      | (Panicked p, s1) \<Rightarrow> (Inl (Halt_panic p), s1))"

text \<open>A chain of calls under one \<open>map_err\<close>: each runs only after the one before it.\<close>

fun ask_each :: "('s, 'v) vm \<Rightarrow> string \<Rightarrow> vm_call list \<Rightarrow> ('s, unit) startup" where
  "ask_each vm what [] = vm_return ()"
| "ask_each vm what (c # cs) = vm_seq (ask vm what c) (ask_each vm what cs)"

text \<open>A value read as a Rust type; the conversion error is reported under the same name.\<close>

definition convert :: "string \<Rightarrow> (string, 'a) result \<Rightarrow> ('s, 'a) startup" where
  "convert what converted = (case converted of Inl e \<Rightarrow> vm_fail (ruby_error what e) | Inr a \<Rightarrow> vm_return a)"

definition ask_string :: "('s, 'v) vm \<Rightarrow> string \<Rightarrow> vm_call \<Rightarrow> ('s, string) startup" where
  "ask_string vm what c = vm_then (ask vm what c) (\<lambda>v. convert what (vm_string vm v))"

definition ask_i64 :: "('s, 'v) vm \<Rightarrow> string \<Rightarrow> vm_call \<Rightarrow> ('s, int) startup" where
  "ask_i64 vm what c = vm_then (ask vm what c) (\<lambda>v. convert what (vm_i64 vm v))"

text \<open>\<open>{:?}\<close> of a text that needs no escape.\<close>

definition quoted :: "string \<Rightarrow> string" where
  "quoted s = [CHR 0x22] @ s @ [CHR 0x22]"

section \<open>Identity of the VM\<close>

record runtime_info =
  ruby_description :: string
  rust_thread_id :: string
  ruby_thread_object_id :: u64

definition thread_object_id :: "int \<Rightarrow> ('s, u64) startup" where
  "thread_object_id i =
     (if i < 0 then vm_fail (InvalidResponse (''Ruby thread object id '' @ show_int i @ '' is negative''))
      else vm_return (word_of_int i))"

text \<open>\<open>thread\<close> is the debug form of the current Rust thread.\<close>

definition runtime_info_of :: "('s, 'v) vm \<Rightarrow> string \<Rightarrow> ('s, runtime_info) startup" where
  "runtime_info_of vm thread =
     vm_then (ask_string vm ''reading RUBY_DESCRIPTION'' (Eval ''RUBY_DESCRIPTION'')) (\<lambda>description.
     vm_then (ask_i64 vm ''reading Ruby thread object id'' (Eval ''Thread.current.object_id'')) (\<lambda>i.
     vm_then (thread_object_id i) (\<lambda>object_id.
     vm_return \<lparr> ruby_description = description, rust_thread_id = thread, ruby_thread_object_id = object_id \<rparr>)))"

section \<open>The classes the library gives to Ruby\<close>

definition chunks_define :: "('s, 'v) vm \<Rightarrow> ('s, unit) startup" where
  "chunks_define vm =
     vm_seq (ask vm ''defining Ruvoy::ChunkSource'' (Define_class ''Ruvoy::ChunkSource''))
    (vm_seq (ask_each vm ''defining Ruvoy::ChunkSource methods''
       [Define_method ''Ruvoy::ChunkSource'' ''next_chunk'' 0, Define_method ''Ruvoy::ChunkSource'' ''finished?'' 0,
        Define_method ''Ruvoy::ChunkSource'' ''park'' 1, Define_method ''Ruvoy::ChunkSource'' ''unpark'' 0])
    (vm_seq (ask vm ''defining Ruvoy::ChunkSink'' (Define_class ''Ruvoy::ChunkSink''))
     (ask_each vm ''defining Ruvoy::ChunkSink methods''
       [Define_method ''Ruvoy::ChunkSink'' ''write'' 2, Define_method ''Ruvoy::ChunkSink'' ''writable?'' 0,
        Define_method ''Ruvoy::ChunkSink'' ''cancelled?'' 0, Define_method ''Ruvoy::ChunkSink'' ''park'' 1,
        Define_method ''Ruvoy::ChunkSink'' ''unpark'' 0, Define_method ''Ruvoy::ChunkSink'' ''finish'' 0])))"

text \<open>The subclasses of \<open>UpstreamError\<close>, each defined under its own name.\<close>

fun define_errors :: "('s, 'v) vm \<Rightarrow> string list \<Rightarrow> ('s, unit) startup" where
  "define_errors vm [] = vm_return ()"
| "define_errors vm (name # names) =
     vm_seq (ask vm (''defining '' @ name) (Define_error (''Ruvoy::'' @ name) ''Ruvoy::UpstreamError''))
       (define_errors vm names)"

definition extensions_define :: "('s, 'v) vm \<Rightarrow> ('s, unit) startup" where
  "extensions_define vm =
     vm_seq (ask vm ''defining Context'' (Define_class ''Ruvoy::Context''))
    (vm_seq (ask_each vm ''defining Context methods''
       [Define_method ''Ruvoy::Context'' ''route_name'' 0, Define_method ''Ruvoy::Context'' ''connection'' 0,
        Define_method ''Ruvoy::Context'' ''tls'' 0, Define_method ''Ruvoy::Context'' ''dynamic_metadata'' 0,
        Define_method ''Ruvoy::Context'' ''route_metadata'' 0, Define_method ''Ruvoy::Context'' ''to_h'' 0])
    (vm_seq (ask vm ''defining Upstream'' (Define_class ''Ruvoy::Upstream''))
    (vm_seq (ask_each vm ''defining Upstream methods''
       [Define_private_method ''Ruvoy::Upstream'' ''dispatch'' 4,
        Define_private_method ''Ruvoy::Upstream'' ''open_stream'' 4,
        Define_private_method ''Ruvoy::Upstream'' ''default_timeout'' 0])
    (vm_seq (ask vm ''defining UpstreamChannel'' (Define_class ''Ruvoy::UpstreamChannel''))
    (vm_seq (ask_each vm ''defining UpstreamChannel methods''
       [Define_method ''Ruvoy::UpstreamChannel'' ''head'' 0, Define_method ''Ruvoy::UpstreamChannel'' ''reader'' 0,
        Define_method ''Ruvoy::UpstreamChannel'' ''writer'' 0, Define_method ''Ruvoy::UpstreamChannel'' ''close'' 0,
        Define_method ''Ruvoy::UpstreamChannel'' ''time_out'' 0, Define_method ''Ruvoy::UpstreamChannel'' ''trailers'' 0])
    (vm_seq (ask vm ''defining UpstreamCall'' (Define_class ''Ruvoy::UpstreamCall''))
    (vm_seq (ask_each vm ''defining UpstreamCall methods''
       [Define_method ''Ruvoy::UpstreamCall'' ''response'' 0, Define_method ''Ruvoy::UpstreamCall'' ''park'' 1,
        Define_method ''Ruvoy::UpstreamCall'' ''unpark'' 0])
    (vm_seq (ask vm ''defining UpstreamError'' (Define_error ''Ruvoy::UpstreamError'' ''StandardError''))
    (vm_seq (define_errors vm [''UpstreamResponseTooLarge'', ''UpstreamOverflow'', ''UpstreamTimeout''])
    (vm_seq (ask vm ''loading Upstream#call'' (Eval_included ''upstream.rb''))
     (vm_return ())))))))))))"

definition bridge_define :: "('s, 'v) vm \<Rightarrow> ('s, unit) startup" where
  "bridge_define vm =
     vm_seq (ask vm ''defining Ruvoy module'' (Define_module ''Ruvoy''))
    (vm_seq (ask vm ''defining FiberBridge'' (Define_class ''Ruvoy::FiberBridge''))
    (vm_seq (ask_each vm ''defining FiberBridge methods''
       [Define_method ''Ruvoy::FiberBridge'' ''fd'' 0, Define_method ''Ruvoy::FiberBridge'' ''drain'' 0,
        Define_method ''Ruvoy::FiberBridge'' ''execute'' 4, Define_method ''Ruvoy::FiberBridge'' ''ack_shutdown'' 0])
    (vm_seq (ask vm ''defining FiberEnvelope'' (Define_class ''Ruvoy::FiberEnvelope''))
    (vm_seq (ask vm ''defining FiberEnvelope methods'' (Define_method ''Ruvoy::FiberEnvelope'' ''cancelled?'' 0))
    (vm_seq (ask vm ''defining AdminEnvelope'' (Define_class ''Ruvoy::AdminEnvelope''))
     (ask_each vm ''defining AdminEnvelope methods''
       [Define_method ''Ruvoy::AdminEnvelope'' ''http_method'' 0, Define_method ''Ruvoy::AdminEnvelope'' ''path'' 0,
        Define_method ''Ruvoy::AdminEnvelope'' ''body'' 0, Define_method ''Ruvoy::AdminEnvelope'' ''inflight'' 0,
        Define_method ''Ruvoy::AdminEnvelope'' ''reply'' 2]))))))"

section \<open>Preparing the fiber runtime\<close>

datatype fiber_app = App_source string | App_rackup bytes

definition set_source_encoding :: "('s, 'v) vm \<Rightarrow> ('s, unit) startup" where
  "set_source_encoding vm =
     vm_seq (ask vm ''setting the default encoding'' (Eval ''Encoding.default_external = Encoding::UTF_8''))
       (vm_return ())"

fun require_features :: "('s, 'v) vm \<Rightarrow> string list \<Rightarrow> ('s, unit) startup" where
  "require_features vm [] = vm_return ()"
| "require_features vm (feature # features) =
     vm_seq (ask vm (''loading '' @ feature) (Eval (''require '' @ quoted feature)))
       (require_features vm features)"

definition fiber_features :: "string list" where
  "fiber_features =
     [''rubygems'', ''bundler/setup'', ''stringio'', ''io/wait'', ''async'', ''async/semaphore'', ''async/variable'']"

definition load_settings :: "('s, 'v) vm \<Rightarrow> string option \<Rightarrow> ('s, unit) startup" where
  "load_settings vm settings_json =
     (case settings_json of
        None \<Rightarrow> vm_return ()
      | Some json \<Rightarrow>
          vm_seq (ask vm ''loading Ruvoy::Lifecycle'' (Const_get ''Ruvoy'' ''Lifecycle''))
         (vm_seq (ask vm ''loading the runtime settings'' (Funcall ''Ruvoy::Lifecycle'' ''load_settings'' [json]))
          (vm_return ())))"

text \<open>A path is text only when its bytes are valid UTF-8; \<open>display\<close> replaces what is not.\<close>

definition rackup_text :: "bytes \<Rightarrow> ('s, string) startup" where
  "rackup_text path =
     (if valid_utf8 path then vm_return path
      else vm_fail (Startup (''rackup path must contain valid UTF-8: '' @ from_utf8_lossy path)))"

definition load_fiber_app :: "('s, 'v) vm \<Rightarrow> fiber_app \<Rightarrow> ('s, 'v) startup" where
  "load_fiber_app vm app =
     (case app of
        App_source source \<Rightarrow> ask vm ''evaluating fiber app source'' (Eval source)
      | App_rackup path \<Rightarrow>
          vm_seq (ask vm ''loading Rack'' (Eval (''require '' @ quoted ''rack'')))
         (vm_then (rackup_text path) (\<lambda>text_path.
          vm_seq (ask vm ''loading Rack module'' (Const_get ''Object'' ''Rack''))
         (vm_seq (ask vm ''loading Rack::Builder'' (Const_get ''Rack'' ''Builder''))
          (ask vm ''loading rackup'' (Funcall ''Rack::Builder'' ''parse_file'' [text_path, ''isolation: :fiber'']))))))"

record 'v prepared_fiber_runtime =
  pf_app :: 'v
  pf_rack_errors :: 'v
  pf_body_reader :: 'v
  pf_runner :: 'v
  pf_request_body_class :: 'v
  pf_info :: runtime_info

definition prepare_fiber_runtime ::
    "('s, 'v) vm \<Rightarrow> string \<Rightarrow> fiber_app \<Rightarrow> string option \<Rightarrow> ('s, 'v prepared_fiber_runtime) startup" where
  "prepare_fiber_runtime vm thread app settings_json =
     vm_seq (set_source_encoding vm)
    (vm_seq (require_features vm fiber_features)
    (vm_seq (bridge_define vm)
    (vm_seq (chunks_define vm)
    (vm_seq (ask vm ''loading Ruvoy::Stream'' (Eval_included ''stream.rb''))
    (vm_seq (extensions_define vm)
    (vm_seq (ask vm ''loading Ruvoy.offload'' (Eval_included ''offload.rb''))
    (vm_seq (ask vm ''loading Ruvoy::Lifecycle'' (Eval_included ''lifecycle.rb''))
    (vm_seq (load_settings vm settings_json)
    (vm_then (load_fiber_app vm app) (\<lambda>application.
     vm_seq (ask vm ''running before_ready hooks'' (Eval ''Ruvoy::Lifecycle.run_before_ready''))
    (vm_then (ask vm ''loading rack.errors'' (Eval ''STDERR'')) (\<lambda>rack_errors.
     vm_then (ask vm ''loading Rack body reader'' (Eval_included ''rack_streaming_body_reader.rb'')) (\<lambda>body_reader.
     vm_then (ask vm ''evaluating fiber runner'' (Eval_included ''fiber_runner.rb'')) (\<lambda>runner.
     vm_then (ask vm ''loading the Rack input class'' (Eval_included ''request_body.rb'')) (\<lambda>body_class.
     vm_then (runtime_info_of vm thread) (\<lambda>info.
     vm_return \<lparr> pf_app = application, pf_rack_errors = rack_errors, pf_body_reader = body_reader,
                 pf_runner = runner, pf_request_body_class = body_class, pf_info = info \<rparr>))))))))))))))))"

section \<open>Preparing the serial runtime\<close>

definition boxed :: "('s, 'v) vm \<Rightarrow> vm_call \<Rightarrow> string \<Rightarrow> ('s, 'v) startup" where
  "boxed vm source what = ask vm what source"

record 'v prepared =
  pr_app :: 'v
  pr_rack_errors :: 'v
  pr_body_reader :: 'v
  pr_string_io_class :: 'v
  pr_info :: runtime_info

definition prepare :: "('s, 'v) vm \<Rightarrow> string \<Rightarrow> string \<Rightarrow> ('s, 'v prepared) startup" where
  "prepare vm thread app_source =
     vm_seq (ask vm ''loading StringIO'' (Require ''stringio''))
    (vm_then (ask vm ''loading StringIO'' (Const_get ''Object'' ''StringIO'')) (\<lambda>string_io_class.
     vm_then (boxed vm (Eval app_source) ''evaluating app source'') (\<lambda>app.
     vm_then (boxed vm (Eval ''STDERR'') ''loading rack.errors'') (\<lambda>rack_errors.
     vm_then (boxed vm (Eval_included ''rack_body_reader.rb'') ''loading Rack body reader'') (\<lambda>body_reader.
     vm_then (runtime_info_of vm thread) (\<lambda>info.
     vm_return \<lparr> pr_app = app, pr_rack_errors = rack_errors, pr_body_reader = body_reader,
                 pr_string_io_class = string_io_class, pr_info = info \<rparr>))))))"

section \<open>The plan a startup follows\<close>

text \<open>
  A VM that also keeps what it was asked and what it answered.  A plan lists the
  calls of a startup with the name each is reported under.
\<close>

type_synonym 'v vm_log = "(vm_call \<times> 'v vm_answer) list"

definition traced :: "('s, 'v) vm \<Rightarrow> ('s \<times> 'v vm_log, 'v) vm" where
  "traced vm =
     \<lparr> vm_ask = \<lambda>(s, log) c. (let (a, s1) = vm_ask vm s c in (a, (s1, log @ [(c, a)]))),
       vm_string = vm_string vm, vm_i64 = vm_i64 vm \<rparr>"

text \<open>
  What a step of a startup owes its plan: it asks for a prefix of it, goes on
  only after an answer, asks for all of it when it succeeds, and reports an
  exception under the name of the call that raised it.
\<close>

fun answered :: "'v vm_answer \<Rightarrow> bool" where
  "answered (Answered v) = True"
| "answered (Raised e) = False"
| "answered (Panicked p) = False"

fun stops_with :: "string \<Rightarrow> 'v vm_answer \<Rightarrow> (halt, 'a) result \<Rightarrow> bool" where
  "stops_with what (Answered v) r = True"
| "stops_with what (Raised e) r = (r = Inl (Halt_error (ruby_error what e)))"
| "stops_with what (Panicked p) r = (r = Inl (Halt_panic p))"

definition keeps_plan :: "(string \<times> vm_call) list \<Rightarrow> 'v vm_log \<Rightarrow> (halt, 'a) result \<Rightarrow> bool" where
  "keeps_plan plan log r \<longleftrightarrow>
     prefix (map fst log) (map snd plan) \<and>
     (\<forall>x \<in> set (butlast log). answered (snd x)) \<and>
     (\<forall>a. r = Inr a \<longrightarrow> map fst log = map snd plan \<and> (\<forall>x \<in> set log. answered (snd x))) \<and>
     (log \<noteq> [] \<longrightarrow> stops_with (fst (plan ! (length log - 1))) (snd (last log)) r)"

definition follows ::
    "('s \<times> 'v vm_log, 'a) startup \<Rightarrow> ('s, 'a) startup \<Rightarrow> (string \<times> vm_call) list \<Rightarrow> bool" where
  "follows m m0 plan \<longleftrightarrow>
     (\<forall>s log. \<exists>r s1 new. m0 s = (r, s1) \<and> m (s, log) = (r, (s1, log @ new)) \<and> keeps_plan plan new r)"

lemma traced_simps [simp]:
  "vm_ask (traced vm) (s, log) c = (let (a, s1) = vm_ask vm s c in (a, (s1, log @ [(c, a)])))"
  "vm_string (traced vm) = vm_string vm" "vm_i64 (traced vm) = vm_i64 vm"
  by (simp_all add: traced_def)

named_theorems follows_intros \<open>how the steps of a startup follow their plans\<close>

lemma keeps_plan_Nil [simp]: "keeps_plan [] [] r"
  by (simp add: keeps_plan_def)

lemma follows_return [follows_intros]: "follows (vm_return a) (vm_return a) []"
  by (auto simp: follows_def vm_return_def)

lemma follows_fail [follows_intros]: "follows (vm_fail e) (vm_fail e) []"
  by (auto simp: follows_def vm_fail_def)

lemma follows_ask [follows_intros]: "follows (ask (traced vm) what c) (ask vm what c) [(what, c)]"
  unfolding follows_def
proof (intro allI)
  fix s log
  obtain a s1 where a: "vm_ask vm s c = (a, s1)"
    by fastforce
  then show "\<exists>r s1 new. ask vm what c s = (r, s1) \<and> ask (traced vm) what c (s, log) = (r, (s1, log @ new)) \<and>
      keeps_plan [(what, c)] new r"
    by (cases a) (auto simp: ask_def keeps_plan_def)
qed

lemma stops_with_Inl:
  "stops_with what a (Inl h :: (halt, 'a) result) \<Longrightarrow> stops_with what a (Inl h :: (halt, 'b) result)"
  by (cases a) auto

lemma keeps_plan_stopped:
  assumes "keeps_plan plan log (Inl h :: (halt, 'a) result)"
  shows "keeps_plan (plan @ plan2) log (Inl h :: (halt, 'b) result)"
proof -
  have len: "length log \<le> length plan"
    using assms prefix_length_le by (fastforce simp: keeps_plan_def)
  show ?thesis
  proof (cases "log = []")
    case False
    then have "length log - 1 < length plan"
      using len by (cases log) auto
    then show ?thesis
      using assms False by (auto simp: keeps_plan_def nth_append prefix_prefix intro: stops_with_Inl [where 'a = 'a])
  qed (simp add: keeps_plan_def)
qed

lemma keeps_plan_append:
  assumes one: "keeps_plan plan log (Inr a)" and two: "keeps_plan plan2 log2 r"
  shows "keeps_plan (plan @ plan2) (log @ log2) r"
proof -
  have log: "map fst log = map snd plan" "\<forall>x \<in> set log. answered (snd x)"
    using one by (auto simp: keeps_plan_def)
  have len: "length log = length plan"
    using log(1) by (metis length_map)
  show ?thesis
  proof (cases "log2 = []")
    case True
    have "stops_with what (snd (last log)) r" if "log \<noteq> []" for what
      using log(2) that by (cases "snd (last log)") (fastforce dest: last_in_set)+
    then show ?thesis
      using two log True by (auto simp: keeps_plan_def dest: in_set_butlastD)
  next
    case False
    then have "length log + length log2 - 1 = length plan + (length log2 - 1)"
      using len by (cases log2) auto
    then show ?thesis
      using two log False by (auto simp: keeps_plan_def butlast_append nth_append)
  qed
qed

lemma follows_stopped:
  assumes "follows m m0 plan" and "\<And>s. \<exists>h. fst (m0 s) = Inl h"
  shows "follows m m0 (plan @ plan2)"
  unfolding follows_def
proof (intro allI)
  fix s log
  obtain r s1 new where m: "m0 s = (r, s1)" "m (s, log) = (r, (s1, log @ new))" and new: "keeps_plan plan new r"
    using assms(1) unfolding follows_def by blast
  moreover obtain h where "r = Inl h"
    using assms(2) [of s] m by auto
  ultimately show "\<exists>r s1 new. m0 s = (r, s1) \<and> m (s, log) = (r, (s1, log @ new)) \<and> keeps_plan (plan @ plan2) new r"
    using keeps_plan_stopped by blast
qed

lemma follows_then [follows_intros]:
  assumes one: "follows m m0 plan" and two: "\<And>a. follows (k a) (k0 a) plan2"
  shows "follows (vm_then m k) (vm_then m0 k0) (plan @ plan2)"
  unfolding follows_def
proof (intro allI)
  fix s log
  obtain r s1 new where m: "m0 s = (r, s1)" "m (s, log) = (r, (s1, log @ new))" and new: "keeps_plan plan new r"
    using one unfolding follows_def by blast
  show "\<exists>r s1 new. vm_then m0 k0 s = (r, s1) \<and> vm_then m k (s, log) = (r, (s1, log @ new)) \<and>
      keeps_plan (plan @ plan2) new r"
  proof (cases r)
    case (Inl h)
    then show ?thesis
      using m new keeps_plan_stopped by (fastforce simp: vm_then_def)
  next
    case (Inr a)
    obtain r2 s2 new2 where "k0 a s1 = (r2, s2)" "k a (s1, log @ new) = (r2, (s2, (log @ new) @ new2))" "keeps_plan plan2 new2 r2"
      using two [of a] unfolding follows_def by blast
    then show ?thesis
      using m new Inr keeps_plan_append [of plan new a plan2 new2 r2] by (auto simp: vm_then_def)
  qed
qed

lemma follows_seq [follows_intros]:
  "follows m m0 plan \<Longrightarrow> follows k k0 plan2 \<Longrightarrow> follows (vm_seq m k) (vm_seq m0 k0) (plan @ plan2)"
  unfolding vm_seq_def by (rule follows_then)

lemma follows_each [follows_intros]: "follows (ask_each (traced vm) what cs) (ask_each vm what cs) (map (Pair what) cs)"
proof (induction cs)
  case (Cons c cs)
  then show ?case
    using follows_seq [OF follows_ask [of vm what c] Cons] by simp
qed (simp add: follows_return)

lemma follows_checked [follows_intros]:
  "follows (convert what v) (convert what v) []" "follows (thread_object_id i) (thread_object_id i) []"
  "follows (rackup_text path) (rackup_text path) []"
  by (auto simp: convert_def thread_object_id_def rackup_text_def split: sum.splits intro: follows_intros)

lemma follows_errors [follows_intros]:
  "follows (define_errors (traced vm) names) (define_errors vm names)
     (map (\<lambda>n. (''defining '' @ n, Define_error (''Ruvoy::'' @ n) ''Ruvoy::UpstreamError'')) names)"
proof (induction names)
  case (Cons n ns)
  then show ?case
    using follows_seq [OF follows_ask Cons] by simp
qed (simp add: follows_return)

lemma follows_features [follows_intros]:
  "follows (require_features (traced vm) names) (require_features vm names)
     (map (\<lambda>n. (''loading '' @ n, Eval (''require '' @ quoted n))) names)"
proof (induction names)
  case (Cons n ns)
  then show ?case
    using follows_seq [OF follows_ask Cons] by simp
qed (simp add: follows_return)

text \<open>The plan of the fiber runtime, component by component.\<close>

definition class_plan :: "string \<Rightarrow> string \<Rightarrow> (string \<times> nat) list \<Rightarrow> (string \<times> vm_call) list" where
  "class_plan label class methods =
     (''defining '' @ label, Define_class class) #
     map (\<lambda>(m, n). (''defining '' @ label @ '' methods'', Define_method class m n)) methods"

definition infrastructure_plan :: "(string \<times> vm_call) list" where
  "infrastructure_plan =
     (''setting the default encoding'', Eval ''Encoding.default_external = Encoding::UTF_8'') #
     map (\<lambda>n. (''loading '' @ n, Eval (''require '' @ quoted n))) fiber_features @
     (''defining Ruvoy module'', Define_module ''Ruvoy'') #
     class_plan ''FiberBridge'' ''Ruvoy::FiberBridge'' [(''fd'', 0), (''drain'', 0), (''execute'', 4), (''ack_shutdown'', 0)] @
     class_plan ''FiberEnvelope'' ''Ruvoy::FiberEnvelope'' [(''cancelled?'', 0)] @
     class_plan ''AdminEnvelope'' ''Ruvoy::AdminEnvelope''
       [(''http_method'', 0), (''path'', 0), (''body'', 0), (''inflight'', 0), (''reply'', 2)] @
     class_plan ''Ruvoy::ChunkSource'' ''Ruvoy::ChunkSource''
       [(''next_chunk'', 0), (''finished?'', 0), (''park'', 1), (''unpark'', 0)] @
     class_plan ''Ruvoy::ChunkSink'' ''Ruvoy::ChunkSink''
       [(''write'', 2), (''writable?'', 0), (''cancelled?'', 0), (''park'', 1), (''unpark'', 0), (''finish'', 0)] @
     (''loading Ruvoy::Stream'', Eval_included ''stream.rb'') #
     class_plan ''Context'' ''Ruvoy::Context''
       [(''route_name'', 0), (''connection'', 0), (''tls'', 0), (''dynamic_metadata'', 0), (''route_metadata'', 0), (''to_h'', 0)] @
     (''defining Upstream'', Define_class ''Ruvoy::Upstream'') #
     map (\<lambda>(m, n). (''defining Upstream methods'', Define_private_method ''Ruvoy::Upstream'' m n))
       [(''dispatch'', 4), (''open_stream'', 4), (''default_timeout'', 0)] @
     class_plan ''UpstreamChannel'' ''Ruvoy::UpstreamChannel''
       [(''head'', 0), (''reader'', 0), (''writer'', 0), (''close'', 0), (''time_out'', 0), (''trailers'', 0)] @
     class_plan ''UpstreamCall'' ''Ruvoy::UpstreamCall'' [(''response'', 0), (''park'', 1), (''unpark'', 0)] @
     (''defining UpstreamError'', Define_error ''Ruvoy::UpstreamError'' ''StandardError'') #
     map (\<lambda>n. (''defining '' @ n, Define_error (''Ruvoy::'' @ n) ''Ruvoy::UpstreamError''))
       [''UpstreamResponseTooLarge'', ''UpstreamOverflow'', ''UpstreamTimeout''] @
     [(''loading Upstream#call'', Eval_included ''upstream.rb''),
      (''loading Ruvoy.offload'', Eval_included ''offload.rb''),
      (''loading Ruvoy::Lifecycle'', Eval_included ''lifecycle.rb'')]"

definition settings_plan :: "string option \<Rightarrow> (string \<times> vm_call) list" where
  "settings_plan settings_json =
     (case settings_json of
        None \<Rightarrow> []
      | Some json \<Rightarrow>
          [(''loading Ruvoy::Lifecycle'', Const_get ''Ruvoy'' ''Lifecycle''),
           (''loading the runtime settings'', Funcall ''Ruvoy::Lifecycle'' ''load_settings'' [json])])"

definition application_plan :: "fiber_app \<Rightarrow> (string \<times> vm_call) list" where
  "application_plan app =
     (case app of
        App_source source \<Rightarrow> [(''evaluating fiber app source'', Eval source)]
      | App_rackup path \<Rightarrow>
          [(''loading Rack'', Eval (''require '' @ quoted ''rack'')),
           (''loading Rack module'', Const_get ''Object'' ''Rack''),
           (''loading Rack::Builder'', Const_get ''Rack'' ''Builder''),
           (''loading rackup'', Funcall ''Rack::Builder'' ''parse_file'' [path, ''isolation: :fiber''])])"

definition serving_plan :: "(string \<times> vm_call) list" where
  "serving_plan =
     [(''running before_ready hooks'', Eval ''Ruvoy::Lifecycle.run_before_ready''),
      (''loading rack.errors'', Eval ''STDERR''),
      (''loading Rack body reader'', Eval_included ''rack_streaming_body_reader.rb''),
      (''evaluating fiber runner'', Eval_included ''fiber_runner.rb''),
      (''loading the Rack input class'', Eval_included ''request_body.rb''),
      (''reading RUBY_DESCRIPTION'', Eval ''RUBY_DESCRIPTION''),
      (''reading Ruby thread object id'', Eval ''Thread.current.object_id'')]"

definition startup_plan :: "fiber_app \<Rightarrow> string option \<Rightarrow> (string \<times> vm_call) list" where
  "startup_plan app settings_json =
     infrastructure_plan @ settings_plan settings_json @ application_plan app @ serving_plan"

lemma follows_eq: "follows m m0 p \<Longrightarrow> p = q \<Longrightarrow> follows m m0 q"
  by simp

lemma follows_settings [follows_intros]:
  "follows (load_settings (traced vm) settings_json) (load_settings vm settings_json) (settings_plan settings_json)"
  unfolding load_settings_def settings_plan_def
  by (cases settings_json; simp) (rule follows_eq, (rule follows_intros)+, simp)+

lemma vm_then_simps [simp]:
  "vm_then (vm_return a) k = k a"
  "vm_then (vm_fail e) k = vm_fail e"
  by (simp_all add: vm_then_def vm_return_def vm_fail_def fun_eq_iff)

lemma follows_app [follows_intros]: "follows (load_fiber_app (traced vm) app) (load_fiber_app vm app) (application_plan app)"
proof (cases app)
  case (App_rackup path)
  let ?require = "\<lambda>vm. ask vm ''loading Rack'' (Eval (''require '' @ quoted ''rack''))"
  show ?thesis
  proof (cases "valid_utf8 path")
    case True
    then show ?thesis
      unfolding load_fiber_app_def application_plan_def App_rackup
      by (simp add: rackup_text_def) (rule follows_eq, (rule follows_intros)+, simp)
  next
    case False
    define e where "e = Startup (''rackup path must contain valid UTF-8: '' @ from_utf8_lossy path)"
    have fails: "load_fiber_app vm app = vm_seq (?require vm) (vm_fail e)" for vm :: "('c, 'b) vm"
      using False by (simp add: load_fiber_app_def App_rackup rackup_text_def e_def)
    have stops: "\<exists>h. fst (vm_seq (?require vm) (vm_fail e) s) = Inl h" for s
      by (auto simp: vm_seq_def vm_then_def vm_fail_def split: prod.splits sum.splits)
    have "follows (vm_seq (?require (traced vm)) (vm_fail e)) (vm_seq (?require vm) (vm_fail e)) ([(''loading Rack'', Eval (''require '' @ quoted ''rack''))] @ [])"
      by (rule follows_intros)+
    from follows_stopped [OF this stops] show ?thesis
      unfolding fails by (simp add: application_plan_def App_rackup)
  qed
qed (simp add: load_fiber_app_def application_plan_def follows_ask)

lemma startup_follows:
  "follows (prepare_fiber_runtime (traced vm) thread app settings_json) (prepare_fiber_runtime vm thread app settings_json)
     (startup_plan app settings_json)"
  unfolding prepare_fiber_runtime_def set_source_encoding_def bridge_define_def chunks_define_def extensions_define_def
    runtime_info_of_def ask_string_def ask_i64_def traced_simps
  by (rule follows_eq, (rule follows_intros)+)
    (simp add: startup_plan_def infrastructure_plan_def serving_plan_def class_plan_def)


end
