(* ===== verification/Fiber_Runtime.thy ===== *)
theory Fiber_Runtime
  imports Fiber_Client Vm_Startup
begin

text \<open>
  The owner of the Ruby VM (src/src/fiber.rs): starting the thread, what the
  thread does from its first to its last line, what a runtime whose application
  did not load still answers, and the final shutdown.

  The operating system (socket pair, thread, file system), the readiness message
  that arrives, the outcome of joining the thread, and the reactor loop written
  in Ruby are arguments.
\<close>

section \<open>A runtime that cannot serve\<close>

text \<open>
  What the loop of a failed runtime touches: the stream behind each handle, the
  wakers it ran, the answers it sent on reply channels, and the admission budget
  the permits of dropped calls return to.
\<close>

record 'h retained =
  rf_streams :: "'h \<Rightarrow> response_stream"
  rf_wakes :: "'h list"
  rf_admin :: "(reply \<times> nat \<times> string) list"
  rf_acks :: "reply list"
  rf_admission :: ceiling

text \<open>
  How the loop stands after the commands at hand: it returned, it waits for the
  next command, or every sender is gone and it parks for good.
\<close>

datatype retain_ending = Retain_returned | Retain_waiting | Retain_parked

fun retain_failed_runtime ::
    "bridge_error \<Rightarrow> bool \<Rightarrow> ('q, 'h) fiber_command list \<Rightarrow> 'h retained \<Rightarrow> retain_ending \<times> 'h retained" where
  "retain_failed_runtime e senders [] w = (if senders then Retain_waiting else Retain_parked, w)"
| "retain_failed_runtime e senders (Cmd_call call # cs) w =
     retain_failed_runtime e senders cs
       (w\<lparr>rf_streams := (rf_streams w)(fc_handle call := snd (push_failure e (rf_streams w (fc_handle call)))),
          rf_wakes := rf_wakes w @ [fc_handle call],
          rf_admission := snd (drop_lease (fc_permit call) (rf_admission w))\<rparr>)"
| "retain_failed_runtime e senders (Cmd_admin request reply # cs) w =
     retain_failed_runtime e senders cs
       (w\<lparr>rf_admin := rf_admin w @ [(reply, 503, display_error e @ [CHR 0x0A])]\<rparr>)"
| "retain_failed_runtime e senders (Cmd_drain # cs) w = retain_failed_runtime e senders cs w"
| "retain_failed_runtime e senders (Cmd_shutdown reply # cs) w =
     (Retain_returned, w\<lparr>rf_acks := rf_acks w @ [reply], rf_admission := fold drop_command cs (rf_admission w)\<rparr>)"

section \<open>The owner thread\<close>

text \<open>
  What the thread leaves behind: its result (\<^term>\<open>None\<close> while it still holds a
  failed VM), the readiness messages it delivered, and whether the VM was cleaned
  up on return or deliberately left alone.
\<close>

datatype vm_fate = Vm_held | Vm_cleaned | Vm_forgotten

record main_outcome =
  mo_result :: "(bridge_error, unit) result option"
  mo_readiness :: "(bridge_error, runtime_info) result list"
  mo_vm :: vm_fate

definition halt_error :: "halt \<Rightarrow> bridge_error" where
  "halt_error h = (case h of Halt_error e \<Rightarrow> e | Halt_panic payload \<Rightarrow> RuntimePanicked (panic_message payload))"

text \<open>
  \<open>listening\<close> says the starter still waits for readiness; \<open>reactor\<close> is the call of
  the runner, which returns when the reactor ends.
\<close>

definition fiber_runtime_main ::
    "('s, 'v) vm \<Rightarrow> string \<Rightarrow> ('v prepared_fiber_runtime \<Rightarrow> 's \<Rightarrow> 'v vm_answer \<times> 's) \<Rightarrow> bool
       \<Rightarrow> fiber_app \<Rightarrow> string option \<Rightarrow> bool \<Rightarrow> ('q, 'h) fiber_command list \<Rightarrow> 's \<Rightarrow> 'h retained
       \<Rightarrow> main_outcome \<times> 'h retained" where
  "fiber_runtime_main vm thread reactor listening app settings_json senders cs s w =
     (case prepare_fiber_runtime vm thread app settings_json s of
        (Inl h, s1) \<Rightarrow>
          let e = halt_error h;
              (ending, w1) = retain_failed_runtime e senders cs w
          in (\<lparr> mo_result = (if ending = Retain_returned then Some (Inl e) else None),
                mo_readiness = (if listening then [Inl e] else []),
                mo_vm = (if ending = Retain_returned then Vm_cleaned else Vm_held) \<rparr>, w1)
      | (Inr prep, s1) \<Rightarrow>
          if \<not> listening then
            (\<lparr> mo_result = Some (Inl (Startup ''starter dropped fiber readiness channel'')),
               mo_readiness = [], mo_vm = Vm_forgotten \<rparr>, w)
          else
            let (result, fate) =
                  (case reactor prep s1 of
                     (Answered v, s2) \<Rightarrow> (Inr (), Vm_cleaned)
                   | (Raised e, s2) \<Rightarrow> (Inl (ruby_error ''running Async reactor'' e), Vm_forgotten)
                   | (Panicked payload, s2) \<Rightarrow> (Inl (RuntimePanicked (panic_message payload)), Vm_forgotten))
            in (\<lparr> mo_result = Some result, mo_readiness = [Inr (pf_info prep)], mo_vm = fate \<rparr>, w))"

section \<open>Starting\<close>

text \<open>
  \<open>FiberRuntime\<close> holds the client it hands out, the identity of a VM that is
  ready, and the thread to join; the state behind every client is the shared
  \<^typ>\<open>('q, 'h, 'r) runtime\<close>.
\<close>

record fiber_runtime =
  fr_client :: bool
  fr_info :: "runtime_info option"
  fr_join :: bool

record fiber_runtime_startup =
  su_runtime :: fiber_runtime
  su_error :: "bridge_error option"

text \<open>
  What the operating system answers while a runtime starts, and the message the
  spawned thread sends on the readiness channel for the application and settings
  it was given; \<^term>\<open>None\<close> says the channel closed without one.
\<close>

record start_env =
  se_pair :: "(string, unit \<times> unit) result"
  se_reader :: "(string, unit) result"
  se_writer :: "(string, unit) result"
  se_spawn :: "(string, unit) result"
  se_now :: instant
  se_signal :: "(bridge_error, unit) result"
  se_thread :: "fiber_app \<Rightarrow> string option \<Rightarrow> (bridge_error, runtime_info) result option"

definition default_max_inflight_requests :: u64 where
  "default_max_inflight_requests = 1024"

definition start_app_retained ::
    "fiber_app \<Rightarrow> u64 \<Rightarrow> string option \<Rightarrow> start_env
       \<Rightarrow> (bridge_error, fiber_runtime_startup \<times> ('q, 'h, 'r) runtime) result" where
  "start_app_retained app max_inflight_requests settings_json env =
     (if max_inflight_requests = 0 then Inl (Startup ''max in-flight requests must be positive'')
      else
        and_then (map_sum Io id (se_pair env)) (\<lambda>_.
        and_then (map_sum Io id (se_reader env)) (\<lambda>_.
        and_then (map_sum Io id (se_writer env)) (\<lambda>_.
        and_then (map_sum Spawn id (se_spawn env)) (\<lambda>_.
          let readiness = unwrap_or (se_thread env app settings_json)
                (Inl (Startup ''fiber runtime exited before reporting readiness''));
              (info, startup_error) =
                (case readiness of Inr i \<Rightarrow> (Some i, None) | Inl e \<Rightarrow> (None, Some e))
          in Inr (\<lparr> su_runtime = \<lparr> fr_client = True, fr_info = info, fr_join = True \<rparr>, su_error = startup_error \<rparr>,
                  \<lparr> commands = [], receiver_alive = True, admission = new_budget max_inflight_requests, owed = [],
                    heartbeat = new_heartbeat (se_now env), signal_answer = se_signal env \<rparr>))))))"

definition into_parts :: "fiber_runtime_startup \<Rightarrow> fiber_runtime \<times> bridge_error option" where
  "into_parts su = (su_runtime su, su_error su)"

text \<open>A startup that failed forgets its runtime: neither the client nor the thread is dropped.\<close>

definition into_result :: "fiber_runtime_startup \<Rightarrow> (bridge_error, fiber_runtime) result" where
  "into_result su = (case su_error su of Some e \<Rightarrow> Inl e | None \<Rightarrow> Inr (su_runtime su))"

definition with_into_result ::
    "(bridge_error, fiber_runtime_startup \<times> 'w) result \<Rightarrow> (bridge_error, fiber_runtime \<times> 'w) result" where
  "with_into_result started =
     and_then started (\<lambda>(su, w). and_then (into_result su) (\<lambda>fr. Inr (fr, w)))"

definition start_with_limit ::
    "string \<Rightarrow> u64 \<Rightarrow> start_env \<Rightarrow> (bridge_error, fiber_runtime \<times> ('q, 'h, 'r) runtime) result" where
  "start_with_limit app_source max_inflight_requests env =
     with_into_result (start_app_retained (App_source app_source) max_inflight_requests None env)"

definition start_source :: "string \<Rightarrow> start_env \<Rightarrow> (bridge_error, fiber_runtime \<times> ('q, 'h, 'r) runtime) result" where
  "start_source app_source env = start_with_limit app_source default_max_inflight_requests env"

text \<open>The file system, as far as a rackup path needs it; paths are bytes.\<close>

record file_system =
  canonicalize :: "bytes \<Rightarrow> (string, bytes) result"
  is_file :: "bytes \<Rightarrow> bool"
  current_dir :: "bytes option"

definition start_rackup_with_limit_retained ::
    "file_system \<Rightarrow> bytes \<Rightarrow> u64 \<Rightarrow> string option \<Rightarrow> start_env
       \<Rightarrow> (bridge_error, fiber_runtime_startup \<times> ('q, 'h, 'r) runtime) result" where
  "start_rackup_with_limit_retained fs path max_inflight_requests settings_json env =
     and_then (map_sum (\<lambda>error. Startup (''failed to resolve rackup '' @ from_utf8_lossy path @ '': '' @ error)) id
                (canonicalize fs path)) (\<lambda>rackup.
       if \<not> is_file fs rackup then Inl (Startup (''rackup is not a file: '' @ from_utf8_lossy rackup))
       else start_app_retained (App_rackup rackup) max_inflight_requests settings_json env)"

definition start_rackup_with_limit ::
    "file_system \<Rightarrow> bytes \<Rightarrow> u64 \<Rightarrow> start_env \<Rightarrow> (bridge_error, fiber_runtime \<times> ('q, 'h, 'r) runtime) result" where
  "start_rackup_with_limit fs path max_inflight_requests env =
     with_into_result (start_rackup_with_limit_retained fs path max_inflight_requests None env)"

definition start_rackup ::
    "file_system \<Rightarrow> bytes \<Rightarrow> start_env \<Rightarrow> (bridge_error, fiber_runtime \<times> ('q, 'h, 'r) runtime) result" where
  "start_rackup fs path env = start_rackup_with_limit fs path default_max_inflight_requests env"

section \<open>Stopping\<close>

text \<open>\<open>received\<close> is what arrives on the reply channel in time, \<open>joined\<close> what the thread ended with.\<close>

definition shutdown_inner ::
    "reply \<Rightarrow> (recv_timeout_error, unit) result \<Rightarrow> (panic_payload, (bridge_error, unit) result) result
       \<Rightarrow> fiber_runtime \<Rightarrow> ('q, 'h, 'r) runtime
       \<Rightarrow> (bridge_error, unit) result \<times> fiber_runtime \<times> ('q, 'h, 'r) runtime" where
  "shutdown_inner reply received joined fr rt =
     (let (shutdown_result, rt1) =
            (if fr_client fr then request_shutdown reply received rt else (Inr (), rt));
          fr1 = fr\<lparr>fr_client := False, fr_join := False\<rparr>
      in case shutdown_result of
           Inl e \<Rightarrow> (Inl e, fr1, rt1)
         | Inr _ \<Rightarrow>
             if fr_join fr
             then (case joined of
                     Inl payload \<Rightarrow> (Inl (RuntimePanicked (panic_message payload)), fr1, rt1)
                   | Inr result \<Rightarrow> (result, fr1, rt1))
             else (Inr (), fr1, rt1))"

text \<open>
  Dropping a runtime that was not shut down takes both handles and forgets them:
  the channel is not closed and the thread is not detached.
\<close>

definition drop_fiber_runtime :: "fiber_runtime \<Rightarrow> fiber_runtime" where
  "drop_fiber_runtime fr = fr\<lparr>fr_client := False, fr_join := False\<rparr>"

text \<open>
  The client and the identity of the VM; asking for one that is not there is a panic:
  \<^term>\<open>None\<close>.  The two ways of stopping differ in how long they wait.
\<close>

definition fiber_runtime_client :: "fiber_runtime \<Rightarrow> unit option" where
  "fiber_runtime_client fr = (if fr_client fr then Some () else None)"

definition fiber_runtime_info :: "fiber_runtime \<Rightarrow> runtime_info option" where
  "fiber_runtime_info fr = fr_info fr"

definition shutdown_with_timeout ::
    "reply \<Rightarrow> (duration \<Rightarrow> (recv_timeout_error, unit) result) \<Rightarrow> (panic_payload, (bridge_error, unit) result) result
       \<Rightarrow> duration \<Rightarrow> fiber_runtime \<Rightarrow> ('q, 'h, 'r) runtime
       \<Rightarrow> (bridge_error, unit) result \<times> fiber_runtime \<times> ('q, 'h, 'r) runtime" where
  "shutdown_with_timeout reply received joined timeout fr rt = shutdown_inner reply (received timeout) joined fr rt"

definition DEFAULT_RESPONSE_TIMEOUT :: duration where
  "DEFAULT_RESPONSE_TIMEOUT = 10 * 1000000000"

definition fiber_runtime_shutdown ::
    "reply \<Rightarrow> (duration \<Rightarrow> (recv_timeout_error, unit) result) \<Rightarrow> (panic_payload, (bridge_error, unit) result) result
       \<Rightarrow> fiber_runtime \<Rightarrow> ('q, 'h, 'r) runtime
       \<Rightarrow> (bridge_error, unit) result \<times> fiber_runtime \<times> ('q, 'h, 'r) runtime" where
  "fiber_runtime_shutdown reply received joined fr rt =
     shutdown_inner reply (received DEFAULT_RESPONSE_TIMEOUT) joined fr rt"

text \<open>A runtime that started can be asked for both; one that was stopped has no client left.\<close>

lemma started_runtime_answers:
  "with_into_result (start_app_retained app limit settings_json env) = Inr (fr, rt) \<Longrightarrow>
     fiber_runtime_client fr \<noteq> None \<and> fiber_runtime_info fr \<noteq> None"
  by (auto simp: with_into_result_def into_result_def start_app_retained_def fiber_runtime_client_def
      fiber_runtime_info_def result_simps Let_def split: if_splits sum.splits option.splits)

lemma stopped_runtime_has_no_client:
  "shutdown_inner reply received joined fr rt = (r, fr1, rt1) \<Longrightarrow> fiber_runtime_client fr1 = None"
  by (auto simp: shutdown_inner_def fiber_runtime_client_def Let_def split: prod.splits sum.splits if_splits)

section \<open>What the failed runtime's loop does\<close>

lemma drop_command_simps [simp]:
  "drop_command (Cmd_call call) adm = snd (drop_lease (fc_permit call) adm)"
  "drop_command (Cmd_admin request reply) adm = adm"
  "drop_command Cmd_drain adm = adm"
  "drop_command (Cmd_shutdown reply) adm = adm"
  by (simp_all add: drop_command_def)

abbreviation before_shutdown :: "('q, 'h) fiber_command list \<Rightarrow> ('q, 'h) fiber_command list" where
  "before_shutdown cs \<equiv> takeWhile (\<lambda>c. \<not> is_shutdown c) cs"

lemma retain_settled_mono:
  "cancelled (rf_streams w h) \<or> ended (rf_streams w h) \<Longrightarrow>
   cancelled (rf_streams (snd (retain_failed_runtime e senders cs w)) h) \<or>
   ended (rf_streams (snd (retain_failed_runtime e senders cs w)) h)"
proof (induction e senders cs w rule: retain_failed_runtime.induct)
  case (2 e senders call cs w)
  then show ?case
    using push_failure_settles [of e] by simp
qed simp_all

lemma retain_settles:
  "call \<in> set (calls_of (before_shutdown cs)) \<Longrightarrow>
   cancelled (rf_streams (snd (retain_failed_runtime e senders cs w)) (fc_handle call)) \<or>
   ended (rf_streams (snd (retain_failed_runtime e senders cs w)) (fc_handle call))"
proof (induction e senders cs w rule: retain_failed_runtime.induct)
  case (2 e senders c cs w)
  show ?case
  proof (cases "call = c")
    case True
    show ?thesis
      unfolding True retain_failed_runtime.simps by (rule retain_settled_mono) (simp add: push_failure_settles)
  next
    case False
    then show ?thesis
      using 2 by simp
  qed
qed simp_all

lemma retain_wakes:
  "rf_wakes (snd (retain_failed_runtime e senders cs w)) =
   rf_wakes w @ map fc_handle (calls_of (before_shutdown cs))"
  by (induction e senders cs w rule: retain_failed_runtime.induct) simp_all

lemma retain_admin:
  "rf_admin (snd (retain_failed_runtime e senders cs w)) =
   rf_admin w @ map (\<lambda>(_, reply). (reply, 503, display_error e @ [CHR 0x0A])) (admins_of (before_shutdown cs))"
  by (induction e senders cs w rule: retain_failed_runtime.induct) simp_all

lemma retain_permits:
  "rf_admission (snd (retain_failed_runtime e senders cs w)) = fold drop_command cs (rf_admission w)"
  by (induction e senders cs w rule: retain_failed_runtime.induct) simp_all

lemma retain_returns:
  "fst (retain_failed_runtime e senders cs w) = Retain_returned \<longleftrightarrow> list_ex is_shutdown cs"
  by (induction e senders cs w rule: retain_failed_runtime.induct) simp_all

lemmas retain_facts = retain_settles retain_wakes retain_admin retain_permits retain_returns

section \<open>Properties\<close>


text \<open>
  The owner thread reports readiness to a waiting starter exactly once, with
  the VM's identity if and only if preparing succeeded.  It tears the VM down only
  after the reactor returned, or after a runtime that failed to load was told to
  stop, and it keeps a failed VM until then.
\<close>

theorem owner_thread_lifecycle:
  assumes "fiber_runtime_main vm thread reactor True app settings_json senders cs s w = (out, w1)"
  shows "mo_readiness out =
      [map_sum halt_error pf_info (fst (prepare_fiber_runtime vm thread app settings_json s))] \<and>
    (mo_vm out = Vm_held \<longleftrightarrow> mo_result out = None) \<and>
    (mo_vm out = Vm_cleaned \<longleftrightarrow>
      (if isl (fst (prepare_fiber_runtime vm thread app settings_json s)) then list_ex is_shutdown cs
       else mo_result out = Some (Inr ())))"
proof (cases "prepare_fiber_runtime vm thread app settings_json s")
  case (Pair r s1)
  then show ?thesis
  proof (cases r)
    case (Inl h)
    then show ?thesis
      using assms Pair retain_returns [of "halt_error h" senders cs w]
      by (auto simp: fiber_runtime_main_def Let_def split: prod.splits)
  next
    case (Inr prep)
    then show ?thesis
      using assms Pair by (auto simp: fiber_runtime_main_def split: prod.splits vm_answer.splits)
  qed
qed

text \<open>A VM that answers everything but evaluations, and commands for a runtime on it.\<close>

definition silent_vm :: "(unit, unit) vm" where
  "silent_vm = \<lparr> vm_ask = \<lambda>s c. (case c of Eval t \<Rightarrow> (Raised ''no'', s) | _ \<Rightarrow> (Answered (), s)),
     vm_string = \<lambda>_. Inr ''ruby'', vm_i64 = \<lambda>_. Inr 8 \<rparr>"

definition sample_commands :: "(unit, nat) fiber_command list" where
  "sample_commands =
     [Cmd_call \<lparr> fc_request = (), fc_handle = 3, fc_permit = \<lparr> held = 1 \<rparr> \<rparr>,
      Cmd_admin \<lparr> adm_method = ''GET'', adm_path = ''/ruvoy'', adm_body = [], adm_inflight = 1 \<rparr> 7,
      Cmd_shutdown 9]"

definition sample_retained :: "nat retained" where
  "sample_retained = \<lparr> rf_streams = (\<lambda>_. new_stream 8), rf_wakes = [], rf_admin = [], rf_acks = [],
     rf_admission = \<lparr> used = 1, capacity = 4 \<rparr> \<rparr>"

lemma silent_startup:
  "prepare_fiber_runtime silent_vm ''t'' app settings () =
     (Inl (Halt_error (ruby_error ''setting the default encoding'' ''no'')), ())"
  by (simp add: prepare_fiber_runtime_def set_source_encoding_def vm_seq_def vm_then_def ask_def silent_vm_def)


theorem owner_thread_lifecycle_witness:
  "mo_vm (fst (fiber_runtime_main silent_vm ''t'' (\<lambda>_ s. (Answered (), s)) True (App_source ''x'') None True
      sample_commands () sample_retained)) = Vm_cleaned"
proof -
  have "isl (fst (prepare_fiber_runtime silent_vm ''t'' (App_source ''x'') None ()))"
    by (simp add: silent_startup)
  moreover have "list_ex is_shutdown sample_commands"
    by (simp add: sample_commands_def)
  ultimately show ?thesis
    using owner_thread_lifecycle [of silent_vm "''t''" "\<lambda>_ s. (Answered (), s)" "App_source ''x''" None True
        sample_commands "()" sample_retained]
    by (metis prod.collapse)
qed

text \<open>
  Starting from a rackup reports what the owner thread found: a start that
  returns a runtime resolved the path to a file and was given a positive limit,
  which its empty admission budget enforces; the runtime carries the VM's identity
  exactly when the application was prepared, and otherwise the error that
  stopped it.
\<close>

theorem startup_reports_the_loading:
  assumes "start_rackup_with_limit_retained fs path limit settings_json
      (env\<lparr>se_thread := \<lambda>app settings. Some (map_sum halt_error pf_info (fst (prepare_fiber_runtime vm thread app settings s)))\<rparr>)
    = Inr (su, rt)"
  shows "\<exists>rackup. canonicalize fs path = Inr rackup \<and> is_file fs rackup \<and> limit \<noteq> 0 \<and> admission rt = new_budget limit \<and>
    commands rt = [] \<and>
    (case prepare_fiber_runtime vm thread (App_rackup rackup) settings_json s of
       (Inl h, _) \<Rightarrow> into_result su = Inl (halt_error h) \<and> fr_info (fst (into_parts su)) = None
     | (Inr prep, _) \<Rightarrow> into_result su = Inr (fst (into_parts su)) \<and> fr_info (fst (into_parts su)) = Some (pf_info prep))"
proof -
  obtain rackup where path: "canonicalize fs path = Inr rackup" "is_file fs rackup"
    and start: "start_app_retained (App_rackup rackup) limit settings_json
      (env\<lparr>se_thread := \<lambda>app settings. Some (map_sum halt_error pf_info (fst (prepare_fiber_runtime vm thread app settings s)))\<rparr>)
      = Inr (su, rt)"
    using assms
    by (auto simp: start_rackup_with_limit_retained_def result_simps split: if_splits)
  obtain r s1 where prep: "prepare_fiber_runtime vm thread (App_rackup rackup) settings_json s = (r, s1)"
    by fastforce
  show ?thesis
    using path start prep
    by (cases r) (auto simp: start_app_retained_def result_simps into_result_def into_parts_def split: if_splits)
qed

definition sample_fs :: file_system where
  "sample_fs = \<lparr> canonicalize = Inr, is_file = (\<lambda>_. True), current_dir = None \<rparr>"

definition sample_start :: start_env where
  "sample_start = \<lparr> se_pair = Inr ((), ()), se_reader = Inr (), se_writer = Inr (), se_spawn = Inr (), se_now = 0,
     se_signal = Inr (),
     se_thread = \<lambda>app settings. Some (map_sum halt_error pf_info (fst (prepare_fiber_runtime silent_vm ''t'' app settings ()))) \<rparr>"

theorem startup_reports_the_loading_witness:
  "\<exists>su rt. start_rackup_with_limit_retained sample_fs ''/a'' 2 None sample_start = Inr (su, rt :: (unit, nat, nat) runtime) \<and>
     admission rt = new_budget 2 \<and> into_result su = Inl (ruby_error ''setting the default encoding'' ''no'')"
proof -
  obtain su and rt :: "(unit, nat, nat) runtime"
    where start: "start_rackup_with_limit_retained sample_fs ''/a'' 2 None sample_start = Inr (su, rt)"
    by (simp add: start_rackup_with_limit_retained_def start_app_retained_def sample_fs_def sample_start_def silent_startup)
  moreover have "sample_start = sample_start\<lparr>se_thread := \<lambda>app settings.
      Some (map_sum halt_error pf_info (fst (prepare_fiber_runtime silent_vm ''t'' app settings ())))\<rparr>"
    by (simp add: sample_start_def)
  ultimately show ?thesis
    using startup_reports_the_loading [of sample_fs "''/a''" 2 None silent_vm "''t''" "()" sample_start su rt]
    by (auto simp: silent_startup halt_error_def)
qed

text \<open>
  The application that failed to load is acknowledged and cleaned up in order,
  and its shutdown still returns the load error, because that is the thread's
  result.
\<close>

lemma failed_startup_fails_its_shutdown:
  assumes "fiber_runtime_main vm thread reactor True app settings_json senders cs s w = (out, w1)"
    and "mo_readiness out = [Inl e]" and "mo_result out = Some result"
    and "fr_client fr" and "fr_join fr" and "receiver_alive rt" and "signal_answer rt = Inr ()"
  shows "fst (shutdown_inner reply (Inr ()) (Inr result) fr rt) = Inl e \<and> mo_vm out = Vm_cleaned"
proof -
  obtain h s1 where h: "prepare_fiber_runtime vm thread app settings_json s = (Inl h, s1)"
    using assms(1,2) by (auto simp: fiber_runtime_main_def Let_def split: prod.splits sum.splits)
  then have "result = Inl e" "mo_vm out = Vm_cleaned"
    using assms(1-3) by (auto simp: fiber_runtime_main_def Let_def split: prod.splits if_splits)
  then show ?thesis
    using assms(4-) by (simp add: shutdown_inner_def request_shutdown_def send_and_wake_def)
qed

end
