(* ===== verification/Runtime_Settings.thy ===== *)
theory Runtime_Settings
  imports Fiber_Runtime Upstream_Route
begin

text \<open>
  The configuration of the two extensions
  (src/crates/ruvoy-envoy-fiber/src/runtime.rs): reading it, its defaults, the
  settings refused because nothing could be served under them, and resolving the
  rackup.

  The JSON parser and printer are the serde crates and so parameters.  Parsing
  yields the fields of the struct, each absent or present; a text that is not such
  an object, or has an unknown field, is an error with its text.
\<close>

section \<open>The bootstrap extension's settings\<close>

definition default_shutdown_timeout_ms :: u64 where
  "default_shutdown_timeout_ms = 10000"

definition default_timeout_ms :: u64 where
  "default_timeout_ms = 15000"

definition default_max_response_bytes :: u64 where
  "default_max_response_bytes = 1024 * 1024"

definition default_stream_buffer_bytes :: u64 where
  "default_stream_buffer_bytes = 1024 * 1024"

record raw_settings =
  raw_rackup :: string
  raw_max_inflight :: "u64 option"
  raw_shutdown_timeout :: "u64 option"
  raw_diagnostics :: "bool option"

record runtime_settings =
  rs_rackup :: string
  rs_max_inflight_requests :: u64
  rs_shutdown_timeout_ms :: u64
  rs_diagnostics :: bool

definition settings_of_raw :: "raw_settings \<Rightarrow> runtime_settings" where
  "settings_of_raw raw =
     \<lparr> rs_rackup = raw_rackup raw,
       rs_max_inflight_requests = unwrap_or (raw_max_inflight raw) default_max_inflight_requests,
       rs_shutdown_timeout_ms = unwrap_or (raw_shutdown_timeout raw) default_shutdown_timeout_ms,
       rs_diagnostics = unwrap_or (raw_diagnostics raw) False \<rparr>"

type_synonym 'a json_reader = "string \<Rightarrow> (string, 'a) result"

definition parse_settings :: "raw_settings json_reader \<Rightarrow> bytes \<Rightarrow> (bridge_error, runtime_settings) result" where
  "parse_settings from_json config =
     (if \<not> valid_utf8 config
      then Inl (Startup ''bootstrap extension configuration must contain valid UTF-8'')
      else
        let body = trim config
        in if body = [] then Inl (Startup ''bootstrap extension configuration must name a rackup file'')
           else
             and_then (map_sum (\<lambda>error. Startup (''invalid bootstrap extension configuration: '' @ error))
                        settings_of_raw (from_json body)) (\<lambda>settings.
               if rs_rackup settings = [] then Inl (Startup ''rackup must not be empty'')
               else if rs_max_inflight_requests settings = 0
                 then Inl (Startup ''max_inflight_requests must be a positive integer'')
               else if rs_shutdown_timeout_ms settings = 0
                 then Inl (Startup ''shutdown_timeout_ms must be a positive integer'')
               else Inr settings))"

section \<open>The filter's configuration\<close>

record raw_upstream =
  ru_clusters :: "string list"
  ru_timeout_ms :: "u64 option"
  ru_max_response_bytes :: "u64 option"
  ru_stream_buffer_bytes :: "u64 option"

record upstream_config =
  uc_clusters :: "string list"
  uc_timeout_ms :: u64
  uc_max_response_bytes :: u64
  uc_stream_buffer_bytes :: u64

definition upstream_of_raw :: "raw_upstream \<Rightarrow> upstream_config" where
  "upstream_of_raw raw =
     \<lparr> uc_clusters = ru_clusters raw,
       uc_timeout_ms = unwrap_or (ru_timeout_ms raw) default_timeout_ms,
       uc_max_response_bytes = unwrap_or (ru_max_response_bytes raw) default_max_response_bytes,
       uc_stream_buffer_bytes = unwrap_or (ru_stream_buffer_bytes raw) default_stream_buffer_bytes \<rparr>"

text \<open>\<open>rackup\<close> is accepted only to say where it belongs now, so all that matters is its presence.\<close>

record raw_filter =
  rf_rackup :: bool
  rf_context :: "string list option"
  rf_upstream :: "raw_upstream option"

record filter_config =
  fc_rackup :: bool
  fc_context :: "string list option"
  fc_upstream :: "upstream_config option"

definition default_filter_config :: filter_config where
  "default_filter_config = \<lparr> fc_rackup = False, fc_context = None, fc_upstream = None \<rparr>"

definition filter_of_raw :: "raw_filter \<Rightarrow> filter_config" where
  "filter_of_raw raw =
     \<lparr> fc_rackup = rf_rackup raw, fc_context = rf_context raw,
       fc_upstream = map_option upstream_of_raw (rf_upstream raw) \<rparr>"

definition moved :: bridge_error where
  "moved = Startup (''the rackup is configured on the ruvoy bootstrap extension, not on the filter; '' @
     ''the filter configuration is a JSON object with optional context and upstream'')"

definition parse_filter_config :: "raw_filter json_reader \<Rightarrow> bytes \<Rightarrow> (bridge_error, filter_config) result" where
  "parse_filter_config from_json config =
     (if \<not> valid_utf8 config then Inl (Startup ''filter configuration must contain valid UTF-8'')
      else
        let body = trim config
        in if body = [] then Inr default_filter_config
           else if \<not> starts_with body [CHR 0x7B] then Inl moved
           else
             and_then (map_sum (\<lambda>error. Startup (''invalid filter configuration: '' @ error))
                        filter_of_raw (from_json body)) (\<lambda>c.
               if fc_rackup c then Inl moved else Inr c))"

definition from_millis :: "u64 \<Rightarrow> duration" where
  "from_millis ms = unat ms * 1000000"

definition invalid_filter :: "string \<Rightarrow> (bridge_error, 'a) result" where
  "invalid_filter message = Inl (Startup (''invalid filter configuration: '' @ message))"

definition into_settings :: "upstream_config \<Rightarrow> (bridge_error, upstream_settings) result" where
  "into_settings c =
     (if uc_clusters c = [] then invalid_filter ''upstream.clusters must name at least one cluster''
      else if list_ex (\<lambda>name. name = []) (uc_clusters c)
        then invalid_filter ''upstream.clusters must not contain an empty name''
      else if uc_timeout_ms c = 0 then invalid_filter ''upstream.timeout_ms must be positive''
      else if uc_max_response_bytes c = 0 then invalid_filter ''upstream.max_response_bytes must be positive''
      else if uc_stream_buffer_bytes c = 0 then invalid_filter ''upstream.stream_buffer_bytes must be positive''
      else Inr \<lparr> clusters = uc_clusters c, call_timeout = from_millis (uc_timeout_ms c),
                 max_response_bytes = unat (uc_max_response_bytes c),
                 stream_buffer_bytes = unat (uc_stream_buffer_bytes c) \<rparr>)"

section \<open>The configuration a process runs under\<close>

record process_config =
  pc_rackup :: bytes
  pc_max_inflight_requests :: u64
  pc_shutdown_timeout :: duration
  pc_diagnostics_enabled :: bool

definition canonical_rackup :: "file_system \<Rightarrow> bytes \<Rightarrow> (bridge_error, bytes) result" where
  "canonical_rackup fs path =
     and_then (map_sum (\<lambda>error. Startup (''failed to resolve rackup '' @ from_utf8_lossy path @ '' from working directory '' @
                  (case current_dir fs of Some directory \<Rightarrow> from_utf8_lossy directory | None \<Rightarrow> ''<unknown>'') @ '': '' @ error))
                id (canonicalize fs path)) (\<lambda>rackup.
       if \<not> is_file fs rackup then Inl (Startup (''rackup is not a file: '' @ from_utf8_lossy rackup))
       else Inr rackup)"

definition new_process_config :: "file_system \<Rightarrow> runtime_settings \<Rightarrow> (bridge_error, process_config) result" where
  "new_process_config fs settings =
     and_then (canonical_rackup fs (rs_rackup settings)) (\<lambda>rackup.
       Inr \<lparr> pc_rackup = rackup, pc_max_inflight_requests = rs_max_inflight_requests settings,
             pc_shutdown_timeout = from_millis (rs_shutdown_timeout_ms settings),
             pc_diagnostics_enabled = rs_diagnostics settings \<rparr>)"

text \<open>The settings the application sees; \<open>to_json\<close> prints an object and \<open>version\<close> is the package's.\<close>

datatype json_value = J_string string | J_number u64 | J_bool bool

definition ruby_settings_json ::
    "((string \<times> json_value) list \<Rightarrow> string) \<Rightarrow> string \<Rightarrow> process_config \<Rightarrow> string" where
  "ruby_settings_json to_json version c =
     to_json [(''version'', J_string version),
       (''rackup'', J_string (from_utf8_lossy (pc_rackup c))),
       (''max_inflight_requests'', J_number (pc_max_inflight_requests c)),
       (''shutdown_timeout_ms'', J_number (word_of_nat (pc_shutdown_timeout c div 1000000))),
       (''diagnostics'', J_bool (pc_diagnostics_enabled c))]"

section \<open>Facts about the settings\<close>

lemma from_millis_round_trip [simp]: "word_of_nat (from_millis ms div 1000000) = ms"
  by (simp add: from_millis_def)

lemma from_millis_pos: "ms \<noteq> 0 \<Longrightarrow> 0 < from_millis ms"
  by (simp add: from_millis_def unat_gt_0)

lemma into_settings_Inr:
  assumes "into_settings c = Inr u"
  shows "clusters u \<noteq> []" "[] \<notin> set (clusters u)" "0 < call_timeout u" "0 < max_response_bytes u" "0 < stream_buffer_bytes u"
  using assms
  by (auto simp: into_settings_def invalid_filter_def from_millis_pos unat_gt_0 list_ex_iff split: if_splits)

lemma parse_settings_Inr:
  assumes "parse_settings from_json config = Inr settings"
  shows "\<exists>raw. valid_utf8 config \<and> trim config \<noteq> [] \<and> from_json (trim config) = Inr raw \<and> settings = settings_of_raw raw"
    and "rs_rackup settings \<noteq> [] \<and> rs_max_inflight_requests settings \<noteq> 0 \<and> rs_shutdown_timeout_ms settings \<noteq> 0"
  using assms by (cases "from_json (trim config)"; auto simp: parse_settings_def Let_def split: if_splits)+

end
