(* ===== verification/Process_Runtime.thy ===== *)
theory Process_Runtime
  imports Runtime_Settings Envoy_Host
begin

text \<open>
  The one runtime of a process (src/crates/ruvoy-envoy-fiber/src/runtime.rs) and
  the extensions that own it and join it (src/crates/ruvoy-envoy-fiber/src/bootstrap.rs,
  src/crates/ruvoy-envoy-fiber/src/lib.rs): the two write-once statics, starting or
  joining the runtime, handing it to filters, stopping it, the gauges, the admin
  interface and the drain notification.

  The two statics and the state behind every client are one record.  What the
  operating system, the VM and the JSON crates answer comes in with the operation
  that asks.
\<close>

section \<open>State\<close>

text \<open>What a ready runtime hands to a filter, besides the client.\<close>

record ready =
  rd_runtime_thread_id :: string
  rd_diagnostics_enabled :: bool

record process_runtime =
  pr_config :: process_config
  pr_runtime :: "fiber_runtime option"
  pr_ready :: "(bridge_error, ready) result"

text \<open>
  \<open>PROCESS_RUNTIME\<close> and \<open>PROCESS_SHUTDOWN_HOOK\<close>, the shared state of the clients
  once a runtime exists, how often a VM was started, and how often one was asked
  to stop.
\<close>

record ('q, 'h, 'r) process =
  ps_runtime :: "(bridge_error, process_runtime) result option"
  ps_shutdown_hook :: "(bridge_error, unit) result option"
  ps_shared :: "('q, 'h, 'r) runtime option"
  ps_started :: nat
  ps_stopped :: nat

definition fresh_process :: "('q, 'h, 'r) process" where
  "fresh_process = \<lparr> ps_runtime = None, ps_shutdown_hook = None, ps_shared = None, ps_started = 0, ps_stopped = 0 \<rparr>"

text \<open>What the outside answers while a runtime starts.\<close>

record process_env =
  pe_fs :: file_system
  pe_start :: start_env
  pe_to_json :: "(string \<times> json_value) list \<Rightarrow> string"
  pe_version :: string
  pe_atexit :: int

section \<open>Starting\<close>

definition terminal_startup_failure :: "bridge_error \<Rightarrow> bridge_error" where
  "terminal_startup_failure error =
     Startup (display_error error @
       ''. The Ruby VM is created once per process, so Envoy must be restarted after fixing this.'')"

text \<open>
  The identity of a runtime is asked for only after a startup without an error;
  asking without one is a panic, here a value of its own.
\<close>

definition process_runtime_start ::
    "process_env \<Rightarrow> process_config
       \<Rightarrow> (bridge_error, process_runtime \<times> ('q, 'h, 'r) runtime) result" where
  "process_runtime_start pe config =
     and_then (start_rackup_with_limit_retained (pe_fs pe) (pc_rackup config) (pc_max_inflight_requests config)
                (Some (ruby_settings_json (pe_to_json pe) (pe_version pe) config)) (pe_start pe)) (\<lambda>(startup, shared).
       let (runtime, startup_error) = into_parts startup;
           ready =
             (case startup_error of
                Some error \<Rightarrow> Inl error
              | None \<Rightarrow>
                  (case fr_info runtime of
                     None \<Rightarrow> Inl (RuntimePanicked ''fiber runtime info is only available after successful startup'')
                   | Some info \<Rightarrow>
                       Inr \<lparr> rd_runtime_thread_id = rust_thread_id info,
                             rd_diagnostics_enabled = pc_diagnostics_enabled config \<rparr>))
       in Inr (\<lparr> pr_config = config, pr_runtime = Some runtime, pr_ready = ready \<rparr>, shared))"

definition process_runtime_ready :: "process_runtime \<Rightarrow> (bridge_error, ready) result" where
  "process_runtime_ready pr = map_sum terminal_startup_failure id (pr_ready pr)"

definition ensure_compatible :: "process_runtime \<Rightarrow> process_config \<Rightarrow> (bridge_error, unit) result" where
  "ensure_compatible pr requested =
     (if pr_config pr = requested then Inr ()
      else Inl (Startup (''Ruvoy is already running with a different rackup; this process cannot serve a '' @
        ''second configuration. The Ruby VM is created once per process, so restart Envoy '' @
        ''to change it. active rackup='' @ from_utf8_lossy (pc_rackup (pr_config pr)) @
        '' requested rackup='' @ from_utf8_lossy (pc_rackup requested))))"

definition register_process_shutdown_hook ::
    "int \<Rightarrow> ('q, 'h, 'r) process \<Rightarrow> (bridge_error, unit) result \<times> ('q, 'h, 'r) process" where
  "register_process_shutdown_hook atexit p =
     (case ps_shutdown_hook p of
        Some r \<Rightarrow> (r, p)
      | None \<Rightarrow>
          let r = (if atexit = 0 then Inr ()
                   else Inl (Startup ''failed to register the Ruvoy process shutdown hook''))
          in (r, p\<lparr>ps_shutdown_hook := Some r\<rparr>))"

text \<open>\<open>get_or_init\<close> on the runtime's static: the start runs only when the cell is empty.\<close>

definition get_or_start ::
    "process_env \<Rightarrow> process_config \<Rightarrow> ('q, 'h, 'r) process
       \<Rightarrow> (bridge_error, process_runtime) result \<times> ('q, 'h, 'r) process" where
  "get_or_start pe requested p =
     (case ps_runtime p of
        Some r \<Rightarrow> (r, p)
      | None \<Rightarrow>
          let p1 = p\<lparr>ps_started := ps_started p + 1\<rparr>
          in case process_runtime_start pe requested of
               Inl e \<Rightarrow> (Inl e, p1\<lparr>ps_runtime := Some (Inl e)\<rparr>)
             | Inr (pr, shared) \<Rightarrow> (Inr pr, p1\<lparr>ps_runtime := Some (Inr pr), ps_shared := Some shared\<rparr>))"

definition process_start ::
    "process_env \<Rightarrow> runtime_settings \<Rightarrow> ('q, 'h, 'r) process
       \<Rightarrow> (bridge_error, ready) result \<times> ('q, 'h, 'r) process" where
  "process_start pe settings p =
     (case new_process_config (pe_fs pe) settings of
        Inl e \<Rightarrow> (Inl e, p)
      | Inr requested \<Rightarrow>
          (case register_process_shutdown_hook (pe_atexit pe) p of
             (Inl e, p1) \<Rightarrow> (Inl e, p1)
           | (Inr _, p1) \<Rightarrow>
               (case get_or_start pe requested p1 of
                  (Inl e, p2) \<Rightarrow> (Inl (terminal_startup_failure e), p2)
                | (Inr pr, p2) \<Rightarrow>
                    (and_then (ensure_compatible pr requested) (\<lambda>_. process_runtime_ready pr), p2))))"

definition process_ready :: "('q, 'h, 'r) process \<Rightarrow> (bridge_error, ready) result" where
  "process_ready p =
     (case ps_runtime p of
        None \<Rightarrow> Inl (Startup (''the Ruby runtime is not configured: add the ruvoy bootstrap extension under '' @
                            ''bootstrap_extensions, which names the rackup''))
      | Some (Inl error) \<Rightarrow> Inl (terminal_startup_failure error)
      | Some (Inr pr) \<Rightarrow> process_runtime_ready pr)"

section \<open>Stopping\<close>

text \<open>
  The runtime is taken out of its slot, so only the first call finds it.  The
  arguments are the reply channel, what arrives on it in time, and how the thread
  ended.
\<close>

definition process_shutdown ::
    "reply \<Rightarrow> (recv_timeout_error, unit) result \<Rightarrow> (panic_payload, (bridge_error, unit) result) result
       \<Rightarrow> ('q, 'h, 'r) process \<Rightarrow> (bridge_error, bool) result \<times> ('q, 'h, 'r) process" where
  "process_shutdown reply received joined p =
     (case (ps_runtime p, ps_shared p) of
        (Some (Inr pr), Some shared) \<Rightarrow>
          (case pr_runtime pr of
             None \<Rightarrow> (Inr False, p)
           | Some runtime \<Rightarrow>
               let (r, _, shared1) = shutdown_inner reply received joined runtime shared
               in (map_sum id (\<lambda>_. True) r,
                   p\<lparr>ps_runtime := Some (Inr (pr\<lparr>pr_runtime := None\<rparr>)), ps_shared := Some shared1,
                     ps_stopped := ps_stopped p + 1\<rparr>))
      | _ \<Rightarrow> (Inr False, p))"

text \<open>What is written to standard error, or to the log of Envoy, about a shutdown.\<close>

definition shutdown_message :: "(bridge_error, bool) result \<Rightarrow> string option" where
  "shutdown_message r =
     (case r of
        Inr True \<Rightarrow> Some ''[ruvoy] Fiber runtime stopped''
      | Inr False \<Rightarrow> None
      | Inl error \<Rightarrow> Some (''[ruvoy] Fiber runtime shutdown failed: '' @ display_error error))"

definition shutdown_process_runtime ::
    "reply \<Rightarrow> (recv_timeout_error, unit) result \<Rightarrow> (panic_payload, (bridge_error, unit) result) result
       \<Rightarrow> ('q, 'h, 'r) process \<Rightarrow> string option \<times> ('q, 'h, 'r) process" where
  "shutdown_process_runtime reply received joined p =
     (let (r, p1) = process_shutdown reply received joined p in (shutdown_message r, p1))"

section \<open>The filter's configuration\<close>

record fiber_rack_config =
  frc_ready :: ready
  frc_metrics :: "metrics option"
  frc_context :: "string list option"
  frc_upstream :: "upstream_settings option"

definition fiber_rack_start ::
    "raw_filter json_reader \<Rightarrow> bytes \<Rightarrow> metrics option \<Rightarrow> ('q, 'h, 'r) process
       \<Rightarrow> (bridge_error, fiber_rack_config) result" where
  "fiber_rack_start from_json filter_config metrics p =
     and_then (parse_filter_config from_json filter_config) (\<lambda>config.
     and_then (case fc_upstream config of None \<Rightarrow> Inr None | Some u \<Rightarrow> map_sum id Some (into_settings u)) (\<lambda>upstream.
     and_then (process_ready p) (\<lambda>ready.
       Inr \<lparr> frc_ready = ready, frc_metrics = metrics, frc_context = fc_context config, frc_upstream = upstream \<rparr>)))"

definition new_http_filter_config_fn ::
    "raw_filter json_reader \<Rightarrow> 'c definer \<Rightarrow> string \<Rightarrow> bytes \<Rightarrow> ('q, 'h, 'r) process \<Rightarrow> 'c
       \<Rightarrow> fiber_rack_config option \<times> 'c" where
  "new_http_filter_config_fn from_json define_one name config p c =
     (if name \<noteq> ''fiber_rack'' then (None, c)
      else
        let (metrics, c1) = define_metrics define_one c
        in case fiber_rack_start from_json config metrics p of
             Inr configured \<Rightarrow> (Some configured, c1)
           | Inl _ \<Rightarrow> (None, c1))"

section \<open>The life of a process\<close>

text \<open>
  The bootstrap extension may be configured any number of times, Envoy's shutdown
  stage and the exit hook may both ask to stop, and in between the clients change
  the state they share.
\<close>

datatype ('q, 'h, 'r) process_op =
    P_start process_env runtime_settings
  | P_shutdown reply "(recv_timeout_error, unit) result" "(panic_payload, (bridge_error, unit) result) result"
  | P_client "('q, 'h, 'r) runtime \<Rightarrow> ('q, 'h, 'r) runtime"

primrec process_act :: "('q, 'h, 'r) process_op \<Rightarrow> ('q, 'h, 'r) process \<Rightarrow> ('q, 'h, 'r) process" where
  "process_act (P_start pe settings) p = snd (process_start pe settings p)"
| "process_act (P_shutdown reply received joined) p = snd (process_shutdown reply received joined p)"
| "process_act (P_client f) p = p\<lparr>ps_shared := map_option f (ps_shared p)\<rparr>"

definition process_inv :: "('q, 'h, 'r) process \<Rightarrow> bool" where
  "process_inv p \<longleftrightarrow>
     (case ps_runtime p of
        None \<Rightarrow> ps_started p = 0 \<and> ps_stopped p = 0
      | Some (Inl e) \<Rightarrow> ps_started p = 1 \<and> ps_stopped p = 0
      | Some (Inr pr) \<Rightarrow> ps_started p = 1 \<and> ps_stopped p = (if pr_runtime pr = None then 1 else 0) \<and> ps_shared p \<noteq> None)"

named_theorems process_ops \<open>the definitions of the process operations\<close>

declare process_start_def [process_ops] register_process_shutdown_hook_def [process_ops]
  get_or_start_def [process_ops] process_shutdown_def [process_ops]
  Let_def [process_ops]

lemma process_runtime_start_Inr:
  "process_runtime_start pe config = Inr (pr, shared) \<Longrightarrow> pr_config pr = config \<and> pr_runtime pr \<noteq> None"
  by (auto simp: process_runtime_start_def into_parts_def and_then_Inr_iff split: prod.splits)

lemma register_keeps [simp]:
  "ps_runtime (snd (register_process_shutdown_hook a p)) = ps_runtime p"
  "ps_shared (snd (register_process_shutdown_hook a p)) = ps_shared p"
  "ps_started (snd (register_process_shutdown_hook a p)) = ps_started p"
  "ps_stopped (snd (register_process_shutdown_hook a p)) = ps_stopped p"
  by (simp_all add: register_process_shutdown_hook_def Let_def split: option.splits)

lemma process_start_cases:
  "snd (process_start pe settings p) = p \<or>
   snd (process_start pe settings p) = snd (register_process_shutdown_hook (pe_atexit pe) p) \<or>
   (\<exists>requested. snd (process_start pe settings p) =
      snd (get_or_start pe requested (snd (register_process_shutdown_hook (pe_atexit pe) p))))"
  by (simp add: process_start_def split: sum.splits prod.splits) (metis snd_conv)

lemma process_inv_get_or_start: "process_inv p \<Longrightarrow> process_inv (snd (get_or_start pe requested p))"
  by (auto simp: process_inv_def process_ops dest: process_runtime_start_Inr split: option.splits sum.splits prod.splits)

lemma process_inv_register: "process_inv p \<Longrightarrow> process_inv (snd (register_process_shutdown_hook a p))"
  by (auto simp: process_inv_def split: option.splits sum.splits)

lemma process_inv_shutdown: "process_inv p \<Longrightarrow> process_inv (snd (process_shutdown reply received joined p))"
  by (auto simp: process_inv_def process_shutdown_def Let_def split: option.splits sum.splits prod.splits)

interpretation process_wf: operation_invariant process_act process_inv
proof unfold_locales
  fix p :: "('q, 'h, 'r) process" and x
  assume inv: "process_inv p"
  show "process_inv (process_act x p)"
  proof (cases x)
    case (P_start pe settings)
    then show ?thesis
      using process_start_cases [of pe settings p] inv process_inv_get_or_start process_inv_register
      by (metis process_act.simps(1))
  next
    case (P_client f)
    then show ?thesis
      using inv by (auto simp: process_inv_def split: option.splits sum.splits)
  qed (simp add: process_inv_shutdown inv)
qed

text \<open>What \<open>PROCESS_RUNTIME\<close> was decided to be: the configuration and whether it is ready.\<close>

definition decided :: "('q, 'h, 'r) process \<Rightarrow> (bridge_error, process_config \<times> (bridge_error, ready) result) result option" where
  "decided p = map_option (map_sum id (\<lambda>pr. (pr_config pr, pr_ready pr))) (ps_runtime p)"

lemma map_sum_id_iff:
  "map_sum id f x = Inl e \<longleftrightarrow> x = Inl e"
  "map_sum id f x = Inr b \<longleftrightarrow> (\<exists>a. x = Inr a \<and> f a = b)"
  by (cases x; auto)+

lemma decided_Some [simp]:
  "decided p = Some (Inl e) \<longleftrightarrow> ps_runtime p = Some (Inl e)"
  "decided p = Some (Inr (c, r)) \<longleftrightarrow> (\<exists>pr. ps_runtime p = Some (Inr pr) \<and> pr_config pr = c \<and> pr_ready pr = r)"
  by (auto simp: decided_def map_sum_id_iff)

interpretation hook_cell: write_once process_act ps_shutdown_hook
proof unfold_locales
  fix p :: "('q, 'h, 'r) process" and v x
  assume "ps_shutdown_hook p = Some v"
  then show "ps_shutdown_hook (process_act x p) = Some v"
    by (cases x) (auto simp: process_ops split: option.splits sum.splits prod.splits)
qed

interpretation runtime_cell: write_once process_act decided
proof unfold_locales
  fix p :: "('q, 'h, 'r) process" and v x
  assume v: "decided p = Some v"
  show "decided (process_act x p) = Some v"
  proof (cases x)
    case (P_start pe settings)
    have "ps_runtime (snd (get_or_start pe requested q)) = ps_runtime q" if "ps_runtime q = ps_runtime p" for requested q
      using v that by (auto simp: decided_def get_or_start_def)
    then have "ps_runtime (process_act x p) = ps_runtime p"
      using process_start_cases [of pe settings p] unfolding P_start process_act.simps by (metis register_keeps(1))
    then show ?thesis
      using v by (simp add: decided_def)
  next
    case (P_shutdown reply received joined)
    then show ?thesis
      using v by (auto simp: decided_def process_shutdown_def Let_def split: option.splits sum.splits prod.splits)
  qed (use v in \<open>simp add: decided_def\<close>)
qed

section \<open>Properties\<close>

text \<open>
  C10. Whatever the extensions and the exit hook ask of a process, the Ruby VM is
  started at most once, a stop is sent at most once and only to a runtime that was
  started, and the outcome of registering the exit hook never changes.
\<close>

theorem vm_created_once:
  "ps_started (run process_act xs fresh_process) \<le> 1 \<and>
   ps_stopped (run process_act xs fresh_process) \<le> ps_started (run process_act xs fresh_process) \<and>
   (case ps_shutdown_hook (run process_act xs fresh_process) of
      None \<Rightarrow> True | Some r \<Rightarrow> ps_shutdown_hook (run process_act (xs @ ys) fresh_process) = Some r)"
proof -
  have "process_inv fresh_process"
    by (simp add: process_inv_def fresh_process_def)
  then have "process_inv (run process_act xs fresh_process)"
    by (rule process_wf.inv_run)
  then have "ps_started (run process_act xs fresh_process) \<le> 1"
    "ps_stopped (run process_act xs fresh_process) \<le> ps_started (run process_act xs fresh_process)"
    by (auto simp: process_inv_def split: option.splits sum.splits)
  then show ?thesis
    using hook_cell.cell_kept_run [of "run process_act xs fresh_process" _ ys] by (auto split: option.splits)
qed

text \<open>
  C30. The first startup is final: once it failed, with or without a VM left
  behind, every later filter is refused with that failure and the advice to
  restart, and no later configuration of the bootstrap extension succeeds.
\<close>

theorem failed_startup_is_final:
  assumes "ps_runtime p = Some (Inl e) \<or> (\<exists>pr. ps_runtime p = Some (Inr pr) \<and> pr_ready pr = Inl e)"
  shows "process_ready (run process_act xs p) = Inl (terminal_startup_failure e) \<and>
    (\<exists>e'. fst (process_start pe settings (run process_act xs p)) = Inl e')"
proof -
  let ?p = "run process_act xs p"
  have now: "ps_runtime ?p = Some (Inl e) \<or> (\<exists>pr. ps_runtime ?p = Some (Inr pr) \<and> pr_ready pr = Inl e)"
    using assms runtime_cell.cell_kept_run [of p _ xs] decided_Some by blast
  obtain hooked q where q: "register_process_shutdown_hook (pe_atexit pe) ?p = (hooked, q)"
    by fastforce
  then have "ps_runtime q = ps_runtime ?p"
    by (metis register_keeps(1) snd_conv)
  then have "isl (fst (process_start pe settings ?p))"
    using now q
    by (auto simp: process_start_def get_or_start_def process_runtime_ready_def ensure_compatible_def
        split: sum.splits prod.splits)
  then show ?thesis
    using now by (auto simp: process_ready_def process_runtime_ready_def isl_def)
qed

lemma process_start_joins:
  assumes "process_start pe settings p = (Inr rdy, p1)"
  obtains requested pr where "new_process_config (pe_fs pe) settings = Inr requested" "ps_runtime p1 = Some (Inr pr)"
    "pr_config pr = requested" "pr_ready pr = Inr rdy"
proof -
  obtain requested q pr where requested: "new_process_config (pe_fs pe) settings = Inr requested"
    and start: "get_or_start pe requested q = (Inr pr, p1)"
    and compatible: "and_then (ensure_compatible pr requested) (\<lambda>_. process_runtime_ready pr) = Inr rdy"
    using assms by (auto simp: process_start_def split: sum.splits prod.splits)
  moreover have "ps_runtime p1 = Some (Inr pr)"
    using start by (auto simp: get_or_start_def Let_def split: option.splits sum.splits prod.splits)
  moreover have "pr_config pr = requested" "pr_ready pr = Inr rdy"
    using compatible
    by (auto simp: ensure_compatible_def process_runtime_ready_def result_simps split: if_splits)
  ultimately show ?thesis
    using that by blast
qed

lemma process_start_ready: "process_start pe settings p = (Inr rdy, p1) \<Longrightarrow> process_ready p1 = Inr rdy"
  by (erule process_start_joins) (simp add: process_ready_def process_runtime_ready_def)

text \<open>
  C31. A bootstrap configuration that is accepted runs, or joins, a runtime under
  exactly the configuration it asked for, whose application has loaded; from then
  on every filter is handed that same runtime, whatever else happens.
\<close>

theorem joined_runtime_is_the_requested_one:
  assumes "process_start pe settings p = (Inr rdy, p1)"
  shows "(\<exists>requested pr. new_process_config (pe_fs pe) settings = Inr requested \<and> ps_runtime p1 = Some (Inr pr) \<and>
      pr_config pr = requested \<and> pr_ready pr = Inr rdy) \<and>
    process_ready (run process_act xs p1) = Inr rdy"
proof -
  obtain requested pr where joined: "new_process_config (pe_fs pe) settings = Inr requested" "ps_runtime p1 = Some (Inr pr)"
    "pr_config pr = requested" "pr_ready pr = Inr rdy"
    using assms by (rule process_start_joins)
  have "decided (run process_act xs p1) = Some (Inr (requested, Inr rdy))"
    using joined by (intro runtime_cell.cell_kept_run) simp
  then have "process_ready (run process_act xs p1) = Inr rdy"
    by (auto simp: process_ready_def process_runtime_ready_def)
  then show ?thesis
    using joined by blast
qed

text \<open>
  A filter is configured only on settings a call can succeed under: a
  runtime that is ready, at least one cluster and none without a name, and a
  positive timeout and positive buffers for upstream calls.
\<close>

theorem filter_settings_are_servable:
  assumes "fiber_rack_start from_json config metrics p = Inr configured"
  shows "process_ready p = Inr (frc_ready configured) \<and>
    (case frc_upstream configured of
       None \<Rightarrow> True
     | Some u \<Rightarrow> clusters u \<noteq> [] \<and> [] \<notin> set (clusters u) \<and> 0 < call_timeout u \<and> 0 < max_response_bytes u \<and>
         0 < stream_buffer_bytes u)"
proof -
  obtain parsed :: filter_config where "process_ready p = Inr (frc_ready configured)"
    and "(case fc_upstream parsed of None \<Rightarrow> Inr None | Some u \<Rightarrow> map_sum id Some (into_settings u)) =
      Inr (frc_upstream configured)"
    using assms unfolding fiber_rack_start_def and_then_Inr_iff by force
  then show ?thesis
    using into_settings_Inr by (auto simp: map_sum_id_iff split: option.splits)
qed

section \<open>A process to evaluate on\<close>

definition sample_process_env :: "(bridge_error, runtime_info) result \<Rightarrow> process_env" where
  "sample_process_env answer =
     \<lparr> pe_fs = sample_fs, pe_start = sample_start\<lparr>se_thread := \<lambda>_ _. Some answer\<rparr>,
       pe_to_json = \<lambda>_. [], pe_version = ''0'', pe_atexit = 0 \<rparr>"

definition sample_settings :: runtime_settings where
  "sample_settings = \<lparr> rs_rackup = ''/a'', rs_max_inflight_requests = 8, rs_shutdown_timeout_ms = 5, rs_diagnostics = False \<rparr>"

definition sample_info :: runtime_info where
  "sample_info = \<lparr> ruby_description = ''ruby'', rust_thread_id = ''ThreadId(2)'', ruby_thread_object_id = 8 \<rparr>"

lemmas sample_process_defs = sample_process_env_def sample_settings_def sample_info_def sample_fs_def sample_start_def
  fresh_process_def process_start_def new_process_config_def canonical_rackup_def register_process_shutdown_hook_def
  get_or_start_def process_runtime_start_def start_rackup_with_limit_retained_def start_app_retained_def into_parts_def
  ensure_compatible_def process_runtime_ready_def Let_def

lemma sample_process_started:
  "\<exists>p1. process_start (sample_process_env (Inr sample_info)) sample_settings (fresh_process :: (unit, nat, nat) process) =
     (Inr \<lparr> rd_runtime_thread_id = ''ThreadId(2)'', rd_diagnostics_enabled = False \<rparr>, p1)"
  by (simp add: sample_process_defs)

theorem failed_startup_is_final_witness:
  "\<exists>p. snd (process_start (sample_process_env (Inl Overloaded)) sample_settings (fresh_process :: (unit, nat, nat) process)) = p \<and>
     (\<exists>pr. ps_runtime p = Some (Inr pr) \<and> pr_ready pr = Inl Overloaded) \<and>
     process_ready (run process_act [P_shutdown 0 (Inr ()) (Inr (Inr ()))] p) = Inl (terminal_startup_failure Overloaded)"
proof -
  let ?p = "snd (process_start (sample_process_env (Inl Overloaded)) sample_settings (fresh_process :: (unit, nat, nat) process))"
  have "\<exists>pr. ps_runtime ?p = Some (Inr pr) \<and> pr_ready pr = Inl Overloaded"
    by (simp add: sample_process_defs)
  then show ?thesis
    using failed_startup_is_final [of ?p Overloaded "[P_shutdown 0 (Inr ()) (Inr (Inr ()))]"] by blast
qed

theorem joined_runtime_is_the_requested_one_witness:
  "\<exists>p1. process_start (sample_process_env (Inr sample_info)) sample_settings (fresh_process :: (unit, nat, nat) process) =
     (Inr \<lparr> rd_runtime_thread_id = ''ThreadId(2)'', rd_diagnostics_enabled = False \<rparr>, p1) \<and>
     process_ready (run process_act [P_start (sample_process_env (Inl Overloaded)) sample_settings] p1) =
       Inr \<lparr> rd_runtime_thread_id = ''ThreadId(2)'', rd_diagnostics_enabled = False \<rparr>"
  using sample_process_started joined_runtime_is_the_requested_one by blast

theorem filter_settings_are_servable_witness:
  "\<exists>p1 configured. fiber_rack_start (\<lambda>_. Inl ''unused'') [] None (p1 :: (unit, nat, nat) process) = Inr configured \<and>
     frc_ready configured = \<lparr> rd_runtime_thread_id = ''ThreadId(2)'', rd_diagnostics_enabled = False \<rparr>"
proof -
  obtain p1 :: "(unit, nat, nat) process"
    where "process_ready p1 = Inr \<lparr> rd_runtime_thread_id = ''ThreadId(2)'', rd_diagnostics_enabled = False \<rparr>"
    using sample_process_started process_start_ready by blast
  moreover have "\<exists>configured. fiber_rack_start (\<lambda>_. Inl ''unused'') [] None p1 = Inr configured"
    if "process_ready p1 = Inr rdy" for rdy
    using that by (simp add: fiber_rack_start_def parse_filter_config_def default_filter_config_def trim_def
        trim_start_def trim_end_def)
  ultimately show ?thesis
    using filter_settings_are_servable [of "\<lambda>_. Inl ''unused''" "[]" None p1] by fastforce
qed

end
