(* ===== verification/Bootstrap.thy ===== *)
theory Bootstrap
  imports Process_Runtime
begin

text \<open>
  The bootstrap extension (src/crates/ruvoy-envoy-fiber/src/bootstrap.rs): it starts
  the runtime before Envoy accepts traffic, publishes gauges once a second, answers
  the admin interface, tells the application that Envoy drains, and stops the
  runtime when Envoy exits.

  What the extension asks of Envoy is a value of \<open>boot_call\<close>; Envoy's answers are a
  function of an opaque state, and every call is also kept in a log.
\<close>

section \<open>Envoy as the extension sees it\<close>

datatype boot_call =
    New_timer
  | Enable_timer duration
  | Register_admin_handler string string bool bool
  | Define_gauge string
  | Set_gauge nat u64
  | Signal_init_complete

text \<open>An answer is an identity or a refusal; calls without an answer ignore it.\<close>

type_synonym 'b boot_envoy = "boot_call \<Rightarrow> 'b \<Rightarrow> nat option \<times> 'b"

record 'b boot_host =
  bh_env :: 'b
  bh_log :: "boot_call list"

definition boot :: "'b boot_envoy \<Rightarrow> boot_call \<Rightarrow> 'b boot_host \<Rightarrow> nat option \<times> 'b boot_host" where
  "boot envoy c h =
     (let (a, e) = envoy c (bh_env h) in (a, h\<lparr>bh_env := e, bh_log := bh_log h @ [c]\<rparr>))"

definition EXTENSION_NAME :: string where
  "EXTENSION_NAME = ''ruvoy''"

definition PUBLISH_INTERVAL :: duration where
  "PUBLISH_INTERVAL = 1000000000"

definition ADMIN_TIMEOUT :: duration where
  "ADMIN_TIMEOUT = 2000000000"

definition ADMIN_ENDPOINTS :: "(string \<times> string) list" where
  "ADMIN_ENDPOINTS =
     [(''/ruvoy'', ''The Ruby runtime: version, application, requests in flight''),
      (''/ruvoy/gc'', ''GC.stat; POST collects, and ?compact=1 compacts too''),
      (''/ruvoy/fibers'', ''Live fibers with their backtraces''),
      (''/ruvoy/config'', ''The runtime's settings'')]"

section \<open>Gauges\<close>

record gauges =
  g_inflight_requests :: nat
  g_reactor_idle_ms :: nat
  g_resident_bytes :: nat

text \<open>The first refused definition ends the attempt and the module runs without gauges.\<close>

definition define_gauges :: "'b boot_envoy \<Rightarrow> 'b boot_host \<Rightarrow> gauges option \<times> 'b boot_host" where
  "define_gauges envoy h =
     (case boot envoy (Define_gauge ''inflight_requests'') h of
        (None, h1) \<Rightarrow> (None, h1)
      | (Some inflight, h1) \<Rightarrow>
          (case boot envoy (Define_gauge ''reactor_idle_ms'') h1 of
             (None, h2) \<Rightarrow> (None, h2)
           | (Some idle, h2) \<Rightarrow>
               (case boot envoy (Define_gauge ''resident_bytes'') h2 of
                  (None, h3) \<Rightarrow> (None, h3)
                | (Some resident, h3) \<Rightarrow>
                    (Some \<lparr> g_inflight_requests = inflight, g_reactor_idle_ms = idle, g_resident_bytes = resident \<rparr>, h3))))"

text \<open>\<open>str::split_whitespace\<close>; every step removes a byte, so the length bounds the steps.\<close>

fun split_words :: "nat \<Rightarrow> string \<Rightarrow> string \<Rightarrow> string list" where
  "split_words 0 word s = (if word = [] then [] else [word])"
| "split_words (Suc n) word s =
     (case s of
        [] \<Rightarrow> if word = [] then [] else [word]
      | c # cs \<Rightarrow>
          let k = space_prefix white_space s
          in if k = 0 then split_words n (word @ [c]) cs
             else (if word = [] then [] else [word]) @ split_words n [] (drop k s))"

definition split_whitespace :: "string \<Rightarrow> string list" where
  "split_whitespace s = split_words (length s) [] s"

text \<open>
  \<open>statm\<close> is the text of the process's memory statistics when it could be read,
  \<open>page_size\<close> what the system says a page holds.  The product is taken modulo the
  width, as in a release build.
\<close>

definition resident_bytes :: "string option \<Rightarrow> int \<Rightarrow> u64 option" where
  "resident_bytes statm page_size =
     (case statm of
        None \<Rightarrow> None
      | Some t \<Rightarrow>
          (if length (split_whitespace t) < 2 then None
           else
             case parse_uint (2 ^ 64 - 1) (split_whitespace t ! 1) of
               None \<Rightarrow> None
             | Some pages \<Rightarrow>
                 if page_size < 0 then None else Some (word_of_nat pages * word_of_int page_size)))"

section \<open>The extension\<close>

text \<open>What a publication reads: the clock, the memory statistics and the page size.\<close>

record sample =
  s_now :: instant
  s_statm :: "string option"
  s_page_size :: int

definition publish ::
    "'b boot_envoy \<Rightarrow> sample \<Rightarrow> gauges option \<Rightarrow> ('q, 'h, 'r) runtime \<Rightarrow> 'b boot_host \<Rightarrow> 'b boot_host" where
  "publish envoy s gs rt h =
     (case gs of
        None \<Rightarrow> h
      | Some g \<Rightarrow>
          let h1 = snd (boot envoy (Set_gauge (g_inflight_requests g) (inflight_requests rt)) h);
              h2 = snd (boot envoy (Set_gauge (g_reactor_idle_ms g) (millis_u64 (reactor_idle_for (s_now s) rt))) h1)
          in case resident_bytes (s_statm s) (s_page_size s) of
               None \<Rightarrow> h2
             | Some bytes \<Rightarrow> snd (boot envoy (Set_gauge (g_resident_bytes g) bytes) h2))"

fun register_admin :: "'b boot_envoy \<Rightarrow> (string \<times> string) list \<Rightarrow> 'b boot_host \<Rightarrow> 'b boot_host" where
  "register_admin envoy [] h = h"
| "register_admin envoy ((path, help) # rest) h =
     register_admin envoy rest (snd (boot envoy (Register_admin_handler path help False False) h))"

text \<open>
  Configuring the extension.  \<^term>\<open>None\<close> refuses the configuration, which stops
  Envoy.  The publication reads the state of the runtime that was started or
  joined.
\<close>

definition new_bootstrap_extension_config_fn ::
    "'b boot_envoy \<Rightarrow> raw_settings json_reader \<Rightarrow> process_env \<Rightarrow> sample \<Rightarrow> string \<Rightarrow> bytes
       \<Rightarrow> ('q, 'h, 'r) process \<Rightarrow> 'b boot_host
       \<Rightarrow> gauges option option \<times> ('q, 'h, 'r) process \<times> 'b boot_host" where
  "new_bootstrap_extension_config_fn envoy from_json pe s name config p h =
     (if name \<noteq> EXTENSION_NAME then (None, p, h)
      else
        case parse_settings from_json config of
          Inl _ \<Rightarrow> (None, p, h)
        | Inr settings \<Rightarrow>
            (case process_start pe settings p of
               (Inl _, p1) \<Rightarrow> (None, p1, h)
             | (Inr rdy, p1) \<Rightarrow>
                 let h1 = snd (boot envoy New_timer h);
                     h2 = snd (boot envoy (Enable_timer PUBLISH_INTERVAL) h1);
                     h3 = register_admin envoy ADMIN_ENDPOINTS h2;
                     (gs, h4) = define_gauges envoy h3;
                     h5 = (case ps_shared p1 of None \<Rightarrow> h4 | Some rt \<Rightarrow> publish envoy s gs rt h4);
                     h6 = snd (boot envoy Signal_init_complete h5)
                 in (Some gs, p1, h6)))"

definition on_timer_fired ::
    "'b boot_envoy \<Rightarrow> sample \<Rightarrow> gauges option \<Rightarrow> ('q, 'h, 'r) runtime \<Rightarrow> 'b boot_host \<Rightarrow> 'b boot_host" where
  "on_timer_fired envoy s gs rt h = snd (boot envoy (Enable_timer PUBLISH_INTERVAL) (publish envoy s gs rt h))"

definition on_admin_request ::
    "string \<Rightarrow> string \<Rightarrow> bytes \<Rightarrow> reply \<Rightarrow> (recv_timeout_error, nat \<times> string) result
       \<Rightarrow> ('q, 'h, 'r) runtime \<Rightarrow> (nat \<times> string) \<times> ('q, 'h, 'r) runtime" where
  "on_admin_request method path body reply received rt =
     (let (r, rt1) = admin_call method path body reply received rt
      in (case r of
            Inr answer \<Rightarrow> answer
          | Inl ResponseTimeout \<Rightarrow>
              (504, ''Ruby did not answer within '' @ show_nat (as_millis ADMIN_TIMEOUT) @ '' ms'' @ [CHR 0x0A])
          | Inl error \<Rightarrow> (500, display_error error @ [CHR 0x0A]), rt1))"

definition on_drain_started :: "('q, 'h, 'r) runtime \<Rightarrow> ('q, 'h, 'r) runtime" where
  "on_drain_started rt = snd (client_drain rt)"

text \<open>The completion is run whatever the shutdown returned; the first component counts it.\<close>

definition on_shutdown ::
    "reply \<Rightarrow> (recv_timeout_error, unit) result \<Rightarrow> (panic_payload, (bridge_error, unit) result) result
       \<Rightarrow> ('q, 'h, 'r) process \<Rightarrow> nat \<times> string option \<times> ('q, 'h, 'r) process" where
  "on_shutdown reply received joined p =
     (let (r, p1) = process_shutdown reply received joined p in (1, shutdown_message r, p1))"

section \<open>Facts about what is asked of Envoy\<close>

lemma boot_log [simp]: "bh_log (snd (boot envoy c h)) = bh_log h @ [c]"
  by (simp add: boot_def split: prod.splits)

lemma boot_pair_log: "boot envoy c h = (a, h1) \<Longrightarrow> bh_log h1 = bh_log h @ [c]"
  by (metis boot_log snd_conv)

lemma register_admin_log [simp]:
  "bh_log (register_admin envoy es h) = bh_log h @ map (\<lambda>(path, help). Register_admin_handler path help False False) es"
  by (induction envoy es h rule: register_admin.induct) auto

lemma define_gauges_log:
  "\<exists>new. bh_log (snd (define_gauges envoy h)) = bh_log h @ new \<and> Signal_init_complete \<notin> set new"
  by (auto simp: define_gauges_def dest!: boot_pair_log split: prod.splits option.splits)

lemma publish_log:
  "\<exists>new. bh_log (publish envoy s gs rt h) = bh_log h @ new \<and> Signal_init_complete \<notin> set new"
  by (auto simp: publish_def Let_def split: option.splits)

text \<open>
  C32. Envoy is told that initialisation is complete exactly once, as the last
  thing, and only after the runtime was started or joined with its application
  loaded; a configuration that is refused asks nothing of Envoy and changes no
  runtime another configuration started.
\<close>

theorem init_complete_only_when_ready:
  assumes "new_bootstrap_extension_config_fn envoy from_json pe s name config p h = (answer, p1, h1)"
  shows "case answer of
      None \<Rightarrow> h1 = h \<and> (\<forall>v. decided p = Some v \<longrightarrow> decided p1 = Some v)
    | Some gs \<Rightarrow> (\<exists>rdy new. process_ready p1 = Inr rdy \<and> bh_log h1 = bh_log h @ new @ [Signal_init_complete] \<and>
        Signal_init_complete \<notin> set new)"
proof (cases "name = EXTENSION_NAME \<and> (\<exists>settings. parse_settings from_json config = Inr settings)")
  case False
  then show ?thesis
    using assms by (auto simp: new_bootstrap_extension_config_fn_def split: sum.splits if_splits)
next
  case True
  then obtain settings where settings: "parse_settings from_json config = Inr settings" and name: "name = EXTENSION_NAME"
    by blast
  obtain r q where start: "process_start pe settings p = (r, q)"
    by fastforce
  show ?thesis
  proof (cases r)
    case (Inl e)
    then show ?thesis
      using assms settings name start runtime_cell.cell_kept [of p _ "P_start pe settings"]
      by (auto simp: new_bootstrap_extension_config_fn_def)
  next
    case (Inr rdy)
    obtain h4 gs where answer: "answer = Some gs" "p1 = q"
      and gs: "define_gauges envoy (register_admin envoy ADMIN_ENDPOINTS
        (snd (boot envoy (Enable_timer PUBLISH_INTERVAL) (snd (boot envoy New_timer h))))) = (gs, h4)"
      and h1: "h1 = snd (boot envoy Signal_init_complete (case ps_shared q of None \<Rightarrow> h4 | Some rt \<Rightarrow> publish envoy s gs rt h4))"
      using assms settings name start Inr
      by (auto simp: new_bootstrap_extension_config_fn_def Let_def split: prod.splits)
    obtain new where new: "bh_log h4 = bh_log h @ new" "Signal_init_complete \<notin> set new"
      using define_gauges_log [of envoy "register_admin envoy ADMIN_ENDPOINTS
        (snd (boot envoy (Enable_timer PUBLISH_INTERVAL) (snd (boot envoy New_timer h))))"] gs
      by (auto simp: ADMIN_ENDPOINTS_def)
    have "\<exists>new. bh_log h1 = bh_log h @ new @ [Signal_init_complete] \<and> Signal_init_complete \<notin> set new"
      using new publish_log [of envoy s gs _ h4] unfolding h1 by (fastforce split: option.splits)
    moreover have "process_ready q = Inr rdy"
      using process_start_ready start Inr by blast
    ultimately show ?thesis
      using answer by simp
  qed
qed

definition sample_raw :: raw_settings where
  "sample_raw = \<lparr> raw_rackup = ''/a'', raw_max_inflight = Some 8, raw_shutdown_timeout = Some 5, raw_diagnostics = None \<rparr>"

lemma sample_parse: "parse_settings (\<lambda>_. Inr sample_raw) ''{}'' = Inr sample_settings"
proof -
  have "valid_utf8 ''{}''" "trim ''{}'' = ''{}''"
    by code_simp+
  then show ?thesis
    by (simp add: parse_settings_def sample_raw_def settings_of_raw_def sample_settings_def)
qed

theorem init_complete_only_when_ready_witness:
  "\<exists>gs p1 h1. new_bootstrap_extension_config_fn (\<lambda>_ b. (Some 0, b)) (\<lambda>_. Inr sample_raw)
       (sample_process_env (Inr sample_info)) \<lparr> s_now = 0, s_statm = None, s_page_size = 4096 \<rparr> ''ruvoy'' ''{}''
       (fresh_process :: (unit, nat, nat) process) \<lparr> bh_env = (), bh_log = [] \<rparr> = (Some gs, p1, h1) \<and>
     last (bh_log h1) = Signal_init_complete"
proof -
  let ?run = "new_bootstrap_extension_config_fn (\<lambda>_ b. (Some 0, b)) (\<lambda>_. Inr sample_raw)
       (sample_process_env (Inr sample_info)) \<lparr> s_now = 0, s_statm = None, s_page_size = 4096 \<rparr> ''ruvoy'' ''{}''
       (fresh_process :: (unit, nat, nat) process) \<lparr> bh_env = (), bh_log = [] \<rparr>"
  obtain q where "process_start (sample_process_env (Inr sample_info)) sample_settings (fresh_process :: (unit, nat, nat) process) =
      (Inr \<lparr> rd_runtime_thread_id = ''ThreadId(2)'', rd_diagnostics_enabled = False \<rparr>, q)"
    using sample_process_started by blast
  then have "\<exists>gs p1 h1. ?run = (Some gs, p1, h1)"
    by (simp add: new_bootstrap_extension_config_fn_def sample_parse EXTENSION_NAME_def Let_def split: prod.splits)
  then obtain gs p1 h1 where run: "?run = (Some gs, p1, h1)"
    by blast
  then show ?thesis
    using init_complete_only_when_ready [OF run] by auto
qed

end
