(* ===== verification/Ruby_Objects.thy ===== *)
theory Ruby_Objects
  imports Upstream_Calls
begin

text \<open>
  The objects a request hands to Ruby: the two ends of a chunk queue
  (src/src/chunks.rs), Envoy's view of the request as Ruby values, and the calls
  and streams an application makes upstream, as its fiber sees them
  (src/src/extensions.rs).

  A method is a function on the state it shares with the worker; a result says
  what Ruby gets or the exception it sees, and whether the waker of the handle
  ran.  Filling a hash or an array that was just made does not raise, so the
  question marks after those stores have no branch here.  The text \<open>{:?}\<close> gives a
  string, the conversion of seconds to a duration and the lookup of an exception
  class are arguments.
\<close>

section \<open>Ruby values\<close>

datatype rb_value =
    Rb_nil
  | Rb_str string
  | Rb_int int
  | Rb_float u64
  | Rb_bool bool
  | Rb_list "rb_value list"
  | Rb_hash "(string \<times> rb_value) list"

record ruby_exception =
  exc_class :: string
  exc_message :: string

text \<open>What looking up a class under \<open>Ruvoy\<close> returned: its name, or what the lookup raised.\<close>

type_synonym class_lookup = "string \<Rightarrow> (ruby_exception, string) result"

definition upstream_error :: "class_lookup \<Rightarrow> bridge_error \<Rightarrow> ruby_exception" where
  "upstream_error lookup error =
     (let class = (case error of
                     UpstreamTooLarge _ \<Rightarrow> ''UpstreamResponseTooLarge''
                   | UpstreamOverflow _ \<Rightarrow> ''UpstreamOverflow''
                   | _ \<Rightarrow> ''UpstreamError'')
      in case lookup class of
           Inl raised \<Rightarrow> raised
         | Inr found \<Rightarrow> \<lparr> exc_class = found, exc_message = display_error error \<rparr>)"

section \<open>The ends of a chunk queue\<close>

definition next_chunk ::
    "class_lookup \<Rightarrow> response_stream \<Rightarrow> (ruby_exception, bytes option) result \<times> bool \<times> response_stream" where
  "next_chunk lookup s =
     (case take_next s of
        (None, s1) \<Rightarrow> (Inr None, False, s1)
      | (Some item, s1) \<Rightarrow>
          (case item of
             Chunk bytes \<Rightarrow> Inr (Some bytes)
           | Failed error \<Rightarrow> Inl (upstream_error lookup error)
           | Head _ \<Rightarrow> Inr None
           | End \<Rightarrow> Inr None, True, s1))"

definition source_finished :: "response_stream \<Rightarrow> bool" where
  "source_finished s = is_finished s"

definition source_park :: "variable \<Rightarrow> response_stream \<Rightarrow> bool \<times> response_stream" where
  "source_park v s = park v s"

text \<open>\<open>bytes.get(offset..).unwrap_or_default()\<close> is empty past the end, as \<^const>\<open>drop\<close> is.\<close>

definition sink_write :: "bytes \<Rightarrow> nat \<Rightarrow> response_stream \<Rightarrow> nat option \<times> bool \<times> response_stream" where
  "sink_write chunk offset s =
     (case push_chunk_within_budget (drop offset chunk) s of
        (None, s1) \<Rightarrow> (None, False, s1)
      | (Some taken, s1) \<Rightarrow> (Some taken, taken > 0, s1))"

definition sink_writable :: "response_stream \<Rightarrow> bool" where
  "sink_writable s = (\<not> is_saturated s)"

definition sink_cancelled :: "response_stream \<Rightarrow> bool" where
  "sink_cancelled s = is_cancelled s"

definition sink_park :: "variable \<Rightarrow> response_stream \<Rightarrow> bool \<times> response_stream" where
  "sink_park v s = park_writer v s"

definition end_unpark :: "response_stream \<Rightarrow> response_stream" where
  "end_unpark s = snd (unpark s)"

definition sink_finish :: "response_stream \<Rightarrow> bool \<times> response_stream" where
  "sink_finish s = push_end s"

section \<open>Envoy's view of a request\<close>

definition rb_opt :: "('a \<Rightarrow> rb_value) \<Rightarrow> 'a option \<Rightarrow> rb_value" where
  "rb_opt f v = (case v of None \<Rightarrow> Rb_nil | Some a \<Rightarrow> f a)"

definition connection_hash :: "connection_info \<Rightarrow> rb_value" where
  "connection_hash c =
     Rb_hash [(''id'', rb_opt (\<lambda>w. Rb_int (uint w)) (conn_id c)),
       (''source_address'', rb_opt Rb_str (source_address c)),
       (''source_port'', rb_opt (\<lambda>w. Rb_int (uint w)) (source_port c)),
       (''destination_address'', rb_opt Rb_str (destination_address c)),
       (''destination_port'', rb_opt (\<lambda>w. Rb_int (uint w)) (destination_port c))]"

definition peer_hash :: "peer_certificate \<Rightarrow> rb_value" where
  "peer_hash p =
     Rb_hash [(''subject'', rb_opt Rb_str (cert_subject p)), (''uri_san'', rb_opt Rb_str (uri_san p)),
       (''dns_san'', rb_opt Rb_str (dns_san p)), (''sha256'', rb_opt Rb_str (sha256 p))]"

definition tls_hash :: "tls_info \<Rightarrow> rb_value" where
  "tls_hash t =
     Rb_hash [(''version'', Rb_str (tls_version t)), (''server_name'', rb_opt Rb_str (tls_server_name t)),
       (''peer_certificate'', rb_opt peer_hash (tls_peer_certificate t))]"

fun metadata_rb :: "metadata_value \<Rightarrow> rb_value" where
  "metadata_rb (MString t) = Rb_str t"
| "metadata_rb (MNumber n) = Rb_float n"
| "metadata_rb (MBool b) = Rb_bool b"
| "metadata_rb (MList vs) = Rb_list (map metadata_rb vs)"

definition fields_hash :: "(string \<times> metadata_value) list \<Rightarrow> (string \<times> rb_value) list" where
  "fields_hash fs = fold (\<lambda>(k, v). AList.update k (metadata_rb v)) fs []"

definition metadata_hash :: "metadata_namespace list \<Rightarrow> (string \<times> rb_value) list" where
  "metadata_hash ns = fold (\<lambda>n. AList.update (ns_name n) (Rb_hash (fields_hash (ns_fields n)))) ns []"

definition context_to_h :: "envoy_context \<Rightarrow> rb_value" where
  "context_to_h c =
     Rb_hash [(''route_name'', rb_opt Rb_str (route_name c)),
       (''connection'', connection_hash (ctx_connection c)),
       (''tls'', rb_opt tls_hash (ctx_tls c)),
       (''dynamic_metadata'', Rb_hash (metadata_hash (dynamic_metadata c))),
       (''route_metadata'', Rb_hash (metadata_hash (route_metadata c)))]"

section \<open>Header fields\<close>

text \<open>A name that repeats becomes an array of its values.\<close>

definition add_header :: "string \<times> string \<Rightarrow> (string \<times> rb_value) list \<Rightarrow> (string \<times> rb_value) list" where
  "add_header nv headers =
     (case map_of headers (fst nv) of
        None \<Rightarrow> AList.update (fst nv) (Rb_str (snd nv)) headers
      | Some (Rb_list values) \<Rightarrow> AList.update (fst nv) (Rb_list (values @ [Rb_str (snd nv)])) headers
      | Some existing \<Rightarrow> AList.update (fst nv) (Rb_list [existing, Rb_str (snd nv)]) headers)"

definition rack_headers :: "header_list \<Rightarrow> (string \<times> rb_value) list" where
  "rack_headers hs = fold add_header hs []"

text \<open>\<open>[[name, value], ...]\<close> read out of a Ruby array, where each read may raise.\<close>

type_synonym 'a rb_read = "(ruby_exception, 'a) result"

fun header_pairs :: "(string rb_read \<times> string rb_read) rb_read list \<Rightarrow> (string \<times> bytes) list rb_read" where
  "header_pairs [] = Inr []"
| "header_pairs (entry # entries) =
     and_then entry (\<lambda>(name, v). and_then name (\<lambda>n. and_then v (\<lambda>b.
       and_then (header_pairs entries) (\<lambda>rest. Inr ((n, b) # rest)))))"

section \<open>Calling upstream\<close>

record upstream_call_object =
  uo_head :: "response_head option"
  uo_body :: bytes
  uo_taken :: bool

definition new_upstream_call :: upstream_call_object where
  "new_upstream_call = \<lparr> uo_head = None, uo_body = [], uo_taken = False \<rparr>"

definition not_allowed :: "(string \<Rightarrow> string) \<Rightarrow> string \<Rightarrow> ruby_exception" where
  "not_allowed debug cluster =
     \<lparr> exc_class = ''ArgumentError'',
       exc_message = ''cluster '' @ debug cluster @ '' is not one this filter lets the application call'' \<rparr>"

text \<open>
  A timeout in seconds: \<open>secs\<close> is \<open>Duration::try_from_secs_f64\<close> and \<open>shown\<close> the text of
  the number.
\<close>

definition given_timeout ::
    "('f \<Rightarrow> duration option) \<Rightarrow> ('f \<Rightarrow> string) \<Rightarrow> duration \<Rightarrow> 'f option \<Rightarrow> duration rb_read" where
  "given_timeout secs shown otherwise timeout =
     (case timeout of
        None \<Rightarrow> Inr otherwise
      | Some seconds \<Rightarrow>
          ok_or (opt_filter (\<lambda>d. d \<noteq> 0) (secs seconds))
            \<lparr> exc_class = ''ArgumentError'',
              exc_message = ''timeout must be a positive number of seconds, got '' @ shown seconds \<rparr>)"

text \<open>
  \<open>r\<close> is the reference of the response queue made for the call.  The result is the
  queue and the object on it, whether the worker was woken, and the route.
\<close>

definition dispatch ::
    "class_lookup \<Rightarrow> (string \<Rightarrow> string) \<Rightarrow> ('f \<Rightarrow> duration option) \<Rightarrow> ('f \<Rightarrow> string) \<Rightarrow> upstream_settings \<Rightarrow> 'r
       \<Rightarrow> string \<Rightarrow> (string rb_read \<times> string rb_read) rb_read list \<Rightarrow> bytes option \<Rightarrow> 'f option
       \<Rightarrow> ('r, 'c) calls \<Rightarrow> (upstream_call_object \<times> response_stream) rb_read \<times> bool \<times> ('r, 'c) calls" where
  "dispatch lookup debug secs shown settings r cluster headers body timeout cs =
     (if \<not> allows settings cluster then (Inl (not_allowed debug cluster), False, cs)
      else
        case given_timeout secs shown (call_timeout settings) timeout of
          Inl e \<Rightarrow> (Inl e, False, cs)
        | Inr d \<Rightarrow>
            (case header_pairs headers of
               Inl e \<Rightarrow> (Inl e, False, cs)
             | Inr pairs \<Rightarrow>
                 (case queue_call \<lparr> ur_cluster = cluster, ur_headers = pairs, ur_body = unwrap_or body [],
                                   ur_timeout = d, ur_response = r \<rparr> cs of
                    (Inl e, woken, cs1) \<Rightarrow> (Inl (upstream_error lookup e), woken, cs1)
                  | (Inr _, woken, cs1) \<Rightarrow>
                      (Inr (new_upstream_call, new_stream (max_response_bytes settings)), woken, cs1))))"

text \<open>A stream has no deadline unless the call sets one; \<open>c\<close> is the reference of its channel.\<close>

definition open_stream_call ::
    "class_lookup \<Rightarrow> (string \<Rightarrow> string) \<Rightarrow> ('f \<Rightarrow> duration option) \<Rightarrow> ('f \<Rightarrow> string) \<Rightarrow> upstream_settings \<Rightarrow> 'c
       \<Rightarrow> string \<Rightarrow> (string rb_read \<times> string rb_read) rb_read list \<Rightarrow> 'f option \<Rightarrow> bool
       \<Rightarrow> ('r, 'c) calls \<Rightarrow> stream_channel rb_read \<times> bool \<times> ('r, 'c) calls" where
  "open_stream_call lookup debug secs shown settings c cluster headers timeout has_body cs =
     (if \<not> allows settings cluster then (Inl (not_allowed debug cluster), False, cs)
      else
        case given_timeout secs shown 0 timeout of
          Inl e \<Rightarrow> (Inl e, False, cs)
        | Inr d \<Rightarrow>
            let channel = new_channel (stream_buffer_bytes settings);
                channel1 = (if has_body then channel else on_request (\<lambda>s. snd (push_end s)) channel)
            in case header_pairs headers of
                 Inl e \<Rightarrow> (Inl e, False, cs)
               | Inr pairs \<Rightarrow>
                   (case queue_stream \<lparr> us_cluster = cluster, us_headers = pairs, us_timeout = d, us_channel = c \<rparr> cs of
                      (Inl e, woken, cs1) \<Rightarrow> (Inl (upstream_error lookup e), woken, cs1)
                    | (Inr _, woken, cs1) \<Rightarrow> (Inr channel1, woken, cs1)))"

section \<open>Reading the answer\<close>

type_synonym rack_triple = "u16 \<times> (string \<times> rb_value) list \<times> bytes"

definition rack_response :: "response_head \<Rightarrow> bytes \<Rightarrow> rack_triple" where
  "rack_response head body = (head_status head, rack_headers (head_headers head), body)"

function response_loop ::
    "class_lookup \<Rightarrow> upstream_call_object \<Rightarrow> response_stream
       \<Rightarrow> rack_triple option rb_read \<times> upstream_call_object \<times> response_stream" where
  "response_loop lookup c s =
     (case take_next s of
        (None, s1) \<Rightarrow> (Inr None, c, s1)
      | (Some (Head head), s1) \<Rightarrow> response_loop lookup (c\<lparr>uo_head := Some head\<rparr>) s1
      | (Some (Chunk chunk), s1) \<Rightarrow> response_loop lookup (c\<lparr>uo_body := uo_body c @ chunk\<rparr>) s1
      | (Some End, s1) \<Rightarrow>
          (case uo_head c of
             None \<Rightarrow> (Inl (upstream_error lookup (Upstream ''the response ended before its head'')),
                      c\<lparr>uo_taken := True\<rparr>, s1)
           | Some head \<Rightarrow>
               (Inr (Some (rack_response head (uo_body c))),
                c\<lparr>uo_taken := True, uo_head := None, uo_body := []\<rparr>, s1))
      | (Some (Failed error), s1) \<Rightarrow> (Inl (upstream_error lookup error), c\<lparr>uo_taken := True\<rparr>, s1))"
  by pat_completeness auto
termination
  by (relation "measure (\<lambda>(_, _, s). length (items s))") (auto dest: take_next_shrinks [OF sym])

declare response_loop.simps [simp del]

definition call_response ::
    "class_lookup \<Rightarrow> upstream_call_object \<Rightarrow> response_stream
       \<Rightarrow> rack_triple option rb_read \<times> upstream_call_object \<times> response_stream" where
  "call_response lookup c s =
     (if uo_taken c
      then (Inl \<lparr> exc_class = ''RuntimeError'', exc_message = ''the response was already taken'' \<rparr>, c, s)
      else response_loop lookup c s)"

definition channel_head ::
    "class_lookup \<Rightarrow> stream_channel \<Rightarrow> (u16 \<times> (string \<times> rb_value) list) option rb_read \<times> stream_channel" where
  "channel_head lookup ch =
     (let (item, s1) = take_next (ch_response ch); ch1 = ch\<lparr>ch_response := s1\<rparr>
      in case item of
           None \<Rightarrow>
             if is_cancelled s1 then (Inl (upstream_error lookup (Upstream ''the stream was closed'')), ch1)
             else (Inr None, ch1)
         | Some (Head head) \<Rightarrow> (Inr (Some (head_status head, rack_headers (head_headers head))), ch1)
         | Some (Failed error) \<Rightarrow> (Inl (upstream_error lookup error), ch1)
         | Some _ \<Rightarrow> (Inl (upstream_error lookup (Upstream ''the response arrived without a head'')), ch1))"

text \<open>Closing and giving up always wake the worker, which resets the stream.\<close>

definition channel_close :: "stream_channel \<Rightarrow> bool \<times> stream_channel" where
  "channel_close ch = (True, close_channel ch)"

definition channel_time_out :: "stream_channel \<Rightarrow> bool \<times> stream_channel" where
  "channel_time_out ch = (True, time_out ch)"

definition channel_trailers :: "stream_channel \<Rightarrow> (string \<times> rb_value) list option" where
  "channel_trailers ch = map_option rack_headers (trailers_of ch)"

text \<open>
  The two ends of a channel, on its two queues: reading needs nothing of the worker, writing wakes it.  The default
  timeout is shown in seconds.
\<close>

definition channel_reader :: "'r \<Rightarrow> ('r, 'w) stream_handle" where
  "channel_reader response = new_handle response (\<lambda>w. w)"

definition channel_writer :: "'r \<Rightarrow> ('w \<Rightarrow> 'w) \<Rightarrow> ('r, 'w) stream_handle" where
  "channel_writer request wake_worker = new_handle request wake_worker"

definition default_timeout :: "(duration \<Rightarrow> 'f) \<Rightarrow> upstream_settings \<Rightarrow> 'f" where
  "default_timeout as_secs settings = as_secs (call_timeout settings)"

text \<open>Waiting for the answer of a call.\<close>

definition call_park :: "variable \<Rightarrow> response_stream \<Rightarrow> bool \<times> response_stream" where
  "call_park v s = park v s"

definition call_unpark :: "response_stream \<Rightarrow> response_stream" where
  "call_unpark s = snd (unpark s)"

section \<open>Facts about the objects\<close>

text \<open>All the values a header name has, in the form Ruby sees them.\<close>

fun header_values :: "rb_value option \<Rightarrow> rb_value list" where
  "header_values None = []"
| "header_values (Some (Rb_list vs)) = vs"
| "header_values (Some v) = [v]"

definition header_shape :: "(string \<times> rb_value) list \<Rightarrow> bool" where
  "header_shape h \<longleftrightarrow> (\<forall>n v. map_of h n = Some v \<longrightarrow> (\<exists>t. v = Rb_str t) \<or> (\<exists>vs. v = Rb_list vs \<and> length vs \<ge> 2))"

lemma header_shape_cases:
  assumes "header_shape h"
  obtains "map_of h n = None" | t where "map_of h n = Some (Rb_str t)" | vs where "map_of h n = Some (Rb_list vs)" "length vs \<ge> 2"
  using assms unfolding header_shape_def by (metis option.exhaust)

lemma add_header_shape: "header_shape h \<Longrightarrow> header_shape (add_header nv h)"
  using header_shape_cases [of h "fst nv"]
  by (cases rule: header_shape_cases [of h "fst nv"]) (auto simp: add_header_def header_shape_def update_conv')

lemma add_header_values:
  assumes "header_shape h"
  shows "header_values (map_of (add_header (m, v) h) n) = header_values (map_of h n) @ (if m = n then [Rb_str v] else [])"
  using assms by (cases rule: header_shape_cases [of h m]) (auto simp: add_header_def update_conv')

lemma fold_add_header:
  "header_shape h \<Longrightarrow> header_shape (fold add_header hs h) \<and>
   header_values (map_of (fold add_header hs h) n) =
     header_values (map_of h n) @ map (\<lambda>(_, v). Rb_str v) (filter (\<lambda>(m, _). m = n) hs)"
  by (induction hs arbitrary: h) (auto simp: add_header_shape add_header_values)

lemma response_loop_items:
  "\<not> paused s \<Longrightarrow> items s = Head h # xs \<Longrightarrow>
   response_loop lookup c s = response_loop lookup (c\<lparr>uo_head := Some h\<rparr>) (s\<lparr>items := xs\<rparr>)"
  "\<not> paused s \<Longrightarrow> items s = Chunk b # xs \<Longrightarrow>
   response_loop lookup c s =
     response_loop lookup (c\<lparr>uo_body := uo_body c @ b\<rparr>) (s\<lparr>items := xs, buffered_bytes := buffered_bytes s - length b\<rparr>)"
  by (subst response_loop.simps, simp add: take_next_def)+

section \<open>Properties\<close>


text \<open>
  No header of an upstream response is lost, repeated or reordered on its way
  to Ruby: under each name the application finds exactly the values Envoy sent
  under it, in order, as a string when there is one and an array when there are
  more.
\<close>

theorem rack_headers_keep_every_value:
  "header_values (map_of (rack_headers hs) n) = map (\<lambda>(_, v). Rb_str v) (filter (\<lambda>(m, _). m = n) hs) \<and>
   (case map_of (rack_headers hs) n of
      Some (Rb_list vs) \<Rightarrow> length vs \<ge> 2
    | Some (Rb_str v) \<Rightarrow> filter (\<lambda>(m, _). m = n) hs = [(n, v)]
    | Some _ \<Rightarrow> False
    | None \<Rightarrow> filter (\<lambda>(m, _). m = n) hs = [])"
proof -
  have shape: "header_shape (rack_headers hs)"
    and vals: "header_values (map_of (rack_headers hs) n) = map (\<lambda>(_, v). Rb_str v) (filter (\<lambda>(m, _). m = n) hs)"
    using fold_add_header [of "[]" hs n] by (simp_all add: rack_headers_def header_shape_def)
  have "filter (\<lambda>(m, _). m = n) hs = [(n, v)]" if "map (\<lambda>(_, v). Rb_str v) (filter (\<lambda>(m, _). m = n) hs) = [Rb_str v]" for v
    using that by (auto simp: map_eq_Cons_conv filter_eq_Cons_iff)
  then show ?thesis
    using vals by (cases rule: header_shape_cases [OF shape, of n]) (auto simp: filter_empty_conv)
qed

text \<open>
  C34. An application reaches only the clusters its filter allows: a call or a
  stream that is accepted is for an allowed cluster, wakes the worker, and is the
  one new entry of the route; one that raises leaves the route as it was and wakes
  nobody.
\<close>

theorem only_allowed_clusters_are_called:
  "(case dispatch lookup debug secs shown settings r cluster headers body timeout cs of
      (Inl e, woken, cs1) \<Rightarrow> cs1 = cs \<and> \<not> woken
    | (Inr _, woken, cs1) \<Rightarrow> cluster \<in> set (clusters settings) \<and> woken \<and>
        (\<exists>q. ur_cluster q = cluster \<and> ur_response q = r \<and> cs1 = cs\<lparr>queued := queued cs @ [q]\<rparr>)) \<and>
   (case open_stream_call lookup debug secs shown settings c cluster headers timeout has_body cs of
      (Inl e, woken, cs1) \<Rightarrow> cs1 = cs \<and> \<not> woken
    | (Inr ch, woken, cs1) \<Rightarrow> cluster \<in> set (clusters settings) \<and> woken \<and> ended (ch_request ch) = (\<not> has_body) \<and>
        (\<exists>q. us_cluster q = cluster \<and> us_channel q = c \<and> cs1 = cs\<lparr>queued_streams := queued_streams cs @ [q]\<rparr>))"
proof -
  have allowed: "allows settings cluster \<longleftrightarrow> cluster \<in> set (clusters settings)"
    by (auto simp: allows_def list_ex_iff)
  show ?thesis
    by (intro conjI)
      (force simp: dispatch_def queue_call_def push_call_def allowed split: sum.splits if_splits,
       force simp: open_stream_call_def queue_stream_def push_call_def allowed Let_def new_channel_def new_stream_def
         on_request_def push_end_def push_def split: sum.splits if_splits)
qed

text \<open>
  A failure that lands after a read that found nothing, and before the question
  whether the source is finished, is taken for the regular end: the question looks
  at the bytes and the end mark, and the failure has no bytes.
\<close>

lemma failure_taken_for_the_end:
  "\<exists>s. next_chunk lookup (new_stream 8) = (Inr None, False, s) \<and>
     source_finished (snd (push_failure e s)) \<and> items (snd (push_failure e s)) = [Failed e]"
  by (simp add: next_chunk_def take_next_def new_stream_def source_finished_def is_finished_def push_failure_def push_def)

end
