(* ===== verification/Fiber_Waiting.thy ===== *)
theory Fiber_Waiting
  imports Ruby_Objects
begin

text \<open>
  A fiber at one end of a chunk queue while the worker acts on the other, and how it
  waits, writes and reads (\<open>Ruvoy::Park\<close> and \<open>Stream.write\<close> in src/ruby/stream.rb,
  \<open>UpstreamBody#each\<close> in src/ruby/upstream.rb).

  Every method of the queue takes its lock for its whole body, so between two of them the other
  thread may do anything it can.  A plan lists what it does before each method the fiber calls;
  plans stand for all interleavings, and a fiber that has not returned when its plan ends
  is \<^term>\<open>None\<close>.  A fiber that waits goes on with the next entry of the plan, whether or not
  the queue made progress, so every wakeup is covered, a spurious one too.  The idle
  timeout of an upstream is left out: a wait ends by a wakeup.
\<close>

record fiber_end =
  fe_queue :: response_stream
  fe_plan :: "stream_op list list"
  fe_arrived :: bytes
  fe_taken :: bytes

text \<open>
  What the other side does; \<open>fe_arrived\<close> collects the bytes its pushes were told were
  accepted, \<open>fe_taken\<close> the bytes it took.  Both only observe.
\<close>

definition other_acts :: "stream_op \<Rightarrow> fiber_end \<Rightarrow> fiber_end" where
  "other_acts op e =
     e\<lparr>fe_queue := stream_act op (fe_queue e),
       fe_arrived := fe_arrived e @ body_of (stream_accepts op (fe_queue e)),
       fe_taken := fe_taken e @ body_of (stream_hands_out op (fe_queue e))\<rparr>"

definition elsewhere :: "stream_op list \<Rightarrow> fiber_end \<Rightarrow> fiber_end" where
  "elsewhere ops e = run other_acts ops e"

definition atomically :: "(response_stream \<Rightarrow> 'a \<times> response_stream) \<Rightarrow> fiber_end \<Rightarrow> ('a \<times> fiber_end) option" where
  "atomically f e =
     (case fe_plan e of
        [] \<Rightarrow> None
      | ops # plan \<Rightarrow>
          let e1 = elsewhere ops e; (a, s) = f (fe_queue e1)
          in Some (a, e1\<lparr>fe_queue := s, fe_plan := plan\<rparr>))"

text \<open>
  The methods of the two ends as a fiber calls them; the waker they run is the other side's
  business.
\<close>

definition ask_next_chunk :: "class_lookup \<Rightarrow> fiber_end \<Rightarrow> (bytes option rb_read \<times> fiber_end) option" where
  "ask_next_chunk lookup = atomically (\<lambda>s. let (r, _, s1) = next_chunk lookup s in (r, s1))"

definition ask_finished :: "fiber_end \<Rightarrow> (bool \<times> fiber_end) option" where
  "ask_finished = atomically (\<lambda>s. (source_finished s, s))"

definition ask_writable :: "fiber_end \<Rightarrow> (bool \<times> fiber_end) option" where
  "ask_writable = atomically (\<lambda>s. (sink_writable s, s))"

definition ask_write :: "bytes \<Rightarrow> nat \<Rightarrow> fiber_end \<Rightarrow> (nat option \<times> fiber_end) option" where
  "ask_write chunk offset = atomically (\<lambda>s. let (taken, _, s1) = sink_write chunk offset s in (taken, s1))"

text \<open>
  \<open>Park.on\<close> without a timeout: it returns at once when the queue refuses; otherwise the
  fiber waits and then lets go of its variable.
\<close>

definition park_on :: "(variable \<Rightarrow> response_stream \<Rightarrow> bool \<times> response_stream) \<Rightarrow> variable \<Rightarrow> fiber_end \<Rightarrow> fiber_end option" where
  "park_on park1 v e =
     (case atomically (park1 v) e of
        None \<Rightarrow> None
      | Some (parked, e1) \<Rightarrow>
          if parked then map_option snd (atomically (\<lambda>s. ((), end_unpark s)) e1) else Some e1)"

section \<open>Plans get shorter\<close>

lemma elsewhere_plan [simp]: "fe_plan (elsewhere ops e) = fe_plan e"
  unfolding elsewhere_def by (induction ops arbitrary: e) (simp_all add: other_acts_def)

lemma atomically_plan: "atomically f e = Some (a, e') \<Longrightarrow> length (fe_plan e) = Suc (length (fe_plan e'))"
  by (auto simp: atomically_def Let_def split: list.splits prod.splits)

lemmas asks = ask_next_chunk_def ask_finished_def ask_writable_def ask_write_def

lemma ask_plan:
  "ask_next_chunk lookup e = Some (r, e') \<Longrightarrow> length (fe_plan e) = Suc (length (fe_plan e'))"
  "ask_finished e = Some (b, e') \<Longrightarrow> length (fe_plan e) = Suc (length (fe_plan e'))"
  "ask_writable e = Some (b, e') \<Longrightarrow> length (fe_plan e) = Suc (length (fe_plan e'))"
  "ask_write chunk offset e = Some (n, e') \<Longrightarrow> length (fe_plan e) = Suc (length (fe_plan e'))"
  unfolding asks by (erule atomically_plan)+

lemma park_on_plan: "park_on p v e = Some e' \<Longrightarrow> length (fe_plan e') < length (fe_plan e)"
  by (auto simp: park_on_def dest!: atomically_plan split: if_splits option.splits prod.splits)

section \<open>Writing a chunk\<close>

function write_from :: "variable \<Rightarrow> bytes \<Rightarrow> nat \<Rightarrow> fiber_end \<Rightarrow> (bool \<times> fiber_end) option" where
  "write_from v chunk offset e =
     (if offset < length chunk
      then case ask_writable e of
             None \<Rightarrow> None
           | Some (writable, e1) \<Rightarrow>
               (case (if writable then Some e1 else park_on sink_park v e1) of
                  None \<Rightarrow> None
                | Some e2 \<Rightarrow>
                    (case ask_write chunk offset e2 of
                       None \<Rightarrow> None
                     | Some (None, e3) \<Rightarrow> Some (False, e3)
                     | Some (Some taken, e3) \<Rightarrow> write_from v chunk (offset + taken) e3))
      else Some (True, e))"
  by pat_completeness auto
termination
  by (relation "measure (\<lambda>(_, _, _, e). length (fe_plan e))")
    (auto dest!: ask_plan park_on_plan split: if_splits)

declare write_from.simps [simp del]

definition stream_write :: "variable \<Rightarrow> bytes \<Rightarrow> fiber_end \<Rightarrow> (bool \<times> fiber_end) option" where
  "stream_write v chunk e = write_from v chunk 0 e"

section \<open>Reading an upstream's answer\<close>

text \<open>
  \<open>UpstreamBody#each\<close>: the chunks yielded so far come first in the result, then what
  \<open>next_chunk\<close> raised, if it did.
\<close>

function each_chunk ::
    "class_lookup \<Rightarrow> variable \<Rightarrow> bytes list \<Rightarrow> fiber_end \<Rightarrow> (bytes list \<times> ruby_exception option \<times> fiber_end) option" where
  "each_chunk lookup v yielded e =
     (case ask_next_chunk lookup e of
        None \<Rightarrow> None
      | Some (Inl raised, e1) \<Rightarrow> Some (yielded, Some raised, e1)
      | Some (Inr (Some chunk), e1) \<Rightarrow> each_chunk lookup v (yielded @ [chunk]) e1
      | Some (Inr None, e1) \<Rightarrow>
          (case ask_finished e1 of
             None \<Rightarrow> None
           | Some (True, e2) \<Rightarrow> Some (yielded, None, e2)
           | Some (False, e2) \<Rightarrow>
               (case park_on source_park v e2 of
                  None \<Rightarrow> None
                | Some e3 \<Rightarrow> each_chunk lookup v yielded e3)))"
  by pat_completeness auto
termination
  by (relation "measure (\<lambda>(_, _, _, e). length (fe_plan e))") (auto dest!: ask_plan park_on_plan)

declare each_chunk.simps [simp del]

section \<open>What holds between two methods\<close>

definition plan_of :: "(stream_op \<Rightarrow> bool) \<Rightarrow> fiber_end \<Rightarrow> bool" where
  "plan_of ok e = list_all (list_all ok) (fe_plan e)"

lemma elsewhere_keeps:
  assumes "list_all ok ops" "P e" "\<And>op x. ok op \<Longrightarrow> P x \<Longrightarrow> P (other_acts op x)"
  shows "P (elsewhere ops e)"
  using assms(1,2) unfolding elsewhere_def by (induction ops arbitrary: e) (auto intro: assms(3))

text \<open>A method of the queue: what the other side keeps holds when the method begins.\<close>

lemma atomically_rule:
  assumes "atomically f e = Some (a, e')" "plan_of ok e" "P e"
    and "\<And>op x. ok op \<Longrightarrow> P x \<Longrightarrow> P (other_acts op x)"
    and "\<And>x s plan. P x \<Longrightarrow> f (fe_queue x) = (a, s) \<Longrightarrow> Q (x\<lparr>fe_queue := s, fe_plan := plan\<rparr>)"
  shows "Q e'" "plan_of ok e'"
proof -
  obtain ops plan where plan: "fe_plan e = ops # plan"
    using assms(1) by (cases "fe_plan e") (simp_all add: atomically_def)
  have "P (elsewhere ops e)"
    using elsewhere_keeps [of ok ops P e] assms(2-4) plan by (simp add: plan_of_def)
  then show "Q e'" "plan_of ok e'"
    using assms(1,2,5) plan
    by (auto simp: atomically_def plan_of_def Let_def split: prod.splits)
qed

lemma park_on_rule:
  assumes "park_on park1 v e = Some e'" "plan_of ok e" "P e"
    and "\<And>op x. ok op \<Longrightarrow> P x \<Longrightarrow> P (other_acts op x)"
    and "\<And>x s b plan. P x \<Longrightarrow> park1 v (fe_queue x) = (b, s) \<Longrightarrow> P (x\<lparr>fe_queue := s, fe_plan := plan\<rparr>)"
    and "\<And>x plan. P x \<Longrightarrow> P (x\<lparr>fe_queue := end_unpark (fe_queue x), fe_plan := plan\<rparr>)"
  shows "P e'" "plan_of ok e'"
proof -
  obtain b e1 where parked: "atomically (park1 v) e = Some (b, e1)"
    using assms(1) by (auto simp: park_on_def split: option.splits)
  have e1: "P e1" "plan_of ok e1"
    using atomically_rule [OF parked assms(2), of P P] assms(3-5) by blast+
  show "P e'" "plan_of ok e'"
  proof (atomize (full), cases b)
    case True
    then have "atomically (\<lambda>s. ((), end_unpark s)) e1 = Some ((), e')"
      using assms(1) parked by (auto simp: park_on_def)
    then show "P e' \<and> plan_of ok e'"
      using atomically_rule [of _ e1 "()" e' ok P P, OF _ e1(2,1) assms(4)] assms(6) by auto
  next
    case False
    then show "P e' \<and> plan_of ok e'"
      using assms(1) parked e1 by (simp add: park_on_def)
  qed
qed

section \<open>Writers\<close>

definition pushes_nothing :: "stream_op \<Rightarrow> bool" where
  "pushes_nothing op \<longleftrightarrow>
     (case op of
        Op_push_head _ \<Rightarrow> False | Op_push_chunk _ \<Rightarrow> False | Op_push_within_budget _ \<Rightarrow> False
      | Op_push_if_room _ \<Rightarrow> False | Op_push_end \<Rightarrow> False | Op_push_failure _ \<Rightarrow> False | _ \<Rightarrow> True)"

text \<open>What went in, \<open>w\<close>, is what the other side took and what is still queued.\<close>

definition flows :: "bytes \<Rightarrow> fiber_end \<Rightarrow> bool" where
  "flows w e \<longleftrightarrow>
     stream_inv (fe_queue e) \<and> prefix (fe_taken e) w \<and>
     (cancelled (fe_queue e) \<or> fe_taken e @ body_of (items (fe_queue e)) = w)"

lemma flows_other: "pushes_nothing op \<Longrightarrow> flows w e \<Longrightarrow> flows w (other_acts op e)"
proof -
  assume op: "pushes_nothing op" and flows: "flows w e"
  let ?s = "fe_queue e" and ?s' = "stream_act op (fe_queue e)"
  have inv: "stream_inv ?s'"
    using flows by (simp add: flows_def stream_wf.inv_act)
  have silent: "stream_accepts op ?s = []"
    using op by (cases op) (simp_all add: pushes_nothing_def)
  consider "cancelled ?s" | "\<not> cancelled ?s" "cancelled ?s'" | "\<not> cancelled ?s" "\<not> cancelled ?s'"
    by blast
  then show ?thesis
  proof cases
    case 1
    then show ?thesis
      using flows inv stream_dead_silent [of ?s op] stream_stays_cancelled [of ?s op]
      by (simp add: flows_def other_acts_def)
  next
    case 2
    then have "op = Op_cancel"
      by (rule only_cancel_kills)
    with 2 show ?thesis
      using flows inv by (simp add: flows_def other_acts_def stream_hands_out_def)
  next
    case 3
    then have "items ?s = stream_hands_out op ?s @ items ?s'"
      by (metis append_Nil2 silent stream_live_fifo)
    with 3 show ?thesis
      using flows inv by (auto simp: flows_def other_acts_def)
  qed
qed

lemma ask_writable_flows:
  "ask_writable e = Some (b, e') \<Longrightarrow> plan_of pushes_nothing e \<Longrightarrow> flows w e \<Longrightarrow> flows w e' \<and> plan_of pushes_nothing e'"
  unfolding ask_writable_def
  by (intro conjI; erule (2) atomically_rule [where P = "flows w" and Q = "flows w", OF _ _ _ flows_other])
    (auto simp: flows_def)

lemma park_on_flows:
  "park_on sink_park v e = Some e' \<Longrightarrow> plan_of pushes_nothing e \<Longrightarrow> flows w e \<Longrightarrow> flows w e' \<and> plan_of pushes_nothing e'"
  by (intro conjI; erule (2) park_on_rule [where P = "flows w", OF _ _ _ flows_other])
    (auto simp: flows_def sink_park_def end_unpark_def park_writer_def unpark_def stream_inv_def split: if_splits)

definition written :: "nat option \<Rightarrow> nat" where
  "written r = (case r of None \<Rightarrow> 0 | Some n \<Rightarrow> n)"

lemma sink_write_flows:
  assumes "flows w e" "sink_write chunk offset (fe_queue e) = (r, b, s)"
  shows "flows (w @ take (written r) (drop offset chunk)) (e\<lparr>fe_queue := s, fe_plan := p\<rparr>) \<and>
    written r \<le> length chunk - offset \<and> (r = None \<longrightarrow> cancelled s \<or> ended s)"
proof -
  have "stream_inv s"
    using assms stream_inv_within [of "fe_queue e" "drop offset chunk"]
    by (auto simp: flows_def sink_write_def split: prod.splits option.splits)
  then show ?thesis
    using assms
    by (auto simp: flows_def written_def sink_write_def push_chunk_within_budget_def Let_def min_def
        intro: prefix_prefix split: if_splits)
qed

lemma ask_write_flows:
  assumes "ask_write chunk offset e = Some (r, e')" "plan_of pushes_nothing e" "flows w e"
  shows "flows (w @ take (written r) (drop offset chunk)) e'" "written r \<le> length chunk - offset"
    "r = None \<Longrightarrow> cancelled (fe_queue e') \<or> ended (fe_queue e')" "plan_of pushes_nothing e'"
proof -
  let ?Q = "\<lambda>x. flows (w @ take (written r) (drop offset chunk)) x \<and> written r \<le> length chunk - offset \<and>
    (r = None \<longrightarrow> cancelled (fe_queue x) \<or> ended (fe_queue x))"
  have step: "?Q (x\<lparr>fe_queue := s, fe_plan := plan\<rparr>)"
    if "flows w x" "(let (taken, _, s1) = sink_write chunk offset (fe_queue x) in (taken, s1)) = (r, s)" for x s plan
    using that sink_write_flows [of w x chunk offset r _ s plan] by (auto split: prod.splits)
  have "?Q e'" "plan_of pushes_nothing e'"
    by (rule atomically_rule [where P = "flows w" and Q = ?Q, OF assms(1) [unfolded ask_write_def] assms(2,3) flows_other step];
        assumption)+
  then show "flows (w @ take (written r) (drop offset chunk)) e'" "written r \<le> length chunk - offset"
    "r = None \<Longrightarrow> cancelled (fe_queue e') \<or> ended (fe_queue e')" "plan_of pushes_nothing e'"
    by auto
qed

lemma write_from_flows:
  "write_from v chunk offset e = Some (whole, e') \<Longrightarrow> plan_of pushes_nothing e \<Longrightarrow>
   flows (w @ take offset chunk) e \<Longrightarrow> offset \<le> length chunk \<Longrightarrow>
   \<exists>n. flows (w @ take n chunk) e' \<and>
     (if whole then n = length chunk else n < length chunk \<and> (cancelled (fe_queue e') \<or> ended (fe_queue e')))"
proof (induction v chunk offset e rule: write_from.induct)
  case (1 v chunk offset e)
  show ?case
  proof (cases "offset < length chunk")
    case False
    then show ?thesis
      using "1.prems" by (auto simp: write_from.simps intro!: exI [of _ "length chunk"])
  next
    case True
    note unfolded = write_from.simps [of v chunk offset e]
    obtain b e1 where e1: "ask_writable e = Some (b, e1)"
      using "1.prems"(1) True by (auto simp: unfolded split: option.splits)
    obtain e2 where e2: "(if b then Some e1 else park_on sink_park v e1) = Some e2"
      using "1.prems"(1) True e1 by (auto simp: unfolded split: option.splits if_splits)
    obtain r e3 where e3: "ask_write chunk offset e2 = Some (r, e3)"
      using "1.prems"(1) True e1 e2 by (auto simp: unfolded split: option.splits)
    have "flows (w @ take offset chunk) e2 \<and> plan_of pushes_nothing e2"
      using ask_writable_flows [OF e1 "1.prems"(2,3)] park_on_flows e2 by (auto split: if_splits)
    note e2_flows = this
    have f3: "flows (w @ take (offset + written r) chunk) e3" "written r \<le> length chunk - offset"
      "r = None \<Longrightarrow> cancelled (fe_queue e3) \<or> ended (fe_queue e3)" "plan_of pushes_nothing e3"
      using ask_write_flows [OF e3, of "w @ take offset chunk"] e2_flows by (auto simp: take_add)
    show ?thesis
    proof (cases r)
      case None
      then show ?thesis
        using "1.prems"(1) True e1 e2 e3 f3 by (auto simp: unfolded written_def intro!: exI [of _ offset])
    next
      case (Some n)
      then have "write_from v chunk (offset + n) e3 = Some (whole, e')"
        using "1.prems"(1) True e1 e2 e3 by (simp add: unfolded)
      then show ?thesis
        using "1.IH" [OF True e1 refl e2 e3 refl Some] Some f3 True by (simp add: written_def)
    qed
  qed
qed

text \<open>
  \<open>Stream.write\<close> against a worker that takes, pauses or cancels as it likes: when it
  returns true the whole chunk went in, once and in order, behind what was queued before; when it
  returns false the other side has gone, and what it took is still a prefix of what was to be
  sent.
\<close>

theorem stream_write_sends_whole_chunks:
  assumes "stream_write v chunk e = Some (whole, e')" "plan_of pushes_nothing e"
    and "stream_inv (fe_queue e)"
  shows "let before = fe_taken e @ body_of (items (fe_queue e)) in
    prefix (fe_taken e') (before @ chunk) \<and>
    (if whole then cancelled (fe_queue e') \<or> fe_taken e' @ body_of (items (fe_queue e')) = before @ chunk
     else cancelled (fe_queue e') \<or> ended (fe_queue e'))"
proof -
  let ?before = "fe_taken e @ body_of (items (fe_queue e))"
  have "flows (?before @ take 0 chunk) e"
    using assms(3) by (simp add: flows_def)
  then obtain n where n: "flows (?before @ take n chunk) e'"
    "if whole then n = length chunk else n < length chunk \<and> (cancelled (fe_queue e') \<or> ended (fe_queue e'))"
    using write_from_flows [OF assms(1) [unfolded stream_write_def] assms(2)] by blast
  have "prefix (fe_taken e') (?before @ take n chunk)"
    using n(1) by (simp add: flows_def)
  also have "prefix \<dots> (?before @ chunk)"
    by (simp add: take_is_prefix)
  finally have "prefix (fe_taken e') (?before @ chunk)" .
  then show ?thesis
    using n by (auto simp: Let_def flows_def split: if_splits)
qed

section \<open>Readers\<close>

text \<open>
  The other side of a reader: anything but taking; a body that arrives whole is neither
  cancelled nor failed, nor held back by a pause.
\<close>

definition source_op :: "bool \<Rightarrow> stream_op \<Rightarrow> bool" where
  "source_op arrives_whole op \<longleftrightarrow>
     (case op of
        Op_take_next \<Rightarrow> False
      | Op_cancel \<Rightarrow> \<not> arrives_whole
      | Op_push_failure _ \<Rightarrow> \<not> arrives_whole
      | Op_set_paused _ \<Rightarrow> \<not> arrives_whole
      | _ \<Rightarrow> True)"

definition healthy :: "response_stream \<Rightarrow> bool" where
  "healthy s \<longleftrightarrow> \<not> cancelled s \<and> \<not> paused s \<and> list_all (\<lambda>i. \<not> (\<exists>error. i = Failed error)) (items s)"

text \<open>Time passes: more arrives, and nothing after the end.\<close>

definition later :: "fiber_end \<Rightarrow> fiber_end \<Rightarrow> bool" where
  "later e0 e \<longleftrightarrow>
     prefix (fe_arrived e0) (fe_arrived e) \<and>
     (ended (fe_queue e0) \<longrightarrow> ended (fe_queue e) \<and> fe_arrived e = fe_arrived e0)"

text \<open>The bytes \<open>r\<close> read so far and those queued are what arrived.\<close>

definition reading :: "bool \<Rightarrow> fiber_end \<Rightarrow> bytes \<Rightarrow> fiber_end \<Rightarrow> bool" where
  "reading arrives_whole e0 r e \<longleftrightarrow>
     stream_inv (fe_queue e) \<and> later e0 e \<and> prefix r (fe_arrived e) \<and>
     (cancelled (fe_queue e) \<or> r @ body_of (items (fe_queue e)) = fe_arrived e) \<and>
     (arrives_whole \<longrightarrow> healthy (fe_queue e))"

lemma later_refl [simp]: "later e e"
  by (simp add: later_def)

lemma later_trans: "later e0 e1 \<Longrightarrow> later e1 e2 \<Longrightarrow> later e0 e2"
  by (auto simp: later_def intro: prefix_order.order_trans)

lemma later_other: "later e (other_acts op e)"
  by (auto simp: later_def other_acts_def stream_stays_ended ended_accepts_nothing)

lemma healthy_other: "source_op True op \<Longrightarrow> healthy s \<Longrightarrow> healthy (stream_act op s)"
  by (cases op) (auto simp: source_op_def healthy_def stream_ops Let_def)

lemma source_hands_out_nothing: "source_op h op \<Longrightarrow> stream_hands_out op s = []"
  by (cases op) (simp_all add: source_op_def stream_hands_out_def)

lemma reading_other:
  assumes op: "source_op h op" and e: "reading h e0 r e"
  shows "reading h e0 r (other_acts op e)"
proof -
  let ?s = "fe_queue e" and ?s' = "stream_act op (fe_queue e)"
  have arrived: "fe_arrived (other_acts op e) = fe_arrived e @ body_of (stream_accepts op ?s)"
    and queue: "fe_queue (other_acts op e) = ?s'"
    by (simp_all add: other_acts_def)
  have "later e0 (other_acts op e)"
    using e later_other [of e op] by (auto simp: reading_def intro: later_trans)
  moreover have "prefix r (fe_arrived (other_acts op e))"
    using e by (auto simp: arrived reading_def intro: prefix_prefix)
  moreover have "cancelled ?s' \<or> r @ body_of (items ?s') = fe_arrived (other_acts op e)"
  proof (cases "cancelled ?s'")
    case False
    then have "items ?s' = items ?s @ stream_accepts op ?s"
      using stream_live_fifo [of op ?s] source_hands_out_nothing [OF op, of ?s] by simp
    moreover have "\<not> cancelled ?s"
      using False stream_stays_cancelled by blast
    ultimately show ?thesis
      using e by (simp add: arrived reading_def)
  qed simp
  moreover have "h \<longrightarrow> healthy ?s'"
    using e op healthy_other [of op ?s] by (auto simp: reading_def)
  moreover have "stream_inv ?s'"
    using e by (simp add: reading_def stream_wf.inv_act)
  ultimately show ?thesis
    by (simp add: reading_def queue)
qed

definition read_now :: "bytes option rb_read \<Rightarrow> bytes" where
  "read_now r = (case r of Inr (Some chunk) \<Rightarrow> chunk | _ \<Rightarrow> [])"

lemma take_next_changes:
  assumes "take_next s = (r, s')"
  shows "cancelled s' = cancelled s" "ended s' = ended s" "paused s' = paused s"
    and "items s = (case r of None \<Rightarrow> [] | Some i \<Rightarrow> [i]) @ items s'"
  using assms by (auto simp: take_next_def split: if_splits list.splits stream_item.splits)

lemma next_chunk_reading:
  assumes e: "reading h e0 r e" and chunk: "next_chunk lookup (fe_queue e) = (a, b, s)"
  shows "reading h e0 (r @ read_now a) (e\<lparr>fe_queue := s, fe_plan := plan\<rparr>) \<and> (h \<longrightarrow> (\<forall>x. a \<noteq> Inl x))"
proof -
  obtain i s' where taken: "take_next (fe_queue e) = (i, s')"
    by fastforce
  then have s: "s = s'"
    using chunk by (auto simp: next_chunk_def split: option.splits)
  note parts = take_next_changes [OF taken]
  have a: "read_now a = body_of (case i of None \<Rightarrow> [] | Some i \<Rightarrow> [i])"
    using chunk taken by (auto simp: next_chunk_def read_now_def split: option.splits stream_item.splits)
  have body: "body_of (items (fe_queue e)) = read_now a @ body_of (items s)"
    unfolding parts(4) a s by simp
  have gone: "read_now a = [] \<and> items s = []" if "cancelled (fe_queue e)"
    using e that a parts(4) by (auto simp: reading_def stream_inv_def s split: option.splits)
  have "prefix (r @ read_now a) (fe_arrived e)"
    using e gone body by (cases "cancelled (fe_queue e)") (auto simp: reading_def intro!: prefixI [of _ _ "body_of (items s)"])
  moreover have "stream_inv s"
    using e taken s stream_inv_take_next [of "fe_queue e"] by (simp add: reading_def)
  moreover have "healthy (fe_queue e) \<Longrightarrow> healthy s \<and> (\<forall>x. a \<noteq> Inl x)"
    using chunk taken parts s
    by (auto simp: healthy_def next_chunk_def split: option.splits stream_item.splits)
  ultimately show ?thesis
    using e body gone parts s by (auto simp: reading_def later_def)
qed

lemma ask_next_chunk_reading:
  assumes "ask_next_chunk lookup e = Some (a, e')" "plan_of (source_op h) e" "reading h e0 r e"
  shows "reading h e0 (r @ read_now a) e'" "h \<Longrightarrow> a \<noteq> Inl x" "plan_of (source_op h) e'"
proof -
  let ?Q = "\<lambda>y. reading h e0 (r @ read_now a) y \<and> (h \<longrightarrow> (\<forall>x. a \<noteq> Inl x))"
  have step: "?Q (y\<lparr>fe_queue := s, fe_plan := plan\<rparr>)"
    if "reading h e0 r y" "(let (r, _, s1) = next_chunk lookup (fe_queue y) in (r, s1)) = (a, s)" for y s plan
    using that next_chunk_reading [of h e0 r y lookup a _ s plan] by (auto split: prod.splits)
  note rule = atomically_rule [where P = "reading h e0 r" and Q = ?Q, OF assms(1) [unfolded ask_next_chunk_def] assms(2,3)
      reading_other step]
  show "reading h e0 (r @ read_now a) e'" "h \<Longrightarrow> a \<noteq> Inl x" "plan_of (source_op h) e'"
    using rule(1) rule(2) by blast+
qed

lemma ask_finished_reading:
  assumes "ask_finished e = Some (b, e')" "plan_of (source_op h) e" "reading h e0 r e"
  shows "reading h e0 r e'" "plan_of (source_op h) e'"
    "b \<Longrightarrow> cancelled (fe_queue e') \<or> ended (fe_queue e') \<and> r = fe_arrived e'"
proof -
  let ?Q = "\<lambda>y. reading h e0 r y \<and> (b \<longrightarrow> cancelled (fe_queue y) \<or> ended (fe_queue y) \<and> r = fe_arrived y)"
  have step: "?Q (y\<lparr>fe_queue := s, fe_plan := plan\<rparr>)"
    if "reading h e0 r y" "(source_finished (fe_queue y), fe_queue y) = (b, s)" for y s plan
    using that
    by (auto simp: reading_def later_def source_finished_def is_finished_def stream_inv_def queued_bytes_body)
  note rule = atomically_rule [where P = "reading h e0 r" and Q = ?Q, OF assms(1) [unfolded ask_finished_def] assms(2,3)
      reading_other step]
  show "reading h e0 r e'" "plan_of (source_op h) e'"
    "b \<Longrightarrow> cancelled (fe_queue e') \<or> ended (fe_queue e') \<and> r = fe_arrived e'"
    using rule(1) rule(2) by blast+
qed

lemma park_on_reading:
  assumes "park_on source_park v e = Some e'" "plan_of (source_op h) e" "reading h e0 r e"
  shows "reading h e0 r e'" "plan_of (source_op h) e'"
  by (rule park_on_rule [where P = "reading h e0 r", OF assms reading_other];
      auto simp: reading_def later_def healthy_def source_park_def end_unpark_def park_def unpark_def stream_inv_def
        split: if_splits)+

lemma each_chunk_reading:
  "each_chunk lookup v yielded e = Some (chunks, raised, e') \<Longrightarrow> plan_of (source_op h) e \<Longrightarrow>
   reading h e0 (concat yielded) e \<Longrightarrow>
   reading h e0 (concat chunks) e' \<and>
   (raised = None \<longrightarrow> cancelled (fe_queue e') \<or> ended (fe_queue e') \<and> concat chunks = fe_arrived e')"
proof (induction lookup v yielded e rule: each_chunk.induct)
  case (1 lookup v yielded e)
  note unfolded = each_chunk.simps [of lookup v yielded e]
  obtain a e1 where e1: "ask_next_chunk lookup e = Some (a, e1)"
    using "1.prems"(1) by (auto simp: unfolded split: option.splits)
  note r1 = ask_next_chunk_reading [OF e1 "1.prems"(2,3)]
  consider raised1 where "a = Inl raised1" | chunk where "a = Inr (Some chunk)" | "a = Inr None"
    by (cases a) auto
  then show ?case
  proof cases
    case 1
    then show ?thesis
      using "1.prems"(1) e1 r1(1) by (auto simp: unfolded read_now_def)
  next
    case (2 chunk)
    then show ?thesis
      using "1.prems"(1) e1 r1(1,3) "1.IH"(2) [OF e1 refl 2 refl] by (simp add: unfolded read_now_def)
  next
    case 3
    then have quiet: "reading h e0 (concat yielded) e1" "plan_of (source_op h) e1"
      using r1 by (simp_all add: read_now_def)
    obtain b e2 where e2: "ask_finished e1 = Some (b, e2)"
      using "1.prems"(1) e1 3 by (auto simp: unfolded split: option.splits)
    note r2 = ask_finished_reading [OF e2 quiet(2,1)]
    show ?thesis
    proof (cases b)
      case True
      then show ?thesis
        using "1.prems"(1) e1 3 e2 r2 by (auto simp: unfolded)
    next
      case False
      then obtain e3 where e3: "park_on source_park v e2 = Some e3"
        using "1.prems"(1) e1 3 e2 by (auto simp: unfolded split: option.splits)
      have "each_chunk lookup v yielded e3 = Some (chunks, raised, e')"
        using "1.prems"(1) e1 3 e2 e3 False by (simp add: unfolded)
      then show ?thesis
        using "1.IH"(1) [OF e1 refl 3 refl e2 refl _ e3] False park_on_reading [OF e3 r2(2,1)] by simp
    qed
  qed
qed

text \<open>
  Whatever the worker does and whenever it does it, the chunks \<open>UpstreamBody#each\<close>
  yields are what the upstream sent, in order and without a gap; when it returns
  without raising, nothing that arrived is missing unless the stream was cancelled.
\<close>

theorem each_yields_what_arrived:
  assumes "each_chunk lookup v [] e = Some (chunks, raised, e')" "plan_of (source_op False) e"
    and "stream_inv (fe_queue e)" "fe_arrived e = body_of (items (fe_queue e))"
  shows "prefix (concat chunks) (fe_arrived e') \<and>
    (raised = None \<longrightarrow> cancelled (fe_queue e') \<or> ended (fe_queue e') \<and> concat chunks = fe_arrived e')"
  using each_chunk_reading [OF assms(1,2), of e] assms(3,4) by (simp add: reading_def)

definition fresh_end :: "nat \<Rightarrow> stream_op list list \<Rightarrow> fiber_end" where
  "fresh_end n plan = \<lparr> fe_queue = new_stream n, fe_plan = plan, fe_arrived = [], fe_taken = [] \<rparr>"

text \<open>
  A failure is only raised when it is queued before the chunk queue is found empty.  One
  that arrives after \<open>next_chunk\<close> returned nil and before \<open>finished?\<close> is asked ends the loop as a
  complete response would end it, with the failure still queued: for the reader a truncated
  answer is then a whole one.
\<close>

theorem failure_between_two_questions_is_lost:
  "(\<exists>e'. each_chunk lookup v [] (fresh_end 8 [[Op_push_chunk ''ab''], [], [Op_push_failure error]]) =
     Some ([''ab''], None, e') \<and> items (fe_queue e') = [Failed error]) \<and>
   (\<exists>e'. each_chunk lookup v [] (fresh_end 8 [[Op_push_chunk ''ab''], [Op_push_failure error]]) =
     Some ([''ab''], Some (upstream_error lookup error), e'))"
  by (simp add: each_chunk.simps asks park_on_def atomically_def elsewhere_def other_acts_def fresh_end_def new_stream_def
      next_chunk_def source_finished_def source_park_def end_unpark_def is_finished_def stream_ops Let_def)

section \<open>Once the end has been queued\<close>

text \<open>The end is queued and \<open>k\<close> items are left: nothing is added any more.\<close>

definition settled :: "nat \<Rightarrow> fiber_end \<Rightarrow> bool" where
  "settled k e \<longleftrightarrow>
     ended (fe_queue e) \<and> healthy (fe_queue e) \<and> stream_inv (fe_queue e) \<and> length (items (fe_queue e)) = k"

lemma settled_other: "source_op True op \<Longrightarrow> settled k e \<Longrightarrow> settled k (other_acts op e)"
  using stream_live_fifo [of op "fe_queue e"] healthy_other [of op "fe_queue e"]
  by (auto simp: settled_def other_acts_def stream_stays_ended stream_wf.inv_act ended_accepts_nothing
      source_hands_out_nothing healthy_def)

lemma atomically_returns: "fe_plan e \<noteq> [] \<Longrightarrow> \<exists>a e'. atomically f e = Some (a, e')"
  by (auto simp: atomically_def Let_def neq_Nil_conv split: prod.splits)

lemma settled_next_chunk:
  assumes "settled k e" "plan_of (source_op True) e" "fe_plan e \<noteq> []"
  shows "\<exists>a e'. ask_next_chunk lookup e = Some (a, e') \<and> settled (k - 1) e' \<and> (k = 0 \<longrightarrow> a = Inr None)"
proof -
  obtain a e' where e': "ask_next_chunk lookup e = Some (a, e')"
    using atomically_returns [OF assms(3), of "\<lambda>s. let (r, _, s1) = next_chunk lookup s in (r, s1)"]
    unfolding ask_next_chunk_def by blast
  let ?Q = "\<lambda>y. settled (k - 1) y \<and> (k = 0 \<longrightarrow> a = Inr None)"
  have step: "?Q (y\<lparr>fe_queue := s, fe_plan := plan\<rparr>)"
    if "settled k y" "(let (r, _, s1) = next_chunk lookup (fe_queue y) in (r, s1)) = (a, s)" for y s plan
    using that stream_inv_take_next [of "fe_queue y"]
    by (auto simp: settled_def next_chunk_def take_next_def healthy_def neq_Nil_conv split: list.splits stream_item.splits)
  have "?Q e'"
    by (rule atomically_rule(1) [where P = "settled k" and Q = ?Q,
          OF e' [unfolded ask_next_chunk_def] assms(2,1) settled_other step]; assumption)
  with e' show ?thesis
    by blast
qed

lemma settled_finished:
  assumes "settled k e" "plan_of (source_op True) e" "fe_plan e \<noteq> []"
  shows "\<exists>b e'. ask_finished e = Some (b, e') \<and> settled k e' \<and> (k = 0 \<longrightarrow> b)"
proof -
  obtain b e' where e': "ask_finished e = Some (b, e')"
    using atomically_returns [OF assms(3), of "\<lambda>s. (source_finished s, s)"] unfolding ask_finished_def by blast
  let ?Q = "\<lambda>y. settled k y \<and> (k = 0 \<longrightarrow> b)"
  have step: "?Q (y\<lparr>fe_queue := s, fe_plan := plan\<rparr>)"
    if "settled k y" "(source_finished (fe_queue y), fe_queue y) = (b, s)" for y s plan
    using that by (auto simp: settled_def source_finished_def is_finished_def stream_inv_def)
  have "?Q e'"
    by (rule atomically_rule(1) [where P = "settled k" and Q = ?Q,
          OF e' [unfolded ask_finished_def] assms(2,1) settled_other step]; assumption)
  with e' show ?thesis
    by blast
qed

text \<open>A queue that has ended refuses to let a reader wait.\<close>

lemma settled_park:
  assumes "settled k e" "plan_of (source_op True) e" "fe_plan e \<noteq> []"
  shows "\<exists>e'. park_on source_park v e = Some e' \<and> settled k e' \<and> length (fe_plan e) = Suc (length (fe_plan e'))"
proof -
  obtain b e' where e': "atomically (source_park v) e = Some (b, e')"
    using atomically_returns [OF assms(3), of "source_park v"] by blast
  let ?Q = "\<lambda>y. settled k y \<and> \<not> b"
  have step: "?Q (y\<lparr>fe_queue := s, fe_plan := plan\<rparr>)" if "settled k y" "source_park v (fe_queue y) = (b, s)" for y s plan
    using that by (auto simp: settled_def source_park_def park_def)
  have "?Q e'"
    by (rule atomically_rule(1) [where P = "settled k" and Q = ?Q, OF e' assms(2,1) settled_other step]; assumption)
  then show ?thesis
    using e' atomically_plan [OF e'] by (simp add: park_on_def)
qed

end
