(* ===== verification/Rack_Input.thy ===== *)
theory Rack_Input
  imports Fiber_Waiting "HOL-Library.Code_Target_Nat"
begin

text \<open>
  The Rack input of a request whose body is still arriving (src/ruby/request_body.rb): every
  byte pulled from the chunk queue is kept, in memory up to a limit and in a
  temporary file beyond it, and a read that outruns the client waits on the queue.

  Offsets and lengths are in bytes; the queue's chunks are binary strings, and a
  separator is ASCII or binary, so \<open>index\<close> counts bytes.  A buffer passed to \<open>read\<close> is
  replaced by the result it returns and is left out; the temporary file gives back
  what was written to it until it is closed.  The fiber and the other thread meet
  as in the theory of a waiting fiber: \<^term>\<open>None\<close> means that the plan ended before the method
  returned.
\<close>

section \<open>State\<close>

definition READ_SIZE :: nat where
  "READ_SIZE = 64 * 1024"

definition KEPT_IN_MEMORY :: nat where
  "KEPT_IN_MEMORY = 128 * 1024"

text \<open>The file is open or closed.\<close>

datatype kept_body =
    In_memory bytes
  | In_file bytes bool

primrec kept_bytes :: "kept_body \<Rightarrow> bytes" where
  "kept_bytes (In_memory bs) = bs"
| "kept_bytes (In_file bs is_open) = bs"

text \<open>\<open>ri_attached\<close> is false once the chunks were handed to another reader.\<close>

record rack_input =
  ri_attached :: bool
  ri_kept :: kept_body
  ri_size :: nat
  ri_position :: nat

definition new_input :: rack_input where
  "new_input = \<lparr> ri_attached = True, ri_kept = In_memory [], ri_size = 0, ri_position = 0 \<rparr>"

definition unread :: "rack_input \<Rightarrow> nat" where
  "unread i = ri_size i - ri_position i"

definition closed_stream :: ruby_exception where
  "closed_stream = \<lparr> exc_class = ''IOError'', exc_message = ''closed stream'' \<rparr>"

definition handed_over :: ruby_exception where
  "handed_over = \<lparr> exc_class = ''IOError'', exc_message = ''rack.input was handed to the response stream'' \<rparr>"

section \<open>Keeping and looking\<close>

definition keep :: "bytes \<Rightarrow> rack_input \<Rightarrow> rack_input rb_read" where
  "keep chunk i =
     (let kept = (case ri_kept i of
                    In_memory bs \<Rightarrow> if ri_size i + length chunk > KEPT_IN_MEMORY then In_file bs True else In_memory bs
                  | In_file bs is_open \<Rightarrow> In_file bs is_open)
      in case kept of
           In_memory bs \<Rightarrow> Inr (i\<lparr>ri_kept := In_memory (bs @ chunk), ri_size := ri_size i + length chunk\<rparr>)
         | In_file bs is_open \<Rightarrow>
             if is_open then Inr (i\<lparr>ri_kept := In_file (bs @ chunk) True, ri_size := ri_size i + length chunk\<rparr>)
             else Inl closed_stream)"

definition peek :: "nat \<Rightarrow> nat \<Rightarrow> rack_input \<Rightarrow> bytes rb_read" where
  "peek offset len i =
     (let len1 = min len (ri_size i - offset)
      in if len1 = 0 then Inr []
         else case ri_kept i of
                In_memory bs \<Rightarrow> Inr (take len1 (drop offset bs))
              | In_file bs is_open \<Rightarrow> if is_open then Inr (take len1 (drop offset bs)) else Inl closed_stream)"

definition take_bytes :: "nat \<Rightarrow> rack_input \<Rightarrow> bytes rb_read \<times> rack_input" where
  "take_bytes len i =
     (case peek (ri_position i) len i of
        Inl raised \<Rightarrow> (Inl raised, i)
      | Inr bs \<Rightarrow> (Inr bs, i\<lparr>ri_position := ri_position i + length bs\<rparr>))"

text \<open>\<open>String#index\<close>: where a string first starts in another.\<close>

fun index_of :: "bytes \<Rightarrow> bytes \<Rightarrow> nat option" where
  "index_of sep [] = (if sep = [] then Some 0 else None)"
| "index_of sep (b # bs) = (if prefix sep (b # bs) then Some 0 else map_option Suc (index_of sep bs))"

text \<open>The search goes window by window; consecutive windows overlap by the separator less one byte.\<close>

function search :: "bytes \<Rightarrow> nat \<Rightarrow> rack_input \<Rightarrow> nat option rb_read" where
  "search sep from i =
     (if from < ri_size i
      then case peek from (READ_SIZE + length sep - 1) i of
             Inl raised \<Rightarrow> Inl raised
           | Inr window \<Rightarrow>
               (case index_of sep window of
                  Some index \<Rightarrow> Inr (Some (from + index))
                | None \<Rightarrow> search sep (from + READ_SIZE) i)
      else Inr None)"
  by pat_completeness auto
termination
  by (relation "measure (\<lambda>(_, from, i). ri_size i - from)") (auto simp: READ_SIZE_def)

declare search.simps [simp del]

section \<open>Waiting for more\<close>

function pull :: "class_lookup \<Rightarrow> rack_input \<Rightarrow> fiber_end \<Rightarrow> (ruby_exception option \<times> rack_input \<times> fiber_end) option" where
  "pull lookup i e =
     (case ask_next_chunk lookup e of
        None \<Rightarrow> None
      | Some (Inl raised, e1) \<Rightarrow> Some (Some raised, i, e1)
      | Some (Inr None, e1) \<Rightarrow> Some (None, i, e1)
      | Some (Inr (Some chunk), e1) \<Rightarrow>
          (case keep chunk i of
             Inl raised \<Rightarrow> Some (Some raised, i, e1)
           | Inr i1 \<Rightarrow> pull lookup i1 e1))"
  by pat_completeness auto
termination
  by (relation "measure (\<lambda>(_, _, e). length (fe_plan e))") (auto dest!: ask_plan)

declare pull.simps [simp del]

lemma pull_plan: "pull lookup i e = Some (r, i', e') \<Longrightarrow> length (fe_plan e') < length (fe_plan e)"
proof (induction lookup i e rule: pull.induct)
  case (1 lookup i e)
  obtain a e1 where e1: "ask_next_chunk lookup e = Some (a, e1)"
    using "1.prems" by (auto simp: pull.simps [of lookup i e] split: option.splits)
  have "e' = e1 \<or> length (fe_plan e') < length (fe_plan e1)"
  proof (cases a)
    case (Inr c)
    then show ?thesis
      using "1.prems" e1 "1.IH" [OF e1 refl Inr]
      by (auto simp: pull.simps [of lookup i e] split: option.splits sum.splits)
  qed (use "1.prems" e1 in \<open>simp add: pull.simps [of lookup i e]\<close>)
  then show ?case
    using ask_plan(1) [OF e1] by auto
qed

text \<open>
  \<open>fill\<close> with a block \<open>enough || @chunks.finished?\<close>; the block of \<open>gets\<close> has variables of its own, which \<open>st\<close>
  carries.
\<close>

function fill_loop ::
    "class_lookup \<Rightarrow> variable \<Rightarrow> ('st \<Rightarrow> rack_input \<Rightarrow> (bool \<times> 'st) rb_read) \<Rightarrow> 'st \<Rightarrow> rack_input \<Rightarrow> fiber_end
       \<Rightarrow> ('st rb_read \<times> rack_input \<times> fiber_end) option" where
  "fill_loop lookup v enough st i e =
     (case pull lookup i e of
        None \<Rightarrow> None
      | Some (Some raised, i1, e1) \<Rightarrow> Some (Inl raised, i1, e1)
      | Some (None, i1, e1) \<Rightarrow>
          (case enough st i1 of
             Inl raised \<Rightarrow> Some (Inl raised, i1, e1)
           | Inr (True, st1) \<Rightarrow> Some (Inr st1, i1, e1)
           | Inr (False, st1) \<Rightarrow>
               (case ask_finished e1 of
                  None \<Rightarrow> None
                | Some (True, e2) \<Rightarrow> Some (Inr st1, i1, e2)
                | Some (False, e2) \<Rightarrow>
                    (case park_on source_park v e2 of
                       None \<Rightarrow> None
                     | Some e3 \<Rightarrow> fill_loop lookup v enough st1 i1 e3))))"
  by pat_completeness auto
termination
  by (relation "measure (\<lambda>(_, _, _, _, _, e). length (fe_plan e))") (auto dest!: ask_plan park_on_plan pull_plan)

declare fill_loop.simps [simp del]

definition fill ::
    "class_lookup \<Rightarrow> variable \<Rightarrow> ('st \<Rightarrow> rack_input \<Rightarrow> (bool \<times> 'st) rb_read) \<Rightarrow> 'st \<Rightarrow> rack_input \<Rightarrow> fiber_end
       \<Rightarrow> ('st rb_read \<times> rack_input \<times> fiber_end) option" where
  "fill lookup v enough st i e =
     (if ri_attached i then fill_loop lookup v enough st i e else Some (Inl handed_over, i, e))"

section \<open>The methods an application calls\<close>

definition filled ::
    "('st rb_read \<times> rack_input \<times> fiber_end) option \<Rightarrow> ('st \<Rightarrow> rack_input \<Rightarrow> rb_value rb_read \<times> rack_input)
       \<Rightarrow> (rb_value rb_read \<times> rack_input \<times> fiber_end) option" where
  "filled outcome reply =
     (case outcome of
        None \<Rightarrow> None
      | Some (Inl raised, i, e) \<Rightarrow> Some (Inl raised, i, e)
      | Some (Inr st, i, e) \<Rightarrow> (let (r, i1) = reply st i in Some (r, i1, e)))"

definition give_bytes :: "nat \<Rightarrow> rack_input \<Rightarrow> rb_value rb_read \<times> rack_input" where
  "give_bytes len i = (let (r, i1) = take_bytes len i in (map_sum id Rb_str r, i1))"

definition until_finished :: "unit \<Rightarrow> rack_input \<Rightarrow> (bool \<times> unit) rb_read" where
  "until_finished st i = Inr (False, ())"

definition until_length :: "nat \<Rightarrow> unit \<Rightarrow> rack_input \<Rightarrow> (bool \<times> unit) rb_read" where
  "until_length len st i = Inr (unread i \<ge> len, ())"

definition read_all :: "class_lookup \<Rightarrow> variable \<Rightarrow> rack_input \<Rightarrow> fiber_end \<Rightarrow> (rb_value rb_read \<times> rack_input \<times> fiber_end) option" where
  "read_all lookup v i e = filled (fill lookup v until_finished () i e) (\<lambda>_ i1. give_bytes (unread i1) i1)"

text \<open>\<open>shown\<close> is the text of the number in the message.\<close>

definition input_read ::
    "(int \<Rightarrow> string) \<Rightarrow> class_lookup \<Rightarrow> variable \<Rightarrow> int option \<Rightarrow> rack_input \<Rightarrow> fiber_end
       \<Rightarrow> (rb_value rb_read \<times> rack_input \<times> fiber_end) option" where
  "input_read shown lookup v len i e =
     (case len of
        None \<Rightarrow> read_all lookup v i e
      | Some n \<Rightarrow>
          if n < 0
          then Some (Inl \<lparr> exc_class = ''ArgumentError'', exc_message = ''negative length '' @ shown n \<rparr>, i, e)
          else if n = 0 then Some (Inr (Rb_str []), i, e)
          else filled (fill lookup v (until_length (nat n)) () i e) (\<lambda>_ i1.
                 if unread i1 = 0 then (Inr Rb_nil, i1) else give_bytes (min (nat n) (unread i1)) i1))"

text \<open>
  The block of \<open>gets\<close>: what was found, and where the next search starts, which is behind what was already
  searched but for a separator that may have begun at its end.
\<close>

definition until_found :: "bytes \<Rightarrow> nat option \<times> nat \<Rightarrow> rack_input \<Rightarrow> (bool \<times> nat option \<times> nat) rb_read" where
  "until_found sep st i =
     map_sum id (\<lambda>found. (found \<noteq> None, found, max (ri_size i + 1 - length sep) (ri_position i)))
       (search sep (snd st) i)"

definition gets ::
    "class_lookup \<Rightarrow> variable \<Rightarrow> bytes option \<Rightarrow> rack_input \<Rightarrow> fiber_end \<Rightarrow> (rb_value rb_read \<times> rack_input \<times> fiber_end) option" where
  "gets lookup v separator i e =
     (case separator of
        None \<Rightarrow>
          filled (fill lookup v until_finished () i e) (\<lambda>_ i1.
            if unread i1 = 0 then (Inr Rb_nil, i1) else give_bytes (unread i1) i1)
      | Some sep \<Rightarrow>
          filled (fill lookup v (until_found sep) (None, ri_position i) i e) (\<lambda>(found, _) i1.
            if unread i1 = 0 then (Inr Rb_nil, i1)
            else give_bytes (case found of Some f \<Rightarrow> f + length sep - ri_position i1 | None \<Rightarrow> unread i1) i1))"

lemma fill_loop_plan:
  "fill_loop lookup v enough st i e = Some (r, i', e') \<Longrightarrow> length (fe_plan e') < length (fe_plan e)"
proof (induction lookup v enough st i e rule: fill_loop.induct)
  case (1 lookup v enough st i e)
  then show ?case
    by (auto simp: fill_loop.simps [of lookup v enough st i e] dest!: pull_plan park_on_plan ask_plan
        split: option.splits sum.splits bool.splits) (fastforce dest: park_on_plan)+
qed

lemma input_read_plan:
  "0 < n \<Longrightarrow> input_read shown lookup v (Some n) i e = Some (Inr r, i', e') \<Longrightarrow> length (fe_plan e') < length (fe_plan e)"
  by (auto simp: input_read_def filled_def fill_def dest: fill_loop_plan split: option.splits sum.splits if_splits prod.splits)

text \<open>\<open>each\<close>: the chunks yielded, then what a read raised, if one did.\<close>

function input_each ::
    "(int \<Rightarrow> string) \<Rightarrow> class_lookup \<Rightarrow> variable \<Rightarrow> rb_value list \<Rightarrow> rack_input \<Rightarrow> fiber_end
       \<Rightarrow> (rb_value list \<times> ruby_exception option \<times> rack_input \<times> fiber_end) option" where
  "input_each shown lookup v yielded i e =
     (case input_read shown lookup v (Some (int READ_SIZE)) i e of
        None \<Rightarrow> None
      | Some (Inl raised, i1, e1) \<Rightarrow> Some (yielded, Some raised, i1, e1)
      | Some (Inr chunk, i1, e1) \<Rightarrow>
          if chunk = Rb_nil then Some (yielded, None, i1, e1)
          else input_each shown lookup v (yielded @ [chunk]) i1 e1)"
  by pat_completeness auto
termination
  by (relation "measure (\<lambda>(_, _, _, _, _, e). length (fe_plan e))")
    (auto dest!: input_read_plan [rotated] simp: READ_SIZE_def)

declare input_each.simps [simp del]

definition rewind :: "rack_input \<Rightarrow> rack_input" where
  "rewind i = i\<lparr>ri_position := 0\<rparr>"

definition input_close :: "rack_input \<Rightarrow> rack_input" where
  "input_close i =
     i\<lparr>ri_kept := (case ri_kept i of In_memory bs \<Rightarrow> In_memory bs | In_file bs _ \<Rightarrow> In_file bs False)\<rparr>"

text \<open>The leftover, or what taking it raised; the chunk queue goes to whoever asked.\<close>

definition detach :: "rack_input \<Rightarrow> bytes rb_read \<times> rack_input" where
  "detach i =
     (let (leftover, i1) = (if unread i = 0 then (Inr [], i) else take_bytes (unread i) i)
      in case leftover of
           Inl raised \<Rightarrow> (Inl raised, i1)
         | Inr bs \<Rightarrow> (Inr bs, input_close (i1\<lparr>ri_attached := False\<rparr>)))"

section \<open>The kept bytes\<close>

definition content :: "rack_input \<Rightarrow> bytes" where
  "content i = kept_bytes (ri_kept i)"

definition input_inv :: "rack_input \<Rightarrow> bool" where
  "input_inv i \<longleftrightarrow>
     ri_attached i \<and> ri_size i = length (content i) \<and> ri_position i \<le> ri_size i \<and>
     (case ri_kept i of In_memory bs \<Rightarrow> length bs \<le> KEPT_IN_MEMORY | In_file bs is_open \<Rightarrow> is_open)"

lemma input_inv_new: "input_inv new_input" and content_new [simp]: "content new_input = []"
  by (simp_all add: input_inv_def new_input_def content_def)

lemma keep_appends:
  assumes "input_inv i"
  shows "\<exists>i'. keep chunk i = Inr i' \<and> input_inv i' \<and> content i' = content i @ chunk \<and> ri_position i' = ri_position i"
proof (cases "ri_kept i")
  case (In_memory bs)
  then show ?thesis
    using assms by (cases "KEPT_IN_MEMORY < ri_size i + length chunk") (simp_all add: keep_def input_inv_def content_def)
next
  case (In_file bs is_open)
  then show ?thesis
    using assms by (simp add: keep_def input_inv_def content_def)
qed

lemma peek_slices: "input_inv i \<Longrightarrow> peek offset len i = Inr (take len (drop offset (content i)))"
  by (auto simp: peek_def input_inv_def content_def Let_def min_def split: kept_body.splits)

lemma take_bytes_slices:
  "input_inv i \<Longrightarrow> take_bytes len i =
     (Inr (take len (drop (ri_position i) (content i))), i\<lparr>ri_position := ri_position i + min len (unread i)\<rparr>)"
  by (simp add: take_bytes_def peek_slices unread_def) (simp add: input_inv_def min.commute)

section \<open>Searching by windows\<close>

lemma prefix_take: "prefix sep xs \<longleftrightarrow> take (length sep) xs = sep"
  by (metis append_eq_conv_conj prefix_def take_is_prefix)

lemma prefix_window:
  assumes "sep \<noteq> []"
  shows "prefix sep (drop j (take m xs)) \<longleftrightarrow> prefix sep (drop j xs) \<and> j + length sep \<le> m"
proof (cases "j + length sep \<le> m")
  case True
  then show ?thesis
    by (simp add: prefix_take drop_take min_absorb1)
next
  case False
  then have "length (drop j (take m xs)) < length sep"
    using assms by (cases "j \<le> m") auto
  with False show ?thesis
    using prefix_length_le leD by blast
qed

lemma index_of_None: "sep \<noteq> [] \<Longrightarrow> index_of sep xs = None \<longleftrightarrow> (\<forall>j. \<not> prefix sep (drop j xs))"
proof (induction xs)
  case (Cons b xs)
  have "(\<forall>j. \<not> prefix sep (drop j (b # xs))) \<longleftrightarrow> \<not> prefix sep (b # xs) \<and> (\<forall>j. \<not> prefix sep (drop j xs))"
    by (metis drop0 drop_Suc_Cons not0_implies_Suc)
  then show ?case
    using Cons by simp
qed simp

lemma index_of_Some:
  "sep \<noteq> [] \<Longrightarrow> index_of sep xs = Some k \<longleftrightarrow> prefix sep (drop k xs) \<and> (\<forall>j<k. \<not> prefix sep (drop j xs))"
proof (induction xs arbitrary: k)
  case (Cons b xs)
  then show ?case
    by (cases k) (auto simp: less_Suc_eq_0_disj)
qed simp

text \<open>Cutting off the front, where nothing starts, or the end, behind what was found.\<close>

lemma index_of_skip:
  assumes "sep \<noteq> []" "\<And>j. j < n \<Longrightarrow> \<not> prefix sep (drop j xs)"
  shows "index_of sep xs = map_option ((+) n) (index_of sep (drop n xs))"
proof (cases "index_of sep (drop n xs)")
  case None
  have "\<not> prefix sep (drop j xs)" for j
    using assms None index_of_None [OF assms(1), of "drop n xs"] by (cases "j < n") (auto simp: not_less dest: spec [of _ "j - n"])
  then have "index_of sep xs = None"
    using index_of_None [OF assms(1)] by blast
  with None show ?thesis
    by simp
next
  case (Some k)
  then have k: "prefix sep (drop (n + k) xs)" "\<And>j. j < k \<Longrightarrow> \<not> prefix sep (drop (n + j) xs)"
    using assms(1) by (simp_all add: index_of_Some add.commute)
  have "\<not> prefix sep (drop j xs)" if "j < n + k" for j
    using that assms(2) [of j] k(2) [of "j - n"] by (cases "j < n") auto
  then have "index_of sep xs = Some (n + k)"
    using k(1) index_of_Some [OF assms(1)] by blast
  with Some show ?thesis
    by simp
qed

lemma index_of_window:
  assumes "sep \<noteq> []"
  shows "index_of sep (take m xs) = Some k \<longleftrightarrow> index_of sep xs = Some k \<and> k + length sep \<le> m"
  using assms by (auto simp: index_of_Some prefix_window)

lemma search_finds_first:
  assumes "input_inv i" "sep \<noteq> []"
  shows "search sep at i = Inr (map_option ((+) at) (index_of sep (drop at (content i))))"
  using assms
proof (induction sep at i rule: search.induct)
  case (1 sep at i)
  let ?rest = "drop at (content i)" and ?m = "READ_SIZE + length sep - 1"
  note unfolded = search.simps [of sep at i] peek_slices [OF "1.prems"(1)]
  show ?case
  proof (cases "at < ri_size i")
    case False
    then have "?rest = []"
      using "1.prems"(1) by (simp add: input_inv_def)
    then show ?thesis
      using False "1.prems"(2) by (simp add: unfolded)
  next
    case True
    show ?thesis
    proof (cases "index_of sep (take ?m ?rest)")
      case (Some k)
      then have "index_of sep ?rest = Some k"
        using index_of_window "1.prems"(2) by blast
      then show ?thesis
        using True Some by (simp add: unfolded)
    next
      case None
      have "\<not> prefix sep (drop j ?rest)" if "j < READ_SIZE" for j
        using None that "1.prems"(2) index_of_None [of sep "take ?m ?rest"] prefix_window [of sep j ?m ?rest] by auto
      then have "index_of sep ?rest = map_option ((+) READ_SIZE) (index_of sep (drop READ_SIZE ?rest))"
        using "1.prems"(2) by (intro index_of_skip)
      then show ?thesis
        using True None "1.IH" [OF True _ None] "1.prems"
        by (simp add: unfolded option.map_comp comp_def add.commute add.left_commute)
    qed
  qed
qed

section \<open>Waiting keeps every byte\<close>

lemma pull_keeps:
  "pull lookup i e = Some (r, i', e') \<Longrightarrow> input_inv i \<Longrightarrow> plan_of (source_op True) e \<Longrightarrow> reading True e0 (content i) e \<Longrightarrow>
   r = None \<and> input_inv i' \<and> plan_of (source_op True) e' \<and> reading True e0 (content i') e' \<and>
   prefix (content i) (content i') \<and> ri_position i' = ri_position i"
proof (induction lookup i e rule: pull.induct)
  case (1 lookup i e)
  note unfolded = pull.simps [of lookup i e]
  obtain a e1 where e1: "ask_next_chunk lookup e = Some (a, e1)"
    using "1.prems"(1) by (auto simp: unfolded split: option.splits)
  note r1 = ask_next_chunk_reading [OF e1 "1.prems"(3,4)]
  show ?case
  proof (cases a)
    case (Inr c)
    show ?thesis
    proof (cases c)
      case None
      then show ?thesis
        using "1.prems" e1 Inr r1 by (simp add: unfolded read_now_def)
    next
      case (Some chunk)
      obtain i1 where i1: "keep chunk i = Inr i1" "input_inv i1" "content i1 = content i @ chunk" "ri_position i1 = ri_position i"
        using keep_appends [OF "1.prems"(2)] by blast
      then show ?thesis
        using "1.prems"(1) e1 Inr Some r1 "1.IH" [OF e1 refl Inr Some i1(1)]
        by (auto simp: unfolded read_now_def intro: append_prefixD)
    qed
  qed (use r1(2) in auto)
qed

text \<open>
  \<open>fill\<close> leaves with an answer of its block, or with the end of the body behind it.  \<open>Q\<close> is what the block's own variables
  mean; more bytes do not change it.
\<close>

lemma fill_loop_keeps:
  assumes "\<And>st i. input_inv i \<Longrightarrow> Q st i \<Longrightarrow> \<exists>b st1. enough st i = Inr (b, st1) \<and> (\<not> b \<longrightarrow> Q st1 i)"
    and "\<And>st i i'. Q st i \<Longrightarrow> input_inv i \<Longrightarrow> input_inv i' \<Longrightarrow> prefix (content i) (content i') \<Longrightarrow>
      ri_position i' = ri_position i \<Longrightarrow> Q st i'"
    and "fill_loop lookup v enough st i e = Some (r, i', e')" "input_inv i" "plan_of (source_op True) e"
    and "reading True e0 (content i) e" "Q st i"
  shows "input_inv i' \<and> plan_of (source_op True) e' \<and> reading True e0 (content i') e' \<and> ri_position i' = ri_position i \<and>
    (\<exists>st0 b st1. Q st0 i' \<and> enough st0 i' = Inr (b, st1) \<and> r = Inr st1 \<and>
      (b \<or> ended (fe_queue e') \<and> content i' = fe_arrived e'))"
  using assms
proof (induction lookup v enough st i e rule: fill_loop.induct)
  case (1 lookup v enough st i e)
  note block = "1.prems"(1) and more = "1.prems"(2) and filled = "1.prems"(3) and start = "1.prems"(4-7)
  note unfolded = fill_loop.simps [of lookup v enough st i e]
  obtain p i1 e1 where pulled: "pull lookup i e = Some (p, i1, e1)"
    using filled by (auto simp: unfolded split: option.splits)
  note kept = pull_keeps [OF pulled start(1-3)]
  then have Q1: "Q st i1"
    using more start(1,4) by blast
  obtain b st1 where b: "enough st i1 = Inr (b, st1)" "\<not> b \<longrightarrow> Q st1 i1"
    using block [of i1 st] kept Q1 by blast
  have pulled1: "pull lookup i e = Some (None, i1, e1)"
    using pulled kept by simp
  show ?case
  proof (cases b)
    case True
    then show ?thesis
      using filled pulled1 b kept Q1 by (auto simp: unfolded)
  next
    case False
    obtain f e2 where e2: "ask_finished e1 = Some (f, e2)"
      using filled pulled1 b False by (auto simp: unfolded split: option.splits)
    have r2: "reading True e0 (content i1) e2" "plan_of (source_op True) e2"
      "f \<Longrightarrow> cancelled (fe_queue e2) \<or> ended (fe_queue e2) \<and> content i1 = fe_arrived e2"
      using ask_finished_reading [OF e2, of True e0 "content i1"] kept by blast+
    show ?thesis
    proof (cases f)
      case True
      then have "r = Inr st1" "i' = i1" "e' = e2"
        using filled pulled1 b False e2 by (simp_all add: unfolded)
      moreover have "\<not> cancelled (fe_queue e2)"
        using r2(1) by (simp add: reading_def healthy_def)
      ultimately show ?thesis
        using True kept b Q1 r2 by auto
    next
      case f: False
      obtain e3 where e3: "park_on source_park v e2 = Some e3"
        using filled pulled1 b False e2 f by (auto simp: unfolded split: option.splits)
      have again: "fill_loop lookup v enough st1 i1 e3 = Some (r, i', e')"
        using filled pulled1 b False e2 e3 f by (simp add: unfolded)
      have "reading True e0 (content i1) e3" "plan_of (source_op True) e3"
        using park_on_reading [OF e3] r2(1,2) kept by blast+
      then show ?thesis
        using "1.IH" [OF pulled1 refl refl refl b(1) refl _ e2 refl _ e3 block more again] False f kept b by simp
    qed
  qed
qed

section \<open>A file that holds the whole body\<close>

text \<open>
  What the input promises: it behaves as a file open at its start that holds the whole body
  \<open>body\<close> already, read with the methods of the input.
\<close>

datatype input_op =
    Read "int option"
  | Gets "bytes option"
  | Each
  | Rewind

function slices :: "nat \<Rightarrow> bytes \<Rightarrow> bytes list" where
  "slices n bs = (if bs = [] \<or> n = 0 then [] else take n bs # slices n (drop n bs))"
  by pat_completeness auto
termination
  by (relation "measure (\<lambda>(n, bs). length bs)") auto

declare slices.simps [simp del]

definition file_act :: "(int \<Rightarrow> string) \<Rightarrow> input_op \<Rightarrow> bytes \<Rightarrow> nat \<Rightarrow> rb_value rb_read \<times> nat" where
  "file_act shown op body position =
     (let rest = drop position body;
          give = (\<lambda>n. (Inr (Rb_str (take n rest)), position + min n (length rest)))
      in case op of
           Read None \<Rightarrow> give (length rest)
         | Read (Some n) \<Rightarrow>
             if n < 0 then (Inl \<lparr> exc_class = ''ArgumentError'', exc_message = ''negative length '' @ shown n \<rparr>, position)
             else if n = 0 then (Inr (Rb_str []), position)
             else if rest = [] then (Inr Rb_nil, position)
             else give (nat n)
         | Gets separator \<Rightarrow>
             if rest = [] then (Inr Rb_nil, position)
             else (case Option.bind separator (\<lambda>sep. map_option ((+) (length sep)) (index_of sep rest)) of
                     Some n \<Rightarrow> give n
                   | None \<Rightarrow> give (length rest))
         | Each \<Rightarrow> (Inr (Rb_list (map Rb_str (slices READ_SIZE rest))), position + length rest)
         | Rewind \<Rightarrow> (Inr (Rb_int 0), 0))"

fun file_run :: "(int \<Rightarrow> string) \<Rightarrow> input_op list \<Rightarrow> bytes \<Rightarrow> nat \<Rightarrow> rb_value rb_read list" where
  "file_run shown [] body position = []"
| "file_run shown (op # ops) body position =
     (let (r, position1) = file_act shown op body position in r # file_run shown ops body position1)"

text \<open>The same methods of the input, one after the other.\<close>

definition input_act ::
    "(int \<Rightarrow> string) \<Rightarrow> class_lookup \<Rightarrow> variable \<Rightarrow> input_op \<Rightarrow> rack_input \<Rightarrow> fiber_end
       \<Rightarrow> (rb_value rb_read \<times> rack_input \<times> fiber_end) option" where
  "input_act shown lookup v op i e =
     (case op of
        Read len \<Rightarrow> input_read shown lookup v len i e
      | Gets separator \<Rightarrow> gets lookup v separator i e
      | Each \<Rightarrow>
          map_option (\<lambda>(yielded, raised, i1, e1).
              (case raised of None \<Rightarrow> Inr (Rb_list yielded) | Some x \<Rightarrow> Inl x, i1, e1))
            (input_each shown lookup v [] i e)
      | Rewind \<Rightarrow> Some (Inr (Rb_int 0), rewind i, e))"

fun input_run ::
    "(int \<Rightarrow> string) \<Rightarrow> class_lookup \<Rightarrow> variable \<Rightarrow> input_op list \<Rightarrow> rack_input \<Rightarrow> fiber_end
       \<Rightarrow> (rb_value rb_read list \<times> rack_input \<times> fiber_end) option" where
  "input_run shown lookup v [] i e = Some ([], i, e)"
| "input_run shown lookup v (op # ops) i e =
     (case input_act shown lookup v op i e of
        None \<Rightarrow> None
      | Some (r, i1, e1) \<Rightarrow> map_option (\<lambda>(rs, i2, e2). (r # rs, i2, e2)) (input_run shown lookup v ops i1 e1))"

text \<open>A body of which the bytes that arrived so far are the beginning, and all of it once the queue has ended.\<close>

definition whole_body :: "bytes \<Rightarrow> fiber_end \<Rightarrow> bool" where
  "whole_body body e \<longleftrightarrow>
     prefix (fe_arrived e) body \<and> (ended (fe_queue e) \<longrightarrow> body = fe_arrived e)"

lemma whole_body_earlier: "later e e' \<Longrightarrow> whole_body body e' \<Longrightarrow> whole_body body e"
  by (auto simp: later_def whole_body_def intro: prefix_order.order_trans)

text \<open>What a method of the input is to do.\<close>

definition input_state :: "rack_input \<Rightarrow> fiber_end \<Rightarrow> bool" where
  "input_state i e \<longleftrightarrow> input_inv i \<and> plan_of (source_op True) e \<and> reading True e (content i) e"

definition acts_as_file ::
    "(int \<Rightarrow> string) \<Rightarrow> input_op \<Rightarrow> rack_input \<Rightarrow> fiber_end \<Rightarrow> rb_value rb_read \<Rightarrow> rack_input \<Rightarrow> fiber_end \<Rightarrow> bool" where
  "acts_as_file shown op i e r i' e' \<longleftrightarrow>
     input_state i' e' \<and> later e e' \<and>
     (\<forall>body. whole_body body e' \<longrightarrow> file_act shown op body (ri_position i) = (r, ri_position i'))"

lemma give_bytes_slices:
  "input_inv i \<Longrightarrow> give_bytes n i =
     (Inr (Rb_str (take n (drop (ri_position i) (content i)))), i\<lparr>ri_position := ri_position i + min n (unread i)\<rparr>)"
  by (simp add: give_bytes_def take_bytes_slices)

lemma input_state_moves:
  "input_inv i \<Longrightarrow> plan_of (source_op True) e \<Longrightarrow> reading True e0 (content i) e \<Longrightarrow> p \<le> ri_size i \<Longrightarrow>
   input_state (i\<lparr>ri_position := p\<rparr>) e"
  by (simp add: input_state_def input_inv_def reading_def content_def)

text \<open>
  Filling, as its callers use it: the block says enough or the whole body is kept.
\<close>

lemma fill_keeps:
  assumes "fill lookup v enough st i e = Some (r, i', e')" "input_state i e" "Q st i"
    and "\<And>st i. input_inv i \<Longrightarrow> Q st i \<Longrightarrow> \<exists>b st1. enough st i = Inr (b, st1) \<and> (\<not> b \<longrightarrow> Q st1 i)"
    and "\<And>st i i'. Q st i \<Longrightarrow> input_inv i \<Longrightarrow> input_inv i' \<Longrightarrow> prefix (content i) (content i') \<Longrightarrow>
      ri_position i' = ri_position i \<Longrightarrow> Q st i'"
  obtains st0 b st1 where "input_state i' e'" "later e e'" "ri_position i' = ri_position i"
    "Q st0 i'" "enough st0 i' = Inr (b, st1)" "r = Inr st1"
    "\<And>body. whole_body body e' \<Longrightarrow> prefix (content i') body \<and> (b \<or> body = content i')"
proof -
  have loop: "fill_loop lookup v enough st i e = Some (r, i', e')"
    using assms(1,2) by (simp add: fill_def input_state_def input_inv_def)
  have begun: "input_inv i" "plan_of (source_op True) e" "reading True e (content i) e"
    using assms(2) by (simp_all add: input_state_def)
  have kept: "input_inv i' \<and> plan_of (source_op True) e' \<and> reading True e (content i') e' \<and> ri_position i' = ri_position i \<and>
    (\<exists>st0 b st1. Q st0 i' \<and> enough st0 i' = Inr (b, st1) \<and> r = Inr st1 \<and>
      (b \<or> ended (fe_queue e') \<and> content i' = fe_arrived e'))"
    by (rule fill_loop_keeps [where Q = Q, OF _ _ loop begun assms(3)]) (erule (1) assms(4), erule (4) assms(5))
  have "prefix (content i') body \<and> (b \<or> body = content i')"
    if "whole_body body e'" "b \<or> ended (fe_queue e') \<and> content i' = fe_arrived e'" for body b
    using that kept by (auto simp: whole_body_def reading_def intro: prefix_order.order_trans)
  moreover have "input_state i' e'" "later e e'"
    using kept by (auto simp: input_state_def reading_def)
  ultimately show ?thesis
    using kept that by blast
qed

section \<open>Every method acts as on the file\<close>

lemma unread_content: "input_inv i \<Longrightarrow> unread i = length (drop (ri_position i) (content i))"
  by (simp add: unread_def input_inv_def)

lemma input_state_inv: "input_state i e \<Longrightarrow> input_inv i"
  by (simp add: input_state_def)

lemma input_state_give:
  "input_state i e \<Longrightarrow> input_state (i\<lparr>ri_position := ri_position i + min n (unread i)\<rparr>) e"
  by (auto simp: input_state_def input_inv_def reading_def content_def unread_def)

text \<open>A fill and the answer behind it.\<close>

lemma filled_keeps:
  assumes "filled (fill lookup v enough st i e) reply = Some (r, i', e')" "input_state i e" "Q st i"
    and "\<And>st i. input_inv i \<Longrightarrow> Q st i \<Longrightarrow> \<exists>b st1. enough st i = Inr (b, st1) \<and> (\<not> b \<longrightarrow> Q st1 i)"
    and "\<And>st i i'. Q st i \<Longrightarrow> input_inv i \<Longrightarrow> input_inv i' \<Longrightarrow> prefix (content i) (content i') \<Longrightarrow>
      ri_position i' = ri_position i \<Longrightarrow> Q st i'"
  obtains i1 st0 b st1 where "input_state i1 e'" "later e e'" "ri_position i1 = ri_position i"
    "Q st0 i1" "enough st0 i1 = Inr (b, st1)" "reply st1 i1 = (r, i')"
    "\<And>body. whole_body body e' \<Longrightarrow> prefix (content i1) body \<and> (b \<or> body = content i1)"
proof -
  obtain f i1 e1 where f: "fill lookup v enough st i e = Some (f, i1, e1)"
    using assms(1) by (auto simp: filled_def split: option.splits)
  show ?thesis
  proof (rule fill_keeps [where Q = Q, OF f assms(2,3)])
    fix st0 b st1
    assume kept: "input_state i1 e1" "later e e1" "ri_position i1 = ri_position i"
      "Q st0 i1" "enough st0 i1 = Inr (b, st1)" "f = Inr st1"
      "\<And>body. whole_body body e1 \<Longrightarrow> prefix (content i1) body \<and> (b \<or> body = content i1)"
    then have "reply st1 i1 = (r, i')" "e1 = e'"
      using assms(1) f by (auto simp: filled_def split: prod.splits)
    then show ?thesis
      using kept that by blast
  qed (erule (1) assms(4), erule (4) assms(5))
qed

text \<open>Reading to the end.\<close>

lemma fill_to_the_end:
  assumes "filled (fill lookup v until_finished () i e) reply = Some (r, i', e')" "input_state i e"
  obtains i1 where "input_state i1 e'" "later e e'" "ri_position i1 = ri_position i" "reply () i1 = (r, i')"
    "\<And>body. whole_body body e' \<Longrightarrow> body = content i1"
  by (rule filled_keeps [where Q = "\<lambda>_ _. True", OF assms])
    (use that in \<open>auto simp: until_finished_def intro!: exI [of _ False]\<close>)

lemma read_all_acts:
  assumes "read_all lookup v i e = Some (r, i', e')" "input_state i e"
  shows "acts_as_file shown (Read None) i e r i' e'"
proof -
  obtain i1 where i1: "input_state i1 e'" "later e e'" "ri_position i1 = ri_position i" "give_bytes (unread i1) i1 = (r, i')"
    "\<And>body. whole_body body e' \<Longrightarrow> body = content i1"
    using fill_to_the_end [OF assms(1) [unfolded read_all_def] assms(2)] by blast
  note inv = input_state_inv [OF i1(1)]
  have "r = Inr (Rb_str (drop (ri_position i) (content i1)))" "i' = i1\<lparr>ri_position := ri_position i1 + min (unread i1) (unread i1)\<rparr>"
    using i1(4) by (auto simp: give_bytes_slices [OF inv] unread_content [OF inv] i1(3))
  then show ?thesis
    using i1 input_state_give [OF i1(1), of "unread i1"]
    by (simp add: acts_as_file_def file_act_def unread_content [OF inv] del: min.idem)
qed

lemma gets_all_acts:
  assumes "gets lookup v None i e = Some (r, i', e')" "input_state i e"
  shows "acts_as_file shown (Gets None) i e r i' e'"
proof -
  let ?reply = "\<lambda>_ i1. if unread i1 = 0 then (Inr Rb_nil, i1) else give_bytes (unread i1) i1"
  have read: "filled (fill lookup v until_finished () i e) ?reply = Some (r, i', e')"
    using assms(1) by (simp add: gets_def)
  obtain i1 where i1: "input_state i1 e'" "later e e'" "ri_position i1 = ri_position i" "?reply () i1 = (r, i')"
    "\<And>body. whole_body body e' \<Longrightarrow> body = content i1"
    using fill_to_the_end [OF read assms(2)] by blast
  note inv = input_state_inv [OF i1(1)]
  show ?thesis
    using i1 input_state_give [OF i1(1), of "unread i1"]
    by (auto simp: acts_as_file_def file_act_def unread_content [OF inv] give_bytes_slices [OF inv] split: if_splits)
qed

lemma read_some_acts:
  assumes "input_read shown lookup v (Some n) i e = Some (r, i', e')" "input_state i e"
  shows "acts_as_file shown (Read (Some n)) i e r i' e'"
proof (cases "n \<le> 0")
  case True
  then show ?thesis
    using assms by (auto simp: input_read_def acts_as_file_def file_act_def split: if_splits)
next
  case False
  let ?reply = "\<lambda>_ i1. if unread i1 = 0 then (Inr Rb_nil, i1) else give_bytes (min (nat n) (unread i1)) i1"
  have read: "filled (fill lookup v (until_length (nat n)) () i e) ?reply = Some (r, i', e')"
    using assms(1) False by (simp add: input_read_def)
  obtain i1 b where i1: "input_state i1 e'" "later e e'" "ri_position i1 = ri_position i"
    "b = (unread i1 \<ge> nat n)" "?reply () i1 = (r, i')"
    "\<And>body. whole_body body e' \<Longrightarrow> prefix (content i1) body \<and> (b \<or> body = content i1)"
    by (rule filled_keeps [where Q = "\<lambda>_ _. True", OF read assms(2)]) (auto simp: until_length_def)
  note inv = input_state_inv [OF i1(1)]
  have "file_act shown (Read (Some n)) body (ri_position i) = (r, ri_position i')" if whole: "whole_body body e'" for body
  proof -
    obtain more where more: "body = content i1 @ more" "b \<or> more = []"
      using i1(6) [OF whole] by (auto simp: prefix_def)
    have "ri_position i1 \<le> length (content i1)"
      using inv by (simp add: input_inv_def)
    then show ?thesis
      using False more i1(3,4,5)
      by (auto simp: file_act_def Let_def give_bytes_slices [OF inv] unread_content [OF inv] min_def split: if_splits)
  qed
  moreover have "input_state i' e'"
    using i1(1,5) input_state_give [OF i1(1)] by (auto simp: give_bytes_slices [OF inv] split: if_splits)
  ultimately show ?thesis
    using i1(2) by (simp add: acts_as_file_def)
qed

text \<open>
  Looking for a separator: nothing starts before the place the next search begins, and
  nothing that arrives later can change that.
\<close>

definition searched :: "bytes \<Rightarrow> nat option \<times> nat \<Rightarrow> rack_input \<Rightarrow> bool" where
  "searched sep st i \<longleftrightarrow>
     ri_position i \<le> snd st \<and>
     (\<forall>j. ri_position i \<le> j \<and> j < snd st \<longrightarrow> j + length sep \<le> ri_size i \<and> \<not> prefix sep (drop j (content i)))"

lemma searched_begins: "searched sep (found, ri_position i) i"
  by (auto simp: searched_def)

lemma searched_more:
  assumes "searched sep st i" "input_inv i" "input_inv i'" "prefix (content i) (content i')" "ri_position i' = ri_position i"
  shows "searched sep st i'"
proof -
  obtain more where more: "content i' = content i @ more"
    using assms(4) by (auto simp: prefix_def)
  have size: "ri_size i = length (content i)" "ri_size i' = length (content i @ more)"
    using assms(2,3) more by (simp_all add: input_inv_def)
  have "\<not> prefix sep (drop j (content i'))" if "j + length sep \<le> ri_size i" "\<not> prefix sep (drop j (content i))" for j
    using that size by (simp add: more prefix_take)
  then show ?thesis
    using assms(1,5) size by (fastforce simp: searched_def)
qed

lemma searched_finds_first:
  assumes "searched sep st i" "input_inv i" "sep \<noteq> []"
  shows "search sep (snd st) i = Inr (map_option ((+) (ri_position i)) (index_of sep (drop (ri_position i) (content i))))"
proof -
  let ?p = "ri_position i" and ?n = "snd st - ri_position i"
  have le: "?p \<le> snd st"
    using assms(1) by (simp add: searched_def)
  have "index_of sep (drop ?p (content i)) = map_option ((+) ?n) (index_of sep (drop ?n (drop ?p (content i))))"
    using assms(1,3) by (intro index_of_skip) (auto simp: searched_def add.commute)
  with le show ?thesis
    using search_finds_first [OF assms(2,3), of "snd st"] by (simp add: option.map_comp comp_def)
qed

lemma until_found_block:
  assumes "input_inv i" "searched sep st i" "sep \<noteq> []"
  shows "\<exists>b st1. until_found sep st i = Inr (b, st1) \<and> (\<not> b \<longrightarrow> searched sep st1 i)"
proof -
  let ?found = "index_of sep (drop (ri_position i) (content i))"
  have "searched sep (None, max (ri_size i + 1 - length sep) (ri_position i)) i" if "?found = None"
  proof -
    have "\<not> prefix sep (drop j (content i))" if "ri_position i \<le> j" for j
      using \<open>?found = None\<close> that index_of_None [OF assms(3), of "drop (ri_position i) (content i)"]
      by (auto dest: spec [of _ "j - ri_position i"])
    then show ?thesis
      by (auto simp: searched_def max_def split: if_splits)
  qed
  then show ?thesis
    using searched_finds_first [OF assms(2,1,3)] by (cases ?found) (auto simp: until_found_def)
qed

lemma index_of_more:
  assumes "index_of sep xs = Some k" "sep \<noteq> []"
  shows "index_of sep (xs @ ys) = Some k" "k + length sep \<le> length xs"
  using assms index_of_window [of sep "length xs" "xs @ ys" k] by auto

lemma gets_line_acts:
  assumes "gets lookup v (Some sep) i e = Some (r, i', e')" "input_state i e" "sep \<noteq> []"
  shows "acts_as_file shown (Gets (Some sep)) i e r i' e'"
proof -
  let ?reply = "\<lambda>(found, _) i1. if unread i1 = 0 then (Inr Rb_nil, i1)
    else give_bytes (case found of Some f \<Rightarrow> f + length sep - ri_position i1 | None \<Rightarrow> unread i1) i1"
  have read: "filled (fill lookup v (until_found sep) (None, ri_position i) i e) ?reply = Some (r, i', e')"
    using assms(1) by (simp add: gets_def)
  obtain i1 st0 b st1 where i1: "input_state i1 e'" "later e e'" "ri_position i1 = ri_position i"
    "searched sep st0 i1" "until_found sep st0 i1 = Inr (b, st1)" "?reply st1 i1 = (r, i')"
    "\<And>body. whole_body body e' \<Longrightarrow> prefix (content i1) body \<and> (b \<or> body = content i1)"
    by (rule filled_keeps [where Q = "searched sep", OF read assms(2) searched_begins])
      (erule (1) until_found_block [OF _ _ assms(3)], erule (4) searched_more, blast)
  note inv = input_state_inv [OF i1(1)]
  let ?rest = "drop (ri_position i) (content i1)"
  have found: "b = (index_of sep ?rest \<noteq> None)" "fst st1 = map_option ((+) (ri_position i)) (index_of sep ?rest)"
    using i1(3,5) searched_finds_first [OF i1(4) inv assms(3)] by (auto simp: until_found_def)
  define n where "n = (case index_of sep ?rest of Some k \<Rightarrow> k + length sep | None \<Rightarrow> length ?rest)"
  have n: "n \<le> length ?rest" "unread i1 = length ?rest"
    using index_of_more(2) [of sep ?rest _ , OF _ assms(3)] unread_content [OF inv] i1(3)
    by (auto simp: n_def split: option.splits)
  have answer: "(r, i') = (if ?rest = [] then (Inr Rb_nil, i1) else (Inr (Rb_str (take n ?rest)), i1\<lparr>ri_position := ri_position i1 + min n (unread i1)\<rparr>))"
    using i1(3,6) found(2) n(2)
    by (cases "index_of sep ?rest") (auto simp: n_def give_bytes_slices [OF inv] split: prod.splits if_splits)
  have "file_act shown (Gets (Some sep)) body (ri_position i) = (r, ri_position i')" if whole: "whole_body body e'" for body
  proof -
    obtain more where more: "body = content i1 @ more" "b \<or> more = []"
      using i1(7) [OF whole] by (auto simp: prefix_def)
    have rest: "drop (ri_position i) body = ?rest @ more"
      using inv i1(3) by (simp add: more(1) input_inv_def)
    show ?thesis
    proof (cases "index_of sep ?rest")
      case None
      then show ?thesis
        using found more answer n i1(3) unfolding file_act_def rest
        by (auto simp: Let_def n_def split: if_splits)
    next
      case (Some k)
      then have "?rest \<noteq> []"
        using assms(3) by auto
      with Some show ?thesis
        using index_of_more(1) [OF Some assms(3), of more] index_of_more(2) [OF Some assms(3)] answer n i1(3) unfolding file_act_def rest
        by (auto simp: Let_def n_def add.commute min_def)
    qed
  qed
  moreover have "input_state i' e'"
    using answer i1(1) input_state_give [OF i1(1)] by (auto split: if_splits)
  ultimately show ?thesis
    using i1(2) by (simp add: acts_as_file_def)
qed

lemma whole_body_arrived: "whole_body (fe_arrived e) e"
  by (simp add: whole_body_def)

lemma input_each_acts:
  "input_each shown lookup v yielded i e = Some (ys, raised, i', e') \<Longrightarrow> input_state i e \<Longrightarrow>
   raised = None \<and> input_state i' e' \<and> later e e' \<and>
   (\<forall>body. whole_body body e' \<longrightarrow>
      ys = yielded @ map Rb_str (slices READ_SIZE (drop (ri_position i) body)) \<and>
      ri_position i' = ri_position i + length (drop (ri_position i) body))"
proof (induction shown lookup v yielded i e rule: input_each.induct)
  case (1 shown lookup v yielded i e)
  note unfolded = input_each.simps [of shown lookup v yielded i e]
  obtain r i1 e1 where read: "input_read shown lookup v (Some (int READ_SIZE)) i e = Some (r, i1, e1)"
    using "1.prems"(1) by (auto simp: unfolded split: option.splits)
  have R: "0 < READ_SIZE"
    by (simp add: READ_SIZE_def)
  have step: "input_state i1 e1" "later e e1"
    "\<And>body. whole_body body e1 \<Longrightarrow> file_act shown (Read (Some (int READ_SIZE))) body (ri_position i) = (r, ri_position i1)"
    using read_some_acts [OF read "1.prems"(2)] by (simp_all add: acts_as_file_def)
  have answer: "(r, ri_position i1) =
      (if drop (ri_position i) body = [] then (Inr Rb_nil, ri_position i)
       else (Inr (Rb_str (take READ_SIZE (drop (ri_position i) body))),
             ri_position i + min READ_SIZE (length (drop (ri_position i) body))))" if "whole_body body e1" for body
    using step(3) [OF that] R by (auto simp: file_act_def Let_def split: if_splits)
  then obtain c where c: "r = Inr c"
    using answer [OF whole_body_arrived] by (auto split: if_splits)
  show ?case
  proof (cases "c = Rb_nil")
    case True
    then have ends: "ys = yielded" "raised = None" "i' = i1" "e' = e1"
      using "1.prems"(1) read c by (simp_all add: unfolded)
    have "drop (ri_position i) body = [] \<and> ri_position i1 = ri_position i" if "whole_body body e1" for body
      using answer [OF that] c True by (auto split: if_splits)
    then show ?thesis
      using ends step by (auto simp: slices.simps)
  next
    case False
    then have "input_each shown lookup v (yielded @ [c]) i1 e1 = Some (ys, raised, i', e')"
      using "1.prems"(1) read c by (simp add: unfolded)
    then have more: "raised = None" "input_state i' e'" "later e1 e'"
      "\<And>body. whole_body body e' \<Longrightarrow> ys = (yielded @ [c]) @ map Rb_str (slices READ_SIZE (drop (ri_position i1) body)) \<and>
        ri_position i' = ri_position i1 + length (drop (ri_position i1) body)"
      using "1.IH" [OF read refl c refl False] step(1) by blast+
    have "ys = yielded @ map Rb_str (slices READ_SIZE (drop (ri_position i) body)) \<and>
        ri_position i' = ri_position i + length (drop (ri_position i) body)" if whole: "whole_body body e'" for body
    proof -
      let ?rest = "drop (ri_position i) body"
      have now: "?rest \<noteq> []" "c = Rb_str (take READ_SIZE ?rest)" "ri_position i1 = ri_position i + min READ_SIZE (length ?rest)"
        using answer [OF whole_body_earlier [OF more(3) whole]] c False by (auto split: if_splits)
      have "drop (ri_position i1) body = drop READ_SIZE ?rest"
        using now(3) by (auto simp: min_def add.commute)
      then show ?thesis
        using more(4) [OF whole] now R by (auto simp: slices.simps [of READ_SIZE ?rest] min_def)
    qed
    then show ?thesis
      using more step(2) later_trans by blast
  qed
qed

definition separates :: "input_op \<Rightarrow> bool" where
  "separates op \<longleftrightarrow> op \<noteq> Gets (Some [])"

lemma input_act_acts:
  assumes "input_act shown lookup v op i e = Some (r, i', e')" "input_state i e" "separates op"
  shows "acts_as_file shown op i e r i' e'"
proof (cases op)
  case (Read len)
  then show ?thesis
    using assms read_some_acts read_all_acts by (cases len) (auto simp: input_act_def input_read_def)
next
  case (Gets separator)
  then show ?thesis
    using assms gets_all_acts gets_line_acts by (cases separator) (auto simp: input_act_def separates_def)
next
  case Each
  then obtain ys raised where each: "input_each shown lookup v [] i e = Some (ys, raised, i', e')"
    "r = (case raised of None \<Rightarrow> Inr (Rb_list ys) | Some x \<Rightarrow> Inl x)"
    using assms(1) by (auto simp: input_act_def)
  then show ?thesis
    using input_each_acts [OF each(1) assms(2)] Each by (simp add: acts_as_file_def file_act_def)
next
  case Rewind
  then show ?thesis
    using assms(1,2)
    by (auto simp: input_act_def rewind_def acts_as_file_def file_act_def Let_def input_state_def input_inv_def reading_def content_def)
qed

lemma input_run_acts:
  "input_run shown lookup v ops i e = Some (rs, i', e') \<Longrightarrow> input_state i e \<Longrightarrow> list_all separates ops \<Longrightarrow>
   input_state i' e' \<and> later e e' \<and> (\<forall>body. whole_body body e' \<longrightarrow> rs = file_run shown ops body (ri_position i))"
proof (induction ops arbitrary: i e rs)
  case (Cons op ops)
  obtain r i1 e1 rs1 where first: "input_act shown lookup v op i e = Some (r, i1, e1)"
    and rest: "input_run shown lookup v ops i1 e1 = Some (rs1, i', e')" and rs: "rs = r # rs1"
    using Cons.prems(1) by (auto split: option.splits)
  have step: "acts_as_file shown op i e r i1 e1"
    using input_act_acts [OF first Cons.prems(2)] Cons.prems(3) by simp
  then have IH: "input_state i' e'" "later e1 e'" "\<And>body. whole_body body e' \<Longrightarrow> rs1 = file_run shown ops body (ri_position i1)"
    using Cons.IH [OF rest] Cons.prems(3) by (simp_all add: acts_as_file_def)
  have "rs = file_run shown (op # ops) body (ri_position i)" if "whole_body body e'" for body
    using step IH(3) [OF that] whole_body_earlier [OF IH(2) that] rs by (simp add: acts_as_file_def)
  then show ?case
    using IH step later_trans [of e e1 e'] by (simp add: acts_as_file_def)
qed simp

lemma input_state_fresh: "list_all (list_all (source_op True)) plan \<Longrightarrow> input_state new_input (fresh_end n plan)"
  by (simp add: input_state_def input_inv_new plan_of_def fresh_end_def reading_def healthy_def new_stream_def stream_inv_def)

section \<open>Every method returns\<close>

text \<open>
  With the end queued and \<open>k\<close> items left, a pull takes at most one turn for each item it takes
  and one more, and a fill needs at most four for each item and two more.
\<close>

lemma pull_returns:
  "settled k e \<Longrightarrow> input_inv i \<Longrightarrow> plan_of (source_op True) e \<Longrightarrow> reading True e0 (content i) e \<Longrightarrow> k < length (fe_plan e) \<Longrightarrow>
   \<exists>i' e' k'. pull lookup i e = Some (None, i', e') \<and> settled k' e' \<and> k' \<le> k \<and> (0 < k \<longrightarrow> k' < k) \<and>
     length (fe_plan e) \<le> length (fe_plan e') + (k - k') + 1"
proof (induction k arbitrary: i e)
  case 0
  then obtain e1 where e1: "ask_next_chunk lookup e = Some (Inr None, e1)" "settled 0 e1"
    using settled_next_chunk [of 0 e lookup] by auto
  then show ?case
    using ask_plan(1) [OF e1(1)] by (auto simp: pull.simps [of lookup i e])
next
  case (Suc k)
  have "fe_plan e \<noteq> []"
    using Suc.prems(5) by auto
  then obtain a e1 where e1: "ask_next_chunk lookup e = Some (a, e1)" "settled k e1"
    using settled_next_chunk [OF Suc.prems(1,3), of lookup] by auto
  note turn = ask_plan(1) [OF e1(1)] and r1 = ask_next_chunk_reading [OF e1(1) Suc.prems(3,4)]
  consider "a = Inr None" | chunk where "a = Inr (Some chunk)"
    using r1(2) by (cases a) auto
  then show ?case
  proof cases
    case 1
    then show ?thesis
      using e1 turn by (auto simp: pull.simps [of lookup i e] intro!: exI [of _ k])
  next
    case (2 chunk)
    obtain i1 where i1: "keep chunk i = Inr i1" "input_inv i1" "content i1 = content i @ chunk"
      using keep_appends [OF Suc.prems(2)] by blast
    have "reading True e0 (content i1) e1" "k < length (fe_plan e1)"
      using r1(1) 2 i1(3) turn Suc.prems(5) by (simp_all add: read_now_def)
    then obtain i' e' k' where rest: "pull lookup i1 e1 = Some (None, i', e')" "settled k' e'" "k' \<le> k"
      "length (fe_plan e1) \<le> length (fe_plan e') + (k - k') + 1"
      using Suc.IH [OF e1(2) i1(2) r1(3)] by blast
    then show ?thesis
      using e1(1) 2 i1(1) turn by (auto simp: pull.simps [of lookup i e] intro!: exI [of _ k'])
  qed
qed

lemma fill_loop_returns:
  assumes block: "\<And>st i. input_inv i \<Longrightarrow> Q st i \<Longrightarrow> \<exists>b st1. enough st i = Inr (b, st1) \<and> (\<not> b \<longrightarrow> Q st1 i)"
    and more: "\<And>st i i'. Q st i \<Longrightarrow> input_inv i \<Longrightarrow> input_inv i' \<Longrightarrow> prefix (content i) (content i') \<Longrightarrow>
      ri_position i' = ri_position i \<Longrightarrow> Q st i'"
  shows "settled k e \<Longrightarrow> input_inv i \<Longrightarrow> plan_of (source_op True) e \<Longrightarrow> reading True e0 (content i) e \<Longrightarrow> Q st i \<Longrightarrow>
    4 * k + 2 \<le> length (fe_plan e) \<Longrightarrow> \<exists>x. fill_loop lookup v enough st i e = Some x"
proof (induction k arbitrary: st i e rule: less_induct)
  case (less k)
  note unfolded = fill_loop.simps [of lookup v enough st i e]
  obtain i1 e1 k1 where pulled: "pull lookup i e = Some (None, i1, e1)" "settled k1 e1" "k1 \<le> k" "0 < k \<longrightarrow> k1 < k"
    "length (fe_plan e) \<le> length (fe_plan e1) + (k - k1) + 1"
    using pull_returns [OF less.prems(1-4), of lookup] less.prems(6) by auto
  note kept = pull_keeps [OF pulled(1) less.prems(2-4)]
  have "Q st i1"
    using more less.prems(2,5) kept by blast
  then obtain b st1 where b: "enough st i1 = Inr (b, st1)" "\<not> b \<longrightarrow> Q st1 i1"
    using block [of i1 st] kept by blast
  have "fe_plan e1 \<noteq> []"
    using pulled less.prems(6) by auto
  then obtain f e2 where e2: "ask_finished e1 = Some (f, e2)" "settled k1 e2" "k1 = 0 \<longrightarrow> f"
    using settled_finished [OF pulled(2)] kept by blast
  note turn = ask_plan(2) [OF e2(1)]
  show ?case
  proof (cases "b \<or> f")
    case False
    then have k1: "0 < k1" "k1 < k"
      using e2(3) pulled(3,4) by auto
    have r2: "reading True e0 (content i1) e2" "plan_of (source_op True) e2"
      using ask_finished_reading [OF e2(1)] kept by blast+
    have "fe_plan e2 \<noteq> []"
      using turn k1 pulled(5) less.prems(6) by auto
    then obtain e3 where e3: "park_on source_park v e2 = Some e3" "settled k1 e3" "length (fe_plan e2) = Suc (length (fe_plan e3))"
      using settled_park [OF e2(2) r2(2)] by blast
    have "4 * k1 + 2 \<le> length (fe_plan e3)"
      using e3(3) turn k1 pulled(5) less.prems(6) by linarith
    then have "\<exists>x. fill_loop lookup v enough st1 i1 e3 = Some x"
      using less.IH [OF k1(2) e3(2)] kept park_on_reading [OF e3(1) r2(2,1)] b(2) False by blast
    then show ?thesis
      using pulled(1) b(1) e2(1) e3(1) False by (simp add: unfolded)
  qed (use pulled(1) b(1) e2(1) in \<open>cases b; auto simp: unfolded\<close>)
qed

lemma fill_returns:
  assumes "settled k e" "input_state i e" "4 * k + 2 \<le> length (fe_plan e)" "Q st i"
    and "\<And>st i. input_inv i \<Longrightarrow> Q st i \<Longrightarrow> \<exists>b st1. enough st i = Inr (b, st1) \<and> (\<not> b \<longrightarrow> Q st1 i)"
    and "\<And>st i i'. Q st i \<Longrightarrow> input_inv i \<Longrightarrow> input_inv i' \<Longrightarrow> prefix (content i) (content i') \<Longrightarrow>
      ri_position i' = ri_position i \<Longrightarrow> Q st i'"
  shows "filled (fill lookup v enough st i e) reply \<noteq> None"
proof -
  have begun: "input_inv i" "plan_of (source_op True) e" "reading True e (content i) e"
    using assms(2) by (simp_all add: input_state_def)
  have "\<exists>x. fill_loop lookup v enough st i e = Some x"
    by (rule fill_loop_returns [where Q = Q, OF _ _ assms(1) begun assms(4,3)]) (erule (1) assms(5), erule (4) assms(6))
  then show ?thesis
    using begun(1) by (auto simp: filled_def fill_def input_inv_def split: option.splits sum.splits prod.splits)
qed

lemma input_act_returns:
  assumes "settled k e" "input_state i e" "4 * k + 2 \<le> length (fe_plan e)" "separates op" "op \<noteq> Each"
  shows "input_act shown lookup v op i e \<noteq> None"
proof -
  have ending: "filled (fill lookup v until_finished () i e) reply \<noteq> None" for reply
    by (rule fill_returns [where Q = "\<lambda>_ _. True", OF assms(1-3)]) (auto simp: until_finished_def intro!: exI [of _ False])
  have length: "filled (fill lookup v (until_length n) () i e) reply \<noteq> None" for n reply
    by (rule fill_returns [where Q = "\<lambda>_ _. True", OF assms(1-3)]) (auto simp: until_length_def)
  have line: "filled (fill lookup v (until_found sep) (None, ri_position i) i e) reply \<noteq> None" if sep: "sep \<noteq> []" for sep reply
    by (rule fill_returns [where Q = "searched sep", OF assms(1-3)])
      (rule searched_begins, erule (1) until_found_block [OF _ _ sep], erule (4) searched_more)
  show ?thesis
  proof (cases op)
    case (Read len)
    then show ?thesis
      by (cases len) (simp_all add: input_act_def input_read_def read_all_def ending length del: not_None_eq)
  next
    case (Gets separator)
    then show ?thesis
      using assms(4)
      by (cases separator) (simp_all add: input_act_def gets_def separates_def ending line del: not_None_eq)
  qed (use assms(5) in \<open>simp_all add: input_act_def\<close>)
qed

section \<open>Properties\<close>

text \<open>
  C40. The Rack input of a body that is still arriving cannot be told from a file that holds the
  whole body: whatever the worker pushes and whenever, every sequence of reads, line reads,
  iterations and rewinds gives the application what the same sequence gives on the
  complete body, in memory only up to the limit; and once the worker has queued the end, every
  read returns.
\<close>

theorem input_acts_as_file:
  assumes "input_run shown lookup v ops new_input (fresh_end n plan) = Some (rs, i, e)"
    and "list_all (list_all (source_op True)) plan" "list_all separates ops" "whole_body body e"
  shows "rs = file_run shown ops body 0 \<and>
    (case ri_kept i of In_memory bs \<Rightarrow> length bs \<le> KEPT_IN_MEMORY | In_file bs is_open \<Rightarrow> is_open) \<and>
    (separates op \<and> op \<noteq> Each \<and> ended (fe_queue e) \<and> 4 * length (items (fe_queue e)) + 2 \<le> length (fe_plan e) \<longrightarrow>
       input_act shown lookup v op i e \<noteq> None)"
proof -
  have ran: "input_state i e" "rs = file_run shown ops body 0"
    using input_run_acts [OF assms(1) input_state_fresh [OF assms(2)] assms(3)] assms(4) by (auto simp: new_input_def)
  have "ended (fe_queue e) \<Longrightarrow> settled (length (items (fe_queue e))) e"
    using ran(1) by (simp add: settled_def input_state_def reading_def)
  then have "input_act shown lookup v op i e \<noteq> None"
    if "separates op" "op \<noteq> Each" "ended (fe_queue e)" "4 * length (items (fe_queue e)) + 2 \<le> length (fe_plan e)"
    using that ran(1) by (intro input_act_returns)
  then show ?thesis
    using ran by (auto simp: input_state_def input_inv_def)
qed

definition sample_plan :: "stream_op list list" where
  "sample_plan = [[Op_push_chunk ''ab''], [Op_push_chunk ''c''], [], [], [], [Op_push_chunk [CHR 0x0A, CHR ''d'']],
     [], [], [Op_push_end]] @ replicate 20 []"

definition sample_ops :: "input_op list" where
  "sample_ops = [Read (Some 1), Gets (Some [CHR 0x0A]), Rewind, Each, Read (Some 4), Gets None]"

definition sample_run :: "(rb_value rb_read list \<times> rack_input \<times> fiber_end) option" where
  "sample_run = input_run (\<lambda>_. []) Inr 2 sample_ops new_input (fresh_end 8 sample_plan)"

theorem input_acts_as_file_witness:
  "(let (rs, i, e) = the sample_run in
     rs = file_run (\<lambda>_. []) sample_ops (''abc'' @ [CHR 0x0A, CHR ''d'']) 0 \<and>
     input_act (\<lambda>_. []) Inr 2 (Read None) i e \<noteq> None) \<and>
   file_run (\<lambda>_. []) sample_ops (''abc'' @ [CHR 0x0A, CHR ''d'']) 0 =
     [Inr (Rb_str ''a''), Inr (Rb_str (''bc'' @ [CHR 0x0A])), Inr (Rb_int 0),
      Inr (Rb_list [Rb_str (''abc'' @ [CHR 0x0A, CHR ''d''])]), Inr Rb_nil, Inr Rb_nil]"
proof -
  have "case sample_run of None \<Rightarrow> False | Some (rs, i, e) \<Rightarrow>
      fe_arrived e = ''abc'' @ [CHR 0x0A, CHR ''d''] \<and> ended (fe_queue e) \<and>
      4 * length (items (fe_queue e)) + 2 \<le> length (fe_plan e)"
    by code_simp
  then obtain rs i e where run: "sample_run = Some (rs, i, e)" "fe_arrived e = ''abc'' @ [CHR 0x0A, CHR ''d'']"
    "ended (fe_queue e)" "4 * length (items (fe_queue e)) + 2 \<le> length (fe_plan e)"
    by (auto split: option.splits)
  have plan: "list_all (list_all (source_op True)) sample_plan" "list_all separates sample_ops"
    by code_simp+
  have result: "file_run (\<lambda>_. []) sample_ops (''abc'' @ [CHR 0x0A, CHR ''d'']) 0 =
     [Inr (Rb_str ''a''), Inr (Rb_str (''bc'' @ [CHR 0x0A])), Inr (Rb_int 0),
      Inr (Rb_list [Rb_str (''abc'' @ [CHR 0x0A, CHR ''d''])]), Inr Rb_nil, Inr Rb_nil]"
    by code_simp
  have whole: "whole_body (''abc'' @ [CHR 0x0A, CHR ''d'']) e"
    using whole_body_arrived [of e] run(2) by simp
  note acts = input_acts_as_file [OF run(1) [unfolded sample_run_def] plan whole, of "Read None"]
  have "the sample_run = (rs, i, e)"
    unfolding run(1) by (rule option.sel)
  with acts run(3,4) show ?thesis
    by (simp only: result Let_def prod.case separates_def input_op.distinct simp_thms)
qed

text \<open>
  Handing the rest of the body to a streaming response loses nothing: the leftover and what
  is still queued are what arrived behind the position read so far, and the input itself
  raises from then on.
\<close>

theorem detach_hands_over_the_rest:
  assumes "input_state i e" "detach i = (leftover, i')"
  shows "\<exists>bs. leftover = Inr bs \<and> bs @ body_of (items (fe_queue e)) = drop (ri_position i) (fe_arrived e) \<and>
    input_read shown lookup v None i' e = Some (Inl handed_over, i', e) \<and>
    gets lookup v separator i' e = Some (Inl handed_over, i', e)"
proof -
  note inv = input_state_inv [OF assms(1)]
  have "content i @ body_of (items (fe_queue e)) = fe_arrived e"
    using assms(1) by (auto simp: input_state_def reading_def healthy_def)
  moreover have "ri_position i \<le> length (content i)"
    using inv by (simp add: input_inv_def)
  ultimately have rest: "drop (ri_position i) (content i) @ body_of (items (fe_queue e)) = drop (ri_position i) (fe_arrived e)"
    by (metis drop_append diff_is_0_eq drop0)
  have "leftover = Inr (drop (ri_position i) (content i)) \<and> \<not> ri_attached i'"
    using assms(2) inv
    by (auto simp: detach_def take_bytes_slices input_close_def unread_content split: if_splits)
  then show ?thesis
    using rest
    by (auto simp: input_read_def read_all_def gets_def fill_def filled_def split: option.splits)
qed

end
