(* ===== verification/Serial_Runtime.thy ===== *)
theory Serial_Runtime
  imports Rack_Env Vm_Startup
begin

text \<open>
  The serial runtime (src/src/sync.rs): a client that queues commands and
  signals the wakeup socket, the owner thread that runs one request at a time, and
  the runtime's start and stop.

  A completion is named by the identity of the object it reports to.  What the
  operating system and the VM answer comes in as arguments; the application is
  the record \<^typ>\<open>('v, 'h, 'u) ruby\<close>, one for each call the thread has made, so
  that two calls may be answered differently.
\<close>

section \<open>The client\<close>

datatype ('q, 'k) serial_command =
    Serial_call 'q 'k
  | Serial_force_gc reply
  | Serial_shutdown reply

text \<open>The channel behind every client, and what the next signal answers.\<close>

record ('q, 'k) serial_client =
  sc_commands :: "('q, 'k) serial_command list"
  sc_receiver_alive :: bool
  sc_signal :: "(bridge_error, unit) result"

definition serial_send ::
    "('q, 'k) serial_command \<Rightarrow> ('q, 'k) serial_client \<Rightarrow> (bridge_error, unit) result \<times> ('q, 'k) serial_client" where
  "serial_send c sc =
     (if sc_receiver_alive sc then (sc_signal sc, sc\<lparr>sc_commands := sc_commands sc @ [c]\<rparr>)
      else (Inl RuntimeStopped, sc))"

definition serial_submit ::
    "'q \<Rightarrow> 'k \<Rightarrow> ('q, 'k) serial_client \<Rightarrow> (bridge_error, unit) result \<times> ('q, 'k) serial_client" where
  "serial_submit request k sc = serial_send (Serial_call request k) sc"

text \<open>\<open>received\<close> is what arrives on the reply channel within the response timeout.\<close>

definition serial_client_call ::
    "'q \<Rightarrow> 'k \<Rightarrow> (recv_timeout_error, (bridge_error, response) result) result \<Rightarrow> ('q, 'k) serial_client
       \<Rightarrow> (bridge_error, response) result \<times> ('q, 'k) serial_client" where
  "serial_client_call request reply received sc =
     (let (sent, sc1) = serial_submit request reply sc
      in (and_then sent (\<lambda>_. and_then (recv_reply received) id), sc1))"

definition serial_client_force_gc ::
    "reply \<Rightarrow> (recv_timeout_error, (bridge_error, unit) result) result \<Rightarrow> ('q, 'k) serial_client
       \<Rightarrow> (bridge_error, unit) result \<times> ('q, 'k) serial_client" where
  "serial_client_force_gc reply received sc =
     (let (sent, sc1) = serial_send (Serial_force_gc reply) sc
      in (and_then sent (\<lambda>_. and_then (recv_reply received) id), sc1))"

definition serial_request_shutdown ::
    "reply \<Rightarrow> (recv_timeout_error, unit) result \<Rightarrow> ('q, 'k) serial_client
       \<Rightarrow> (bridge_error, unit) result \<times> ('q, 'k) serial_client" where
  "serial_request_shutdown reply received sc =
     (let (sent, sc1) = serial_send (Serial_shutdown reply) sc
      in (and_then sent (\<lambda>_. map_sum map_recv_timeout id received), sc1))"

section \<open>The owner thread\<close>

text \<open>What the thread did to the outside, in order: completions it ran, collections, and replies it sent.\<close>

datatype 'k serial_deed =
    Completed_call 'k "(bridge_error, response) result"
  | Ran_gc
  | Replied_gc reply
  | Acknowledged reply

definition serial_context :: "'v prepared \<Rightarrow> 'v call_context" where
  "serial_context p =
     \<lparr> has_request_body_class = False, rack_errors = pr_rack_errors p,
       ruby_thread_object_id = runtime_info.ruby_thread_object_id (pr_info p),
       cc_concurrency = Serial, cc_extensions = False \<rparr>"

text \<open>
  The application as the thread meets it: how Ruby behaves during the nth call,
  with the clock readings of that call.
\<close>

record ('v, 'h, 'u) serial_app =
  sa_ruby :: "nat \<Rightarrow> ('v, 'h, 'u) ruby"
  sa_times :: "nat \<Rightarrow> call_times"

definition serve_one ::
    "('v, 'h, 'u) serial_app \<Rightarrow> 'v call_context \<Rightarrow> nat \<Rightarrow> ('h, 'u) request \<Rightarrow> (bridge_error, response) result" where
  "serve_one app ctx n request = rack_call (sa_ruby app n) ctx request (sa_times app n)"

text \<open>
  The inner loop over what \<open>try_recv\<close> finds; \<open>senders\<close> says whether a client is
  left when it finds nothing.  The flag says that the thread returns; \<open>n\<close> counts
  the calls made before.  Commands behind a shutdown are dropped with the channel.
\<close>

fun serial_commands ::
    "('v, 'h, 'u) serial_app \<Rightarrow> 'v call_context \<Rightarrow> bool \<Rightarrow> (('h, 'u) request, 'k) serial_command list \<Rightarrow> nat
       \<Rightarrow> bool \<times> nat \<times> 'k serial_deed list" where
  "serial_commands app ctx senders [] n = (\<not> senders, n, [])"
| "serial_commands app ctx senders (Serial_call request k # cs) n =
     (case serial_commands app ctx senders cs (n + 1) of
        (returned, m, deeds) \<Rightarrow> (returned, m, Completed_call k (serve_one app ctx n request) # deeds))"
| "serial_commands app ctx senders (Serial_force_gc reply # cs) n =
     (case serial_commands app ctx senders cs n of
        (returned, m, deeds) \<Rightarrow> (returned, m, Ran_gc # Replied_gc reply # deeds))"
| "serial_commands app ctx senders (Serial_shutdown reply # cs) n = (True, n, [Acknowledged reply])"

text \<open>
  One turn of the outer loop: what waiting on the socket answers, what reading
  it answers, and the commands then found.
\<close>

record ('q, 'k) serial_turn =
  st_wait :: "(string, unit) result"
  st_reads :: "io_answer list"
  st_commands :: "('q, 'k) serial_command list"
  st_senders :: bool

text \<open>\<^term>\<open>None\<close> says the thread has not returned after the turns given.\<close>

fun serial_loop ::
    "('v, 'h, 'u) serial_app \<Rightarrow> 'v call_context \<Rightarrow> (('h, 'u) request, 'k) serial_turn list \<Rightarrow> nat
       \<Rightarrow> (bridge_error, unit) result option \<times> 'k serial_deed list" where
  "serial_loop app ctx [] n = (None, [])"
| "serial_loop app ctx (t # ts) n =
     (case st_wait t of
        Inl error \<Rightarrow> (Some (Inl (ruby_error ''waiting for bridge wakeup'' error)), [])
      | Inr _ \<Rightarrow>
          (case drain (st_reads t) of
             None \<Rightarrow> (None, [])
           | Some (Inl error) \<Rightarrow> (Some (Inl error), [])
           | Some (Inr _) \<Rightarrow>
               (case serial_commands app ctx (st_senders t) (st_commands t) n of
                  (True, m, deeds) \<Rightarrow> (Some (Inr ()), deeds)
                | (False, m, deeds) \<Rightarrow>
                    (case serial_loop app ctx ts m of (result, rest) \<Rightarrow> (result, deeds @ rest)))))"

record 'k serial_outcome =
  so_result :: "(bridge_error, unit) result option"
  so_readiness :: "(bridge_error, runtime_info) result list"
  so_deeds :: "'k serial_deed list"

text \<open>
  The thread from its first line to its last, with the \<open>catch_unwind\<close> around it:
  a panic while the VM is prepared is reported on the readiness channel.
  \<open>listening\<close> says that the starter still waits for readiness.
\<close>

definition serial_main ::
    "('s, 'v) vm \<Rightarrow> string \<Rightarrow> ('v prepared \<Rightarrow> ('v, 'h, 'u) serial_app) \<Rightarrow> bool \<Rightarrow> string
       \<Rightarrow> (('h, 'u) request, 'k) serial_turn list \<Rightarrow> 's \<Rightarrow> 'k serial_outcome" where
  "serial_main vm thread app listening app_source turns s =
     (case prepare vm thread app_source s of
        (Inl (Halt_error e), _) \<Rightarrow>
          \<lparr> so_result = Some (Inl e), so_readiness = (if listening then [Inl e] else []), so_deeds = [] \<rparr>
      | (Inl (Halt_panic payload), _) \<Rightarrow>
          let e = RuntimePanicked (panic_message payload) in
          \<lparr> so_result = Some (Inl e), so_readiness = (if listening then [Inl e] else []), so_deeds = [] \<rparr>
      | (Inr prep, _) \<Rightarrow>
          if \<not> listening then
            \<lparr> so_result = Some (Inl (Startup ''starter dropped readiness channel'')), so_readiness = [], so_deeds = [] \<rparr>
          else
            let (result, deeds) = serial_loop (app prep) (serial_context prep) turns 0
            in \<lparr> so_result = result, so_readiness = [Inr (pr_info prep)], so_deeds = deeds \<rparr>)"

section \<open>Starting and stopping\<close>

record ruby_runtime =
  rr_client :: bool
  rr_info :: runtime_info
  rr_join :: bool

text \<open>What the operating system answers, and how the thread reports and ends.\<close>

record serial_start_env =
  sn_pair :: "(string, unit \<times> unit) result"
  sn_reader :: "(string, unit) result"
  sn_writer :: "(string, unit) result"
  sn_spawn :: "(string, unit) result"
  sn_signal :: "(bridge_error, unit) result"
  sn_ready :: "(bridge_error, runtime_info) result option"
  sn_joined :: "(panic_payload, (bridge_error, unit) result) result"

text \<open>A thread that ended without reporting is asked how it ended.\<close>

definition unreported :: "(panic_payload, (bridge_error, unit) result) result \<Rightarrow> bridge_error" where
  "unreported joined =
     (case joined of
        Inr (Inl error) \<Rightarrow> error
      | Inr (Inr _) \<Rightarrow> Startup ''runtime exited before reporting readiness''
      | Inl payload \<Rightarrow> RuntimePanicked (panic_message payload))"

definition ruby_runtime_start ::
    "serial_start_env \<Rightarrow> (bridge_error, ruby_runtime \<times> ('q, 'k) serial_client) result" where
  "ruby_runtime_start se =
     and_then (pair (sn_pair se) (sn_reader se) (sn_writer se)) (\<lambda>_.
     and_then (map_sum Spawn id (sn_spawn se)) (\<lambda>_.
     and_then (case sn_ready se of Some ready \<Rightarrow> ready | None \<Rightarrow> Inl (unreported (sn_joined se))) (\<lambda>info.
     Inr (\<lparr> rr_client = True, rr_info = info, rr_join = True \<rparr>,
          \<lparr> sc_commands = [], sc_receiver_alive = True, sc_signal = sn_signal se \<rparr>))))"

text \<open>\<open>client\<close> panics once the runtime was shut down: \<^term>\<open>None\<close>.\<close>

definition ruby_runtime_client :: "ruby_runtime \<Rightarrow> unit option" where
  "ruby_runtime_client rr = (if rr_client rr then Some () else None)"

text \<open>
  Both handles are taken.  The thread is joined even when it could not be told
  to stop, a panic of it is reported first, then what asking it answered.
\<close>

definition serial_shutdown_inner ::
    "reply \<Rightarrow> (recv_timeout_error, unit) result \<Rightarrow> (panic_payload, (bridge_error, unit) result) result
       \<Rightarrow> ruby_runtime \<Rightarrow> ('q, 'k) serial_client
       \<Rightarrow> (bridge_error, unit) result \<times> ruby_runtime \<times> ('q, 'k) serial_client" where
  "serial_shutdown_inner reply received joined rr sc =
     (let (shutdown_result, sc1) =
            (if rr_client rr then serial_request_shutdown reply received sc else (Inr (), sc));
          rr1 = rr\<lparr>rr_client := False, rr_join := False\<rparr>;
          join_result =
            (if rr_join rr then map_sum (\<lambda>payload. RuntimePanicked (panic_message payload)) id joined else Inr (Inr ()))
      in (and_then join_result (\<lambda>result. and_then shutdown_result (\<lambda>_. result)), rr1, sc1))"

text \<open>Dropping a runtime stops it, and ignores how that went.\<close>

definition drop_ruby_runtime ::
    "reply \<Rightarrow> (recv_timeout_error, unit) result \<Rightarrow> (panic_payload, (bridge_error, unit) result) result
       \<Rightarrow> ruby_runtime \<Rightarrow> ('q, 'k) serial_client \<Rightarrow> ruby_runtime \<times> ('q, 'k) serial_client" where
  "drop_ruby_runtime reply received joined rr sc = snd (serial_shutdown_inner reply received joined rr sc)"

section \<open>What the loop does\<close>

text \<open>The calls a list of commands holds up to the first shutdown, and the answers they get.\<close>

fun serial_calls :: "('q, 'k) serial_command list \<Rightarrow> ('q \<times> 'k) list" where
  "serial_calls [] = []"
| "serial_calls (Serial_call q k # cs) = (q, k) # serial_calls cs"
| "serial_calls (Serial_force_gc r # cs) = serial_calls cs"
| "serial_calls (Serial_shutdown r # cs) = []"

fun shutdown_reply :: "('q, 'k) serial_command list \<Rightarrow> reply option" where
  "shutdown_reply [] = None"
| "shutdown_reply (Serial_call q k # cs) = shutdown_reply cs"
| "shutdown_reply (Serial_force_gc r # cs) = shutdown_reply cs"
| "shutdown_reply (Serial_shutdown r # cs) = Some r"

fun answers_from ::
    "('v, 'h, 'u) serial_app \<Rightarrow> 'v call_context \<Rightarrow> nat \<Rightarrow> (('h, 'u) request \<times> 'k) list
       \<Rightarrow> ('k \<times> (bridge_error, response) result) list" where
  "answers_from app ctx n [] = []"
| "answers_from app ctx n ((q, k) # cs) = (k, serve_one app ctx n q) # answers_from app ctx (n + 1) cs"

definition completions :: "'k serial_deed list \<Rightarrow> ('k \<times> (bridge_error, response) result) list" where
  "completions deeds = concat (map (\<lambda>d. case d of Completed_call k r \<Rightarrow> [(k, r)] | _ \<Rightarrow> []) deeds)"

definition acknowledged :: "'k serial_deed list \<Rightarrow> reply list" where
  "acknowledged deeds = concat (map (\<lambda>d. case d of Acknowledged r \<Rightarrow> [r] | _ \<Rightarrow> []) deeds)"

lemma deeds_simps [simp]:
  "completions [] = []" "acknowledged [] = []"
  "completions (Completed_call k r # ds) = (k, r) # completions ds" "acknowledged (Completed_call k r # ds) = acknowledged ds"
  "completions (Ran_gc # ds) = completions ds" "acknowledged (Ran_gc # ds) = acknowledged ds"
  "completions (Replied_gc q # ds) = completions ds" "acknowledged (Replied_gc q # ds) = acknowledged ds"
  "completions (Acknowledged q # ds) = completions ds" "acknowledged (Acknowledged q # ds) = q # acknowledged ds"
  "completions (ds @ es) = completions ds @ completions es" "acknowledged (ds @ es) = acknowledged ds @ acknowledged es"
  by (simp_all add: completions_def acknowledged_def)

lemma serial_calls_append:
  "serial_calls (cs @ ds) = serial_calls cs @ (if shutdown_reply cs = None then serial_calls ds else [])"
  by (induction cs rule: serial_calls.induct) simp_all

lemma shutdown_reply_append: "shutdown_reply (cs @ ds) = or_else (shutdown_reply cs) (shutdown_reply ds)"
  by (induction cs rule: shutdown_reply.induct) simp_all

lemma answers_append: "answers_from app ctx n (xs @ ys) = answers_from app ctx n xs @ answers_from app ctx (n + length xs) ys"
  by (induction app ctx n xs rule: answers_from.induct) simp_all

lemma serial_commands_deeds:
  assumes "serial_commands app ctx senders cs n = (returned, m, deeds)"
  shows "completions deeds = answers_from app ctx n (serial_calls cs)"
    and "acknowledged deeds = (case shutdown_reply cs of None \<Rightarrow> [] | Some r \<Rightarrow> [r])"
    and "m = n + length (serial_calls cs)"
    and "returned \<longleftrightarrow> \<not> senders \<or> shutdown_reply cs \<noteq> None"
  using assms
  by (induction app ctx senders cs n arbitrary: returned m deeds rule: serial_commands.induct)
    (auto split: prod.splits)

text \<open>A turn in which the socket could be waited on and emptied, and a client is left.\<close>

definition healthy :: "('q, 'k) serial_turn \<Rightarrow> bool" where
  "healthy t \<longleftrightarrow> st_wait t = Inr () \<and> drain (st_reads t) = Some (Inr ()) \<and> st_senders t"

section \<open>Properties\<close>


text \<open>An application that answers every call with status 200, asked once before it is told to stop.\<close>

definition sample_serial :: "(nat, nat, nat) serial_app" where
  "sample_serial = \<lparr> sa_ruby = (\<lambda>n. sample_ruby), sa_times = (\<lambda>n. sample_times) \<rparr>"

definition sample_turns :: "((nat, nat) request, nat) serial_turn list" where
  "sample_turns =
     [\<lparr> st_wait = Inr (), st_reads = [Io_ok 1, WouldBlock],
        st_commands = [Serial_call (new_request ''GET'' ''/'' []) 3], st_senders = True \<rparr>,
      \<lparr> st_wait = Inr (), st_reads = [Interrupted, WouldBlock],
        st_commands = [Serial_force_gc 8, Serial_shutdown 9, Serial_call (new_request ''GET'' ''/late'' []) 4],
        st_senders = True \<rparr>]"


text \<open>
  Starting fails with the error the thread reported, or, when it reported
  nothing, with how it ended; so a runtime that started has the identity its VM gave.
\<close>

lemma serial_start_reports:
  assumes "ruby_runtime_start (se\<lparr>sn_ready := (case so_readiness out of [] \<Rightarrow> None | m # _ \<Rightarrow> Some m)\<rparr>) = Inr (rr, sc)"
    and "out = serial_main vm thread app True app_source turns s"
  shows "\<exists>prep s1. prepare vm thread app_source s = (Inr prep, s1) \<and> rr_info rr = pr_info prep \<and> sc_commands sc = []"
proof -
  obtain r s1 where prep: "prepare vm thread app_source s = (r, s1)"
    by (cases "prepare vm thread app_source s")
  show ?thesis
    using assms prep
    by (cases r)
      (auto simp: ruby_runtime_start_def serial_main_def Let_def result_simps split: halt.splits prod.splits)
qed

text \<open>A runtime is stopped once: a second stop finds no handles and succeeds.\<close>

lemma serial_shutdown_once:
  "serial_shutdown_inner reply received joined rr sc = (r, rr1, sc1) \<Longrightarrow>
   serial_shutdown_inner reply2 received2 joined2 rr1 sc1 = (Inr (), rr1, sc1)"
  by (auto simp: serial_shutdown_inner_def Let_def split: prod.splits if_splits)

end
