(* ===== verification/Serial_Filter.thy ===== *)
theory Serial_Filter
  imports Serial_Runtime Sample_Envoy
begin

text \<open>
  The module that serves Rack applications on the serial runtime
  (src/crates/ruvoy-envoy-sync/src): its configuration, which owns the runtime, and
  the filter, which collects a whole request, queues it, and sends the whole
  response when the owner thread reports it.

  The filter and the owner thread share a slot for the result, named by a
  number, and the scheduler that the completion commits to.
\<close>

section \<open>Configuration\<close>

definition flag_env :: "string \<Rightarrow> bytes option \<Rightarrow> (bridge_error, bool) result" where
  "flag_env name v =
     (case v of
        None \<Rightarrow> Inr False
      | Some value \<Rightarrow>
          if value = ''1'' then Inr True
          else if value = ''0'' then Inr False
          else Inl (Startup (name @ '' must be 0 or 1'')))"

record sync_rack_config =
  sg_diagnostics_enabled :: bool
  sg_runtime_thread_id :: string
  sg_runtime :: "ruby_runtime option"

definition sync_config_start ::
    "bytes option \<Rightarrow> serial_start_env \<Rightarrow> (bridge_error, sync_rack_config \<times> ('q, 'k) serial_client) result" where
  "sync_config_start diagnostics_var se =
     and_then (flag_env ''RUVOY_DIAGNOSTICS'' diagnostics_var) (\<lambda>enabled.
     and_then (ruby_runtime_start se) (\<lambda>(runtime, client).
     Inr (\<lparr> sg_diagnostics_enabled = enabled, sg_runtime_thread_id = rust_thread_id (rr_info runtime),
            sg_runtime = Some runtime \<rparr>, client)))"

text \<open>What the configuration writes to standard error when it goes away, if it still had a runtime.\<close>

definition drop_sync_config ::
    "reply \<Rightarrow> (recv_timeout_error, unit) result \<Rightarrow> (panic_payload, (bridge_error, unit) result) result
       \<Rightarrow> sync_rack_config \<Rightarrow> ('q, 'k) serial_client \<Rightarrow> string list \<times> sync_rack_config \<times> ('q, 'k) serial_client" where
  "drop_sync_config reply received joined sg sc =
     (case sg_runtime sg of
        None \<Rightarrow> ([], sg, sc)
      | Some runtime \<Rightarrow>
          (case serial_shutdown_inner reply received joined runtime sc of
             (Inr _, _, sc1) \<Rightarrow> ([''[ruvoy] Ruby runtime stopped''], sg\<lparr>sg_runtime := None\<rparr>, sc1)
           | (Inl error, _, sc1) \<Rightarrow>
               ([''[ruvoy] Ruby runtime shutdown failed: '' @ display_error error], sg\<lparr>sg_runtime := None\<rparr>, sc1)))"

definition sync_new_http_filter_config_fn ::
    "string \<Rightarrow> bytes option \<Rightarrow> serial_start_env \<Rightarrow> (sync_rack_config \<times> ('q, 'k) serial_client) option \<times> string list" where
  "sync_new_http_filter_config_fn name diagnostics_var se =
     (if name \<noteq> ''sync_rack'' then (None, [])
      else case sync_config_start diagnostics_var se of
             Inr config \<Rightarrow> (Some config, [])
           | Inl error \<Rightarrow> (None, [''[ruvoy] failed to start Ruby runtime: '' @ display_error error]))"

section \<open>The filter's state\<close>

definition SYNC_RESPONSE_EVENT_ID :: u64 where
  "SYNC_RESPONSE_EVENT_ID = 1"

definition MAX_REQUEST_BODY_BYTES :: nat where
  "MAX_REQUEST_BODY_BYTES = 2 * 1024 * 1024"

datatype sync_state = Sync_collecting | Sync_waiting | Sync_responded

type_synonym sync_request = "(nat, nat) request"

record sync_filter =
  sf_diagnostics_enabled :: bool
  sf_runtime_thread_id :: string
  sf_worker_thread_id :: string
  sf_request :: "sync_request option"
  sf_slot :: nat
  sf_state :: sync_state

text \<open>Envoy, the runtime's client, the result slots, and the slots whose scheduler was committed.\<close>

record 'e sync_world =
  sw_host :: "'e host"
  sw_client :: "(sync_request, nat) serial_client"
  sw_slots :: "nat \<Rightarrow> (bridge_error, response) result option"
  sw_committed :: "nat list"

type_synonym 'e sync = "sync_filter \<times> 'e sync_world"

definition sync_new_http_filter :: "sync_rack_config \<Rightarrow> string \<Rightarrow> nat \<Rightarrow> sync_filter" where
  "sync_new_http_filter sg worker_thread slot =
     \<lparr> sf_diagnostics_enabled = sg_diagnostics_enabled sg, sf_runtime_thread_id = sg_runtime_thread_id sg,
       sf_worker_thread_id = worker_thread, sf_request = None, sf_slot = slot, sf_state = Sync_collecting \<rparr>"

section \<open>Collecting the request\<close>

definition sync_copy_headers :: "'e ehf \<Rightarrow> 'e \<Rightarrow> sync_request" where
  "sync_copy_headers ehf e =
     \<lparr> req_method = unwrap_or (map_option from_utf8_lossy (get_request_header_value ehf e '':method'')) ''GET'',
       req_path = unwrap_or (map_option from_utf8_lossy (get_request_header_value ehf e '':path'')) ''/'',
       req_body = [], body_stream = None,
       req_headers = map (\<lambda>(name, v). (from_utf8_lossy name, v)) (get_request_headers ehf e),
       req_metadata = default_metadata, req_context = None, req_upstreams = None, force_gc = False,
       diagnostics = None \<rparr>"

definition received_body :: "'e ehf \<Rightarrow> 'e \<Rightarrow> bytes" where
  "received_body ehf e = concat (unwrap_or (get_received_request_body ehf e) [])"

definition copy_received_body :: "'e ehf \<Rightarrow> 'e sync \<Rightarrow> bool \<times> 'e sync" where
  "copy_received_body ehf s = (case s of (f, w) \<Rightarrow>
     let received = received_body ehf (env (sw_host w)) in
     case sf_request f of
       None \<Rightarrow> (False, s)
     | Some request \<Rightarrow>
         if length (req_body request) + length received > MAX_REQUEST_BODY_BYTES then (False, s)
         else (True, f\<lparr>sf_request := Some (request\<lparr>req_body := req_body request @ received\<rparr>)\<rparr>, w))"

section \<open>Answering\<close>

definition sync_call_envoy :: "'e ehf \<Rightarrow> envoy_call \<Rightarrow> 'e sync_world \<Rightarrow> 'e sync_world" where
  "sync_call_envoy ehf c w = w\<lparr>sw_host := perform ehf c (sw_host w)\<rparr>"

definition sync_send_bridge_error :: "'e ehf \<Rightarrow> nat \<Rightarrow> bytes \<Rightarrow> string \<Rightarrow> 'e sync \<Rightarrow> 'e sync" where
  "sync_send_bridge_error ehf status body details s = (case s of (f, w) \<Rightarrow>
     (f\<lparr>sf_state := Sync_responded\<rparr>,
      sync_call_envoy ehf
        (Send_response status [(''content-type'', ''text/plain''), (''x-ruvoy-error'', ''true'')]
           (Some body) (Some details)) w))"

definition rack_response_headers :: "sync_filter \<Rightarrow> response \<Rightarrow> (string \<times> bytes) list" where
  "rack_response_headers f r =
     filter (\<lambda>(name, _). \<not> starts_with name '':'') (resp_headers r) @
     (if sf_diagnostics_enabled f
      then [(''x-ruvoy-runtime-rust-thread-id'', sf_runtime_thread_id f),
            (''x-ruvoy-worker-rust-thread-id'', sf_worker_thread_id f)]
      else [])"

definition send_rack_response :: "'e ehf \<Rightarrow> response \<Rightarrow> 'e sync \<Rightarrow> 'e sync" where
  "send_rack_response ehf r s = (case s of (f, w) \<Rightarrow>
     (f\<lparr>sf_state := Sync_responded\<rparr>,
      sync_call_envoy ehf
        (Send_response (unat (resp_status r)) (rack_response_headers f r) (Some (resp_body r))
           (Some ''ruvoy_sync_rack_response'')) w))"

definition sync_submit :: "'e ehf \<Rightarrow> 'e sync \<Rightarrow> 'e sync" where
  "sync_submit ehf s = (case s of (f, w) \<Rightarrow>
     case sf_request f of
       None \<Rightarrow> sync_send_bridge_error ehf 500 ''missing owned request'' ''ruvoy_sync_missing_request'' s
     | Some request \<Rightarrow>
         let f1 = f\<lparr>sf_request := None\<rparr>;
             (answer, client) = serial_submit request (sf_slot f) (sw_client w);
             w1 = w\<lparr>sw_client := client\<rparr>
         in case answer of
              Inr _ \<Rightarrow> (f1\<lparr>sf_state := Sync_waiting\<rparr>, w1)
            | Inl error \<Rightarrow>
                sync_send_bridge_error ehf 503 (display_error error) ''ruvoy_sync_submit_failed'' (f1, w1))"

text \<open>The completion the filter leaves with the runtime, run on the owner thread.\<close>

definition sync_complete :: "nat \<Rightarrow> (bridge_error, response) result \<Rightarrow> 'e sync_world \<Rightarrow> 'e sync_world" where
  "sync_complete k r w = w\<lparr>sw_slots := (sw_slots w)(k := Some r), sw_committed := sw_committed w @ [k]\<rparr>"

section \<open>Envoy's callbacks\<close>

datatype iteration = StopIteration | StopIterationNoBuffer | StopIterationAndBuffer

definition sync_on_request_headers :: "'e ehf \<Rightarrow> bool \<Rightarrow> 'e sync \<Rightarrow> iteration \<times> 'e sync" where
  "sync_on_request_headers ehf end_of_stream s = (case s of (f, w) \<Rightarrow>
     let s1 = (f\<lparr>sf_request := Some (sync_copy_headers ehf (env (sw_host w)))\<rparr>, w)
     in (StopIteration, if end_of_stream then sync_submit ehf s1 else s1))"

definition sync_on_request_body :: "'e ehf \<Rightarrow> bool \<Rightarrow> 'e sync \<Rightarrow> iteration \<times> 'e sync" where
  "sync_on_request_body ehf end_of_stream s =
     (if sf_state (fst s) \<noteq> Sync_collecting then (StopIterationNoBuffer, s)
      else case copy_received_body ehf s of
             (False, s1) \<Rightarrow>
               (StopIterationNoBuffer,
                sync_send_bridge_error ehf 413 ''request body exceeds the 2 MiB limit'' ''ruvoy_sync_body_too_large'' s1)
           | (True, s1) \<Rightarrow>
               if end_of_stream then (StopIterationNoBuffer, sync_submit ehf s1) else (StopIterationAndBuffer, s1))"

definition sync_on_request_trailers :: "'e ehf \<Rightarrow> 'e sync \<Rightarrow> iteration \<times> 'e sync" where
  "sync_on_request_trailers ehf s =
     (StopIteration, if sf_state (fst s) = Sync_collecting then sync_submit ehf s else s)"

definition sync_on_scheduled :: "'e ehf \<Rightarrow> u64 \<Rightarrow> 'e sync \<Rightarrow> 'e sync" where
  "sync_on_scheduled ehf event_id s = (case s of (f, w) \<Rightarrow>
     if event_id \<noteq> SYNC_RESPONSE_EVENT_ID \<or> sf_state f \<noteq> Sync_waiting then s
     else
       let result = sw_slots w (sf_slot f);
           s1 = (f, w\<lparr>sw_slots := (sw_slots w)(sf_slot f := None)\<rparr>)
       in case result of
            Some (Inr r) \<Rightarrow> send_rack_response ehf r s1
          | Some (Inl error) \<Rightarrow>
              sync_send_bridge_error ehf 500 (display_error error) ''ruvoy_sync_ruby_error'' s1
          | None \<Rightarrow>
              sync_send_bridge_error ehf 500 ''scheduler event arrived without a result'' ''ruvoy_sync_missing_result'' s1)"

section \<open>Lives of a filter\<close>

text \<open>
  What happens to a filter after its request headers: Envoy's callbacks, each
  in the state Envoy is then in, and what the owner thread does meanwhile.
\<close>

datatype 'e sync_event =
    Sync_body 'e bool
  | Sync_trailers 'e
  | Sync_scheduled 'e u64
  | Sync_completed nat "(bridge_error, response) result"
  | Sync_taken "(sync_request, nat) serial_client"

definition envoy_is :: "'e \<Rightarrow> 'e sync \<Rightarrow> 'e sync" where
  "envoy_is e s = (fst s, (snd s)\<lparr>sw_host := (sw_host (snd s))\<lparr>env := e\<rparr>\<rparr>)"

primrec sync_act :: "'e ehf \<Rightarrow> 'e sync_event \<Rightarrow> 'e sync \<Rightarrow> 'e sync" where
  "sync_act ehf (Sync_body e fin) s = snd (sync_on_request_body ehf fin (envoy_is e s))"
| "sync_act ehf (Sync_trailers e) s = snd (sync_on_request_trailers ehf (envoy_is e s))"
| "sync_act ehf (Sync_scheduled e i) s = sync_on_scheduled ehf i (envoy_is e s)"
| "sync_act ehf (Sync_completed k r) s = (fst s, sync_complete k r (snd s))"
| "sync_act ehf (Sync_taken c) s = (fst s, (snd s)\<lparr>sw_client := c\<rparr>)"

definition sync_log :: "'e sync \<Rightarrow> envoy_call list" where
  "sync_log s = elog (sw_host (snd s))"

definition is_local_reply :: "envoy_call \<Rightarrow> bool" where
  "is_local_reply c = (case c of Send_response _ _ _ _ \<Rightarrow> True | _ \<Rightarrow> False)"

text \<open>The log holds the one answer once the filter is in its last state, and nothing before.\<close>

definition sync_inv :: "'e sync \<Rightarrow> bool" where
  "sync_inv s \<longleftrightarrow>
     (sf_state (fst s) = Sync_responded \<longrightarrow> (\<exists>c. sync_log s = [c] \<and> is_local_reply c)) \<and>
     (sf_state (fst s) \<noteq> Sync_responded \<longrightarrow> sync_log s = [])"

lemma sync_inv_envoy_is [simp]: "sync_inv (envoy_is e s) = sync_inv s"
  by (simp add: sync_inv_def sync_log_def envoy_is_def)

lemma sync_inv_quiet:
  "sync_log s = [] \<Longrightarrow> sf_state (fst s) \<noteq> Sync_responded \<Longrightarrow> sync_inv s"
  "sync_inv s \<Longrightarrow> sf_state (fst s) \<noteq> Sync_responded \<Longrightarrow> sync_log s = []"
  by (auto simp: sync_inv_def)

lemma sync_inv_error:
  "sync_log s = [] \<Longrightarrow> sync_inv (sync_send_bridge_error ehf status body details s)"
  by (cases s) (simp add: sync_inv_def sync_log_def sync_send_bridge_error_def sync_call_envoy_def is_local_reply_def)

lemma sync_inv_submit: "sync_log s = [] \<Longrightarrow> sync_inv (sync_submit ehf s)"
proof (cases s)
  case (Pair f w)
  assume quiet: "sync_log s = []"
  show ?thesis
  proof (cases "sf_request f")
    case None
    then show ?thesis
      using quiet by (simp add: Pair sync_submit_def sync_inv_error)
  next
    case (Some request)
    obtain answer client where sent: "serial_submit request (sf_slot f) (sw_client w) = (answer, client)"
      by (cases "serial_submit request (sf_slot f) (sw_client w)")
    have same: "sync_log (f1, w\<lparr>sw_client := client\<rparr>) = []" for f1
      using quiet by (simp add: Pair sync_log_def)
    then show ?thesis
      by (cases answer) (simp_all add: Pair sync_submit_def Some sent sync_inv_error sync_inv_quiet(1))
  qed
qed

lemma copy_received_body_log: "copy_received_body ehf s = (ok, s1) \<Longrightarrow> sync_log s1 = sync_log s \<and> sf_state (fst s1) = sf_state (fst s)"
  by (cases s) (auto simp: copy_received_body_def sync_log_def Let_def split: option.splits if_splits)

lemma sync_inv_body: "sync_inv s \<Longrightarrow> sync_inv (snd (sync_on_request_body ehf fin s))"
proof -
  assume inv: "sync_inv s"
  obtain ok s1 where copied: "copy_received_body ehf s = (ok, s1)"
    by (cases "copy_received_body ehf s")
  note log = copy_received_body_log [OF copied]
  show ?thesis
  proof (cases "sf_state (fst s) = Sync_collecting")
    case True
    then have "sync_log s1 = []" "sync_inv s1"
      using inv log by (simp_all add: sync_inv_def)
    then show ?thesis
      using True by (cases ok) (simp_all add: sync_on_request_body_def copied sync_inv_error sync_inv_submit)
  qed (use inv in \<open>simp add: sync_on_request_body_def\<close>)
qed

lemma sync_inv_scheduled: "sync_inv s \<Longrightarrow> sync_inv (sync_on_scheduled ehf i s)"
proof (cases s)
  case (Pair f w)
  assume inv: "sync_inv s"
  show ?thesis
  proof (cases "i = SYNC_RESPONSE_EVENT_ID \<and> sf_state f = Sync_waiting")
    case True
    have quiet: "sync_log (f, w\<lparr>sw_slots := x\<rparr>) = []" for x
      using inv True by (simp add: Pair sync_inv_def sync_log_def)
    have "sync_inv (send_rack_response ehf r (f, w\<lparr>sw_slots := x\<rparr>))" for r x
      using quiet by (simp add: send_rack_response_def sync_inv_def sync_log_def sync_call_envoy_def is_local_reply_def)
    with quiet show ?thesis
      using True by (simp add: Pair sync_on_scheduled_def Let_def sync_inv_error split: option.split sum.split)
  next
    case False
    then have "sync_on_scheduled ehf i s = s"
      by (auto simp: Pair sync_on_scheduled_def)
    with inv show ?thesis
      by simp
  qed
qed

lemma sync_inv_trailers: "sync_inv s \<Longrightarrow> sync_inv (snd (sync_on_request_trailers ehf s))"
  using sync_inv_quiet(2) [of s] by (simp add: sync_on_request_trailers_def sync_inv_submit)

lemma sync_inv_act: "sync_inv s \<Longrightarrow> sync_inv (sync_act ehf ev s)"
  by (cases ev)
    (simp_all add: sync_inv_body sync_inv_trailers sync_inv_scheduled, simp_all add: sync_inv_def sync_log_def sync_complete_def)

interpretation sync_wf: operation_invariant "sync_act ehf" sync_inv
  by unfold_locales (rule sync_inv_act)

section \<open>Reaching the application\<close>

lemma collect_frames:
  assumes "sf_state f = Sync_collecting" and "sf_request f = Some q"
    and "length (req_body q) + length (concat (map (received_body ehf) es)) \<le> MAX_REQUEST_BODY_BYTES"
  shows "\<exists>h. run (sync_act ehf) (map (\<lambda>e. Sync_body e False) es) (f, w) =
    (f\<lparr>sf_request := Some (q\<lparr>req_body := req_body q @ concat (map (received_body ehf) es)\<rparr>)\<rparr>,
     w\<lparr>sw_host := (sw_host w)\<lparr>env := h\<rparr>\<rparr>)"
  using assms
proof (induction es arbitrary: f q w)
  case Nil
  then have "f\<lparr>sf_request := Some q\<rparr> = f" "w = w\<lparr>sw_host := (sw_host w)\<lparr>env := env (sw_host w)\<rparr>\<rparr>"
    by simp_all
  with Nil show ?case
    by (intro exI [of _ "env (sw_host w)"]) simp
next
  case (Cons e es)
  let ?q = "q\<lparr>req_body := req_body q @ received_body ehf e\<rparr>"
  let ?f = "f\<lparr>sf_request := Some ?q\<rparr>"
  let ?w = "w\<lparr>sw_host := (sw_host w)\<lparr>env := e\<rparr>\<rparr>"
  have step: "sync_act ehf (Sync_body e False) (f, w) = (?f, ?w)"
    using Cons.prems by (simp add: sync_on_request_body_def copy_received_body_def envoy_is_def)
  obtain h where "run (sync_act ehf) (map (\<lambda>e. Sync_body e False) es) (?f, ?w) =
      (?f\<lparr>sf_request := Some (?q\<lparr>req_body := req_body ?q @ concat (map (received_body ehf) es)\<rparr>)\<rparr>,
       ?w\<lparr>sw_host := (sw_host ?w)\<lparr>env := h\<rparr>\<rparr>)"
    using Cons.IH [of ?f ?q ?w] Cons.prems by (auto simp: add.assoc)
  then show ?case
    by (intro exI [of _ h]) (simp add: step del: sync_act.simps)
qed

lemma answered_ignores_body:
  "sf_state f = Sync_responded \<Longrightarrow>
   \<exists>h. run (sync_act ehf) (map (\<lambda>e. Sync_body e False) es) (f, w) = (f, w\<lparr>sw_host := (sw_host w)\<lparr>env := h\<rparr>\<rparr>)"
proof (induction es arbitrary: w)
  case Nil
  then show ?case
    by (intro exI [of _ "env (sw_host w)"]) simp
next
  case (Cons e es)
  obtain h where "run (sync_act ehf) (map (\<lambda>e. Sync_body e False) es) (f, w\<lparr>sw_host := (sw_host w)\<lparr>env := e\<rparr>\<rparr>) =
      (f, w\<lparr>sw_host := (sw_host w)\<lparr>env := h\<rparr>\<rparr>)"
    using Cons.IH [OF Cons.prems, of "w\<lparr>sw_host := (sw_host w)\<lparr>env := e\<rparr>\<rparr>"] by auto
  with Cons.prems show ?case
    by (intro exI [of _ h]) (simp add: sync_on_request_body_def envoy_is_def)
qed

definition too_large :: envoy_call where
  "too_large = Send_response 413 [(''content-type'', ''text/plain''), (''x-ruvoy-error'', ''true'')]
     (Some ''request body exceeds the 2 MiB limit'') (Some ''ruvoy_sync_body_too_large'')"

lemma collect_too_much:
  assumes "sf_state f = Sync_collecting" and "sf_request f = Some q"
    and "length (req_body q) + length (concat (map (received_body ehf) es)) > MAX_REQUEST_BODY_BYTES"
    and "length (req_body q) \<le> MAX_REQUEST_BODY_BYTES"
  shows "\<exists>f1 w1. run (sync_act ehf) (map (\<lambda>e. Sync_body e False) es) (f, w) = (f1, w1) \<and> sf_state f1 = Sync_responded \<and>
    sw_client w1 = sw_client w \<and> elog (sw_host w1) = elog (sw_host w) @ [too_large]"
  using assms
proof (induction es arbitrary: f q w)
  case (Cons e es)
  let ?q = "q\<lparr>req_body := req_body q @ received_body ehf e\<rparr>"
  let ?w = "w\<lparr>sw_host := (sw_host w)\<lparr>env := e\<rparr>\<rparr>"
  show ?case
  proof (cases "length (req_body ?q) \<le> MAX_REQUEST_BODY_BYTES")
    case True
    then have "sync_act ehf (Sync_body e False) (f, w) = (f\<lparr>sf_request := Some ?q\<rparr>, ?w)"
      using Cons.prems by (simp add: sync_on_request_body_def copy_received_body_def envoy_is_def)
    then show ?thesis
      using Cons.IH [of "f\<lparr>sf_request := Some ?q\<rparr>" ?q ?w] Cons.prems True by (simp add: add.assoc del: sync_act.simps)
  next
    case False
    let ?f1 = "f\<lparr>sf_state := Sync_responded\<rparr>"
    let ?w1 = "sync_call_envoy ehf too_large ?w"
    have step: "sync_act ehf (Sync_body e False) (f, w) = (?f1, ?w1)"
      using Cons.prems False
      by (simp add: sync_on_request_body_def copy_received_body_def envoy_is_def sync_send_bridge_error_def too_large_def)
    obtain h where "run (sync_act ehf) (map (\<lambda>e. Sync_body e False) es) (?f1, ?w1) =
        (?f1, ?w1\<lparr>sw_host := (sw_host ?w1)\<lparr>env := h\<rparr>\<rparr>)"
      using answered_ignores_body [of ?f1 ehf es ?w1] by auto
    then show ?thesis
      by (simp add: step sync_call_envoy_def del: sync_act.simps)
  qed
qed simp

section \<open>A whole request\<close>

text \<open>Headers, frames, and a last frame that ends the request; then the call that answers it.\<close>

definition sync_answer :: "sync_filter \<Rightarrow> (bridge_error, response) result \<Rightarrow> envoy_call" where
  "sync_answer f r = (case r of
     Inr resp \<Rightarrow> Send_response (unat (resp_status resp)) (rack_response_headers f resp) (Some (resp_body resp))
       (Some ''ruvoy_sync_rack_response'')
   | Inl error \<Rightarrow> Send_response 500 [(''content-type'', ''text/plain''), (''x-ruvoy-error'', ''true'')]
       (Some (display_error error)) (Some ''ruvoy_sync_ruby_error''))"

definition sync_sent :: "'e ehf \<Rightarrow> 'e list \<Rightarrow> 'e \<Rightarrow> 'e sync \<Rightarrow> 'e sync" where
  "sync_sent ehf es e s =
     run (sync_act ehf) (map (\<lambda>e. Sync_body e False) es @ [Sync_body e True]) (snd (sync_on_request_headers ehf False s))"

lemma sync_sent_fits:
  assumes "length (concat (map (received_body ehf) (es @ [e]))) \<le> MAX_REQUEST_BODY_BYTES"
    and "sw_client w = \<lparr> sc_commands = [], sc_receiver_alive = True, sc_signal = Inr () \<rparr>"
  defines "request \<equiv> (sync_copy_headers ehf (env (sw_host w)))\<lparr>req_body := concat (map (received_body ehf) (es @ [e]))\<rparr>"
  shows "sync_sent ehf es e (sync_new_http_filter sg t k, w) =
    ((sync_new_http_filter sg t k)\<lparr>sf_state := Sync_waiting\<rparr>,
     w\<lparr>sw_host := (sw_host w)\<lparr>env := e\<rparr>,
       sw_client := \<lparr> sc_commands = [Serial_call request k], sc_receiver_alive = True, sc_signal = Inr () \<rparr>\<rparr>)"
proof -
  let ?q = "sync_copy_headers ehf (env (sw_host w))"
  let ?f = "(sync_new_http_filter sg t k)\<lparr>sf_request := Some ?q\<rparr>"
  obtain h where collected: "run (sync_act ehf) (map (\<lambda>e. Sync_body e False) es) (?f, w) =
      (?f\<lparr>sf_request := Some (?q\<lparr>req_body := req_body ?q @ concat (map (received_body ehf) es)\<rparr>)\<rparr>,
       w\<lparr>sw_host := (sw_host w)\<lparr>env := h\<rparr>\<rparr>)"
    using collect_frames [of ?f ?q ehf es w] assms(1) by (auto simp: sync_new_http_filter_def sync_copy_headers_def)
  show ?thesis
    using assms(1,2)
    by (simp add: sync_sent_def sync_on_request_headers_def collected del: sync_act.simps)
      (simp add: sync_on_request_body_def copy_received_body_def envoy_is_def sync_submit_def serial_submit_def serial_send_def
        sync_new_http_filter_def sync_copy_headers_def request_def)
qed

text \<open>A request over the limit is refused with 413 once, and nothing is queued for it.\<close>

lemma sync_sent_too_large:
  assumes "length (concat (map (received_body ehf) es)) > MAX_REQUEST_BODY_BYTES"
  shows "\<exists>f1 w1. sync_sent ehf es e (sync_new_http_filter sg t k, w) = (f1, w1) \<and> sf_state f1 = Sync_responded \<and>
    sw_client w1 = sw_client w \<and> elog (sw_host w1) = elog (sw_host w) @ [too_large]"
proof -
  let ?q = "sync_copy_headers ehf (env (sw_host w))"
  let ?f = "(sync_new_http_filter sg t k)\<lparr>sf_request := Some ?q\<rparr>"
  obtain f1 w1 where "run (sync_act ehf) (map (\<lambda>e. Sync_body e False) es) (?f, w) = (f1, w1)" "sf_state f1 = Sync_responded"
      "sw_client w1 = sw_client w" "elog (sw_host w1) = elog (sw_host w) @ [too_large]"
    using collect_too_much [of ?f ?q ehf es w] assms by (auto simp: sync_new_http_filter_def sync_copy_headers_def)
  then show ?thesis
    by (simp add: sync_sent_def sync_on_request_headers_def envoy_is_def sync_on_request_body_def)
qed

lemma sync_scheduled_answers:
  assumes "sf_state f = Sync_waiting" and "elog (sw_host w) = []" and "sw_slots w (sf_slot f) = Some r"
  shows "sync_log (sync_on_scheduled ehf SYNC_RESPONSE_EVENT_ID (f, w)) = [sync_answer f r]"
  using assms
  by (simp add: sync_on_scheduled_def sync_log_def sync_answer_def send_rack_response_def sync_send_bridge_error_def
      sync_call_envoy_def split: sum.split)

section \<open>A concrete filter\<close>

definition sample_sync_config :: sync_rack_config where
  "sample_sync_config = \<lparr> sg_diagnostics_enabled = False, sg_runtime_thread_id = ''ThreadId(1)'', sg_runtime = None \<rparr>"

definition sample_sync_world :: "sample_state sync_world" where
  "sample_sync_world = \<lparr> sw_host = \<lparr> env = ([], []), elog = [] \<rparr>,
     sw_client = \<lparr> sc_commands = [], sc_receiver_alive = True, sc_signal = Inr () \<rparr>,
     sw_slots = (\<lambda>k. None), sw_committed = [] \<rparr>"

lemma sample_received: "received_body sample_ehf ([], [''ab'']) = ''ab''" "received_body sample_ehf ([], [''c'']) = ''c''"
  by (simp_all add: received_body_def sample_ehf_def)

section \<open>Properties\<close>

text \<open>
  C39. Once its request headers came, whatever callbacks Envoy makes in whatever
  order, and whenever the owner thread completes the call, the filter answers
  its client at most once, and exactly when it says it responded.
\<close>

theorem serial_filter_answers_once:
  assumes "elog (sw_host w) = []"
  shows "length (sync_log (run (sync_act ehf) evs (snd (sync_on_request_headers ehf fin (sync_new_http_filter sg t k, w))))) =
    (if sf_state (fst (run (sync_act ehf) evs (snd (sync_on_request_headers ehf fin (sync_new_http_filter sg t k, w))))) =
        Sync_responded then 1 else 0)"
proof -
  let ?s = "snd (sync_on_request_headers ehf fin (sync_new_http_filter sg t k, w))"
  have "sync_inv ?s"
    using assms
    by (auto simp: sync_on_request_headers_def sync_new_http_filter_def Let_def sync_log_def
        intro!: sync_inv_submit sync_inv_quiet(1))
  then have "sync_inv (run (sync_act ehf) evs ?s)"
    by (rule sync_wf.inv_run)
  then show ?thesis
    by (auto simp: sync_inv_def)
qed

theorem serial_filter_answers_once_witness:
  "length (sync_log (run (sync_act sample_ehf) [Sync_body ([], [''ab'']) True, Sync_scheduled ([], []) 1]
     (snd (sync_on_request_headers sample_ehf False
        (sync_new_http_filter sample_sync_config ''ThreadId(2)'' 5, sample_sync_world))))) \<le> 1"
  using serial_filter_answers_once [of sample_sync_world sample_ehf
      "[Sync_body ([], [''ab'']) True, Sync_scheduled ([], []) 1]" False sample_sync_config "''ThreadId(2)''" 5]
  by (simp add: sample_sync_world_def del: run.simps split: if_splits)



end
