(* ===== verification/Baseline.thy ===== *)
theory Baseline
  imports Sample_Envoy
begin

text \<open>
  The module that answers without Ruby (src/crates/ruvoy-envoy-baseline/src/lib.rs):
  the parameters of a benchmark request and the filter that answers directly,
  through a scheduled event, or after a wait.

  A spawned thread is its delay in milliseconds and the event it commits.
\<close>

section \<open>Benchmark parameters\<close>

definition SCHEDULER_EVENT_ID :: u64 where
  "SCHEDULER_EVENT_ID = 1"

definition BENCHMARK_EVENT_ID :: u64 where
  "BENCHMARK_EVENT_ID = 2"

definition MAX_BODY_BYTES :: nat where
  "MAX_BODY_BYTES = 2 * 1024 * 1024"

record benchmark_request =
  br_wait_ms :: nat
  br_response_bytes :: nat
  br_expected_request_bytes :: "nat option"
  br_request_body :: bytes

text \<open>Both \<open>u64\<close> and \<open>usize\<close> have 64 bits.\<close>

definition parse_u64 :: "string \<Rightarrow> nat option" where
  "parse_u64 s = parse_uint (2 ^ 64 - 1) s"

definition set_parameter :: "string \<Rightarrow> string \<Rightarrow> benchmark_request \<Rightarrow> (string, benchmark_request) result" where
  "set_parameter name v q =
     (if name = ''wait_ms'' then
        map_sum id (\<lambda>n. q\<lparr>br_wait_ms := n\<rparr>) (ok_or (parse_u64 v) (''invalid wait_ms: '' @ v))
      else if name = ''response_bytes'' then
        map_sum id (\<lambda>n. q\<lparr>br_response_bytes := n\<rparr>) (ok_or (parse_u64 v) (''invalid response_bytes: '' @ v))
      else if name = ''expected_request_bytes'' then
        map_sum id (\<lambda>n. q\<lparr>br_expected_request_bytes := Some n\<rparr>)
          (ok_or (parse_u64 v) (''invalid expected_request_bytes: '' @ v))
      else Inl (''unknown benchmark parameter: '' @ name))"

fun set_parameters :: "string list \<Rightarrow> benchmark_request \<Rightarrow> (string, benchmark_request) result" where
  "set_parameters [] q = Inr q"
| "set_parameters (p # ps) q =
     and_then (ok_or (split_once (CHR ''='') p) (''invalid benchmark parameter: '' @ p)) (\<lambda>(name, v).
     and_then (set_parameter name v q) (set_parameters ps))"

definition parse_benchmark_request :: "string \<Rightarrow> (string, benchmark_request) result" where
  "parse_benchmark_request path =
     (let query = (case split_once (CHR ''?'') path of Some (_, q) \<Rightarrow> q | None \<Rightarrow> []) in
      and_then (set_parameters (filter (\<lambda>p. p \<noteq> []) (split_on (CHR ''&'') query))
                 \<lparr> br_wait_ms = 0, br_response_bytes = 0, br_expected_request_bytes = None, br_request_body = [] \<rparr>) (\<lambda>q.
        if br_wait_ms q > 1000 then Inl ''wait_ms exceeds the 1000 ms limit''
        else if br_response_bytes q > MAX_BODY_BYTES then Inl ''response_bytes exceeds the 2 MiB limit''
        else if (case br_expected_request_bytes q of None \<Rightarrow> False | Some n \<Rightarrow> n > MAX_BODY_BYTES)
        then Inl ''expected_request_bytes exceeds the 2 MiB limit''
        else Inr q))"

section \<open>The filter\<close>

record baseline_filter =
  bl_worker :: "(nat \<times> u64) option"
  bl_benchmark :: "benchmark_request option"
  bl_waiting :: bool
  bl_responded :: bool

definition baseline_new_http_filter :: baseline_filter where
  "baseline_new_http_filter = \<lparr> bl_worker = None, bl_benchmark = None, bl_waiting = False, bl_responded = False \<rparr>"

definition baseline_config_fn :: "string \<Rightarrow> unit option" where
  "baseline_config_fn name = (if name = ''baseline'' then Some () else None)"

type_synonym 'e baseline = "baseline_filter \<times> 'e host"

definition send_bad_request :: "'e ehf \<Rightarrow> bytes \<Rightarrow> 'e baseline \<Rightarrow> 'e baseline" where
  "send_bad_request ehf message s = (case s of (f, h) \<Rightarrow>
     (f\<lparr>bl_responded := True\<rparr>,
      perform ehf (Send_response 400 [(''content-type'', ''text/plain'')] (Some message)
        (Some ''ruvoy_baseline_bad_benchmark_request'')) h))"

definition benchmark_response :: "benchmark_request \<Rightarrow> envoy_call" where
  "benchmark_response q =
     Send_response 200
       [(''content-type'', ''application/octet-stream''), (''content-length'', show_nat (br_response_bytes q)),
        (''x-request-bytes'', show_nat (length (br_request_body q)))]
       (Some (replicate (br_response_bytes q) (CHR ''B''))) (Some ''ruvoy_baseline_benchmark'')"

definition send_benchmark_response :: "'e ehf \<Rightarrow> 'e baseline \<Rightarrow> 'e baseline" where
  "send_benchmark_response ehf s = (case s of (f, h) \<Rightarrow>
     case bl_benchmark f of
       None \<Rightarrow> s
     | Some q \<Rightarrow>
         (f\<lparr>bl_benchmark := None, bl_waiting := False, bl_responded := True\<rparr>, perform ehf (benchmark_response q) h))"

definition size_mismatch :: "benchmark_request \<Rightarrow> bool" where
  "size_mismatch q =
     (case br_expected_request_bytes q of None \<Rightarrow> False | Some n \<Rightarrow> length (br_request_body q) \<noteq> n)"

definition finish_benchmark :: "'e ehf \<Rightarrow> 'e baseline \<Rightarrow> 'e baseline" where
  "finish_benchmark ehf s = (case s of (f, h) \<Rightarrow>
     if bl_waiting f \<or> bl_responded f then s
     else if (case bl_benchmark f of None \<Rightarrow> False | Some q \<Rightarrow> size_mismatch q)
     then send_bad_request ehf ''unexpected request body size'' s
     else
       let wait_ms = (case bl_benchmark f of None \<Rightarrow> 0 | Some q \<Rightarrow> br_wait_ms q) in
       if wait_ms = 0 then send_benchmark_response ehf s
       else (f\<lparr>bl_worker := Some (wait_ms, BENCHMARK_EVENT_ID), bl_waiting := True\<rparr>, h))"

definition baseline_on_request_headers :: "'e ehf \<Rightarrow> bool \<Rightarrow> 'e baseline \<Rightarrow> 'e baseline" where
  "baseline_on_request_headers ehf end_of_stream s = (case s of (f, h) \<Rightarrow>
     let path = unwrap_or (map_option from_utf8_lossy (get_request_header_value ehf (env h) '':path'')) ''/'' in
     if hd (split_on (CHR ''?'') path) = ''/benchmark'' then
       (case parse_benchmark_request path of
          Inr q \<Rightarrow>
            let s1 = (f\<lparr>bl_benchmark := Some q\<rparr>, h) in
            if end_of_stream then finish_benchmark ehf s1 else s1
        | Inl message \<Rightarrow> send_bad_request ehf message s)
     else if path = ''/scheduler'' then (f\<lparr>bl_worker := Some (0, SCHEDULER_EVENT_ID)\<rparr>, h)
     else (f, perform ehf (Send_response 200 [(''content-type'', ''text/plain''), (''x-ruvoy-mode'', ''direct'')]
             (Some ''rust-baseline'') (Some ''ruvoy_baseline_direct'')) h))"

definition baseline_on_request_body :: "'e ehf \<Rightarrow> bool \<Rightarrow> 'e baseline \<Rightarrow> 'e baseline" where
  "baseline_on_request_body ehf end_of_stream s = (case s of (f, h) \<Rightarrow>
     if bl_responded f then s
     else case bl_benchmark f of
            None \<Rightarrow> s
          | Some q \<Rightarrow>
              let received = concat (unwrap_or (get_received_request_body ehf (env h)) []) in
              if length (br_request_body q) + length received > MAX_BODY_BYTES
              then send_bad_request ehf ''request body exceeds the 2 MiB limit'' s
              else
                let s1 = (f\<lparr>bl_benchmark := Some (q\<lparr>br_request_body := br_request_body q @ received\<rparr>)\<rparr>, h)
                in if end_of_stream then finish_benchmark ehf s1 else s1)"

definition baseline_on_request_trailers :: "'e ehf \<Rightarrow> 'e baseline \<Rightarrow> 'e baseline" where
  "baseline_on_request_trailers ehf s = finish_benchmark ehf s"

definition baseline_on_scheduled :: "'e ehf \<Rightarrow> u64 \<Rightarrow> 'e baseline \<Rightarrow> 'e baseline" where
  "baseline_on_scheduled ehf event_id s = (case s of (f, h) \<Rightarrow>
     if event_id = BENCHMARK_EVENT_ID \<and> bl_waiting f then send_benchmark_response ehf s
     else if event_id = SCHEDULER_EVENT_ID then
       (f, perform ehf (Send_response 200 [(''content-type'', ''text/plain''), (''x-ruvoy-mode'', ''scheduler'')]
             (Some ''rust-scheduler'') (Some ''ruvoy_baseline_scheduler'')) h)
     else
       (f, perform ehf (Send_response 500 [(''content-type'', ''text/plain'')] (Some ''unexpected scheduler event'')
             (Some ''ruvoy_baseline_bad_event'')) h))"

text \<open>Dropping the filter joins the thread it spawned, if there is one.\<close>

definition drop_baseline_filter :: "baseline_filter \<Rightarrow> (nat \<times> u64) option \<times> baseline_filter" where
  "drop_baseline_filter f = (bl_worker f, f\<lparr>bl_worker := None\<rparr>)"

section \<open>Lives of a baseline filter\<close>

text \<open>
  Envoy gives the headers first, then frames until one ends the request or
  trailers do, each in the state Envoy is then in.  The spawned thread commits its
  event once, and Envoy delivers a committed event once, at any time later.
\<close>

datatype event_progress = Uncommitted | Committed | Delivered

record 'e baseline_life =
  bs_now :: "'e baseline"
  bs_ended :: bool
  bs_event :: event_progress

definition in_envoy :: "'e \<Rightarrow> 'e baseline \<Rightarrow> 'e baseline" where
  "in_envoy e s = (fst s, (snd s)\<lparr>env := e\<rparr>)"

inductive baseline_reach :: "'e ehf \<Rightarrow> 'e baseline_life \<Rightarrow> bool" for ehf where
  begins: "elog h = [] \<Longrightarrow> baseline_reach ehf
    \<lparr> bs_now = baseline_on_request_headers ehf fin (baseline_new_http_filter, h), bs_ended = fin, bs_event = Uncommitted \<rparr>"
| frame: "baseline_reach ehf l \<Longrightarrow> \<not> bs_ended l \<Longrightarrow> baseline_reach ehf
    (l\<lparr>bs_now := baseline_on_request_body ehf fin (in_envoy e (bs_now l)), bs_ended := fin\<rparr>)"
| trailers: "baseline_reach ehf l \<Longrightarrow> \<not> bs_ended l \<Longrightarrow> baseline_reach ehf
    (l\<lparr>bs_now := baseline_on_request_trailers ehf (in_envoy e (bs_now l)), bs_ended := True\<rparr>)"
| commits: "baseline_reach ehf l \<Longrightarrow> bl_worker (fst (bs_now l)) \<noteq> None \<Longrightarrow> bs_event l = Uncommitted \<Longrightarrow>
    baseline_reach ehf (l\<lparr>bs_event := Committed\<rparr>)"
| delivers: "baseline_reach ehf l \<Longrightarrow> bl_worker (fst (bs_now l)) = Some (d, i) \<Longrightarrow> bs_event l = Committed \<Longrightarrow>
    baseline_reach ehf
      (l\<lparr>bs_now := baseline_on_scheduled ehf i (in_envoy e (bs_now l)), bs_event := Delivered\<rparr>)"

definition answers :: "'e baseline_life \<Rightarrow> nat" where
  "answers l = length (elog (snd (bs_now l)))"

text \<open>
  Three kinds of life: one that waits for nothing, one answered by the event
  of \<open>/scheduler\<close>, and a benchmark that waits for its own event.
\<close>

definition baseline_inv :: "'e baseline_life \<Rightarrow> bool" where
  "baseline_inv l \<longleftrightarrow> (let f = fst (bs_now l) in
     case bl_worker f of
       None \<Rightarrow> bs_event l = Uncommitted \<and> \<not> bl_waiting f \<and>
         (if bl_responded f \<or> bl_benchmark f = None then answers l = 1 else answers l = 0 \<and> \<not> bs_ended l)
     | Some (d, i) \<Rightarrow>
         (i = SCHEDULER_EVENT_ID \<and> bl_benchmark f = None \<and> \<not> bl_waiting f \<and> \<not> bl_responded f \<and>
            answers l = (if bs_event l = Delivered then 1 else 0)) \<or>
         (i = BENCHMARK_EVENT_ID \<and> bs_ended l \<and>
            (if bs_event l = Delivered then answers l = 1
             else answers l = 0 \<and> bl_waiting f \<and> bl_benchmark f \<noteq> None)))"

lemma event_ids [simp]: "SCHEDULER_EVENT_ID \<noteq> BENCHMARK_EVENT_ID" "BENCHMARK_EVENT_ID \<noteq> SCHEDULER_EVENT_ID"
  by (simp_all add: SCHEDULER_EVENT_ID_def BENCHMARK_EVENT_ID_def)

lemmas baseline_defs = send_bad_request_def send_benchmark_response_def baseline_inv_def answers_def in_envoy_def Let_def

text \<open>The end of a benchmark request either answers it or leaves it waiting for its event.\<close>

lemma finish_benchmark_inv:
  assumes "bl_worker f = None" and "\<not> bl_waiting f" and "\<not> bl_responded f" and "elog h = []" and "bl_benchmark f = Some q"
  shows "baseline_inv \<lparr> bs_now = finish_benchmark ehf (f, h), bs_ended = True, bs_event = Uncommitted \<rparr>"
  using assms by (simp add: finish_benchmark_def baseline_defs)

lemma baseline_inv_begins:
  assumes "elog h = []"
  shows "baseline_inv \<lparr> bs_now = baseline_on_request_headers ehf fin (baseline_new_http_filter, h), bs_ended = fin,
    bs_event = Uncommitted \<rparr>"
proof -
  have "baseline_inv \<lparr> bs_now = finish_benchmark ehf (baseline_new_http_filter\<lparr>bl_benchmark := Some q\<rparr>, h), bs_ended = True,
      bs_event = Uncommitted \<rparr>" for q
    using assms by (intro finish_benchmark_inv [of _ _ q]) (simp_all add: baseline_new_http_filter_def)
  then show ?thesis
    using assms
    by (auto simp: baseline_on_request_headers_def Let_def split: sum.splits if_splits)
      (auto simp: baseline_defs baseline_new_http_filter_def)
qed

lemma baseline_inv_open:
  assumes "baseline_inv l" and "\<not> bs_ended l" and "\<not> bl_responded (fst (bs_now l))" and "bl_benchmark (fst (bs_now l)) = Some q"
  shows "bl_worker (fst (bs_now l)) = None" and "\<not> bl_waiting (fst (bs_now l))" and "elog (snd (bs_now l)) = []"
    and "bs_event l = Uncommitted"
  using assms by (auto simp: baseline_inv_def answers_def Let_def split: option.splits prod.splits)

lemma baseline_inv_settled:
  assumes "baseline_inv l" and "\<not> bs_ended l" and "bl_responded (fst (bs_now l)) \<or> bl_benchmark (fst (bs_now l)) = None"
  shows "baseline_inv (l\<lparr>bs_now := in_envoy e (bs_now l), bs_ended := fin\<rparr>)"
  using assms by (auto simp: baseline_inv_def answers_def in_envoy_def Let_def split: option.splits prod.splits)

lemma baseline_inv_frame:
  assumes inv: "baseline_inv l" and not_ended: "\<not> bs_ended l"
  shows "baseline_inv (l\<lparr>bs_now := baseline_on_request_body ehf fin (in_envoy e (bs_now l)), bs_ended := fin\<rparr>)"
proof (cases "bl_responded (fst (bs_now l)) \<or> bl_benchmark (fst (bs_now l)) = None")
  case True
  then have "baseline_on_request_body ehf fin (in_envoy e (bs_now l)) = in_envoy e (bs_now l)"
    by (auto simp: baseline_on_request_body_def in_envoy_def split: option.splits)
  then show ?thesis
    using baseline_inv_settled [OF inv not_ended True] by simp
next
  case False
  then obtain q where q: "bl_benchmark (fst (bs_now l)) = Some q" and r: "\<not> bl_responded (fst (bs_now l))"
    by auto
  note open1 = baseline_inv_open [OF inv not_ended r q]
  let ?f = "fst (bs_now l)" and ?h = "(snd (bs_now l))\<lparr>env := e\<rparr>"
  have finish: "baseline_inv \<lparr> bs_now = finish_benchmark ehf (?f\<lparr>bl_benchmark := Some q1\<rparr>, ?h), bs_ended = True,
      bs_event = Uncommitted \<rparr>" for q1
    using open1 r by (intro finish_benchmark_inv [of _ _ q1]) simp_all
  have "l\<lparr>bs_now := x, bs_ended := fin\<rparr> = \<lparr> bs_now = x, bs_ended = fin, bs_event = Uncommitted \<rparr>" for x
    using open1(4) by (cases l) simp
  moreover have "baseline_inv \<lparr> bs_now = send_bad_request ehf m (?f, ?h), bs_ended = fin, bs_event = Uncommitted \<rparr>" for m
    using open1 by (simp add: baseline_defs)
  moreover have "baseline_inv \<lparr> bs_now = (?f\<lparr>bl_benchmark := Some q1\<rparr>, ?h), bs_ended = False, bs_event = Uncommitted \<rparr>" for q1
    using open1 r by (simp add: baseline_defs)
  ultimately show ?thesis
    using finish q r by (simp add: baseline_on_request_body_def in_envoy_def Let_def)
qed

lemma baseline_inv_trailers:
  assumes inv: "baseline_inv l" and not_ended: "\<not> bs_ended l"
  shows "baseline_inv (l\<lparr>bs_now := baseline_on_request_trailers ehf (in_envoy e (bs_now l)), bs_ended := True\<rparr>)"
proof (cases "bl_responded (fst (bs_now l)) \<or> bl_benchmark (fst (bs_now l)) = None")
  case True
  then have "baseline_on_request_trailers ehf (in_envoy e (bs_now l)) = in_envoy e (bs_now l)"
    by (auto simp: baseline_on_request_trailers_def finish_benchmark_def send_benchmark_response_def in_envoy_def)
  then show ?thesis
    using baseline_inv_settled [OF inv not_ended True] by simp
next
  case False
  then obtain q where q: "bl_benchmark (fst (bs_now l)) = Some q" and r: "\<not> bl_responded (fst (bs_now l))"
    by auto
  note open1 = baseline_inv_open [OF inv not_ended r q]
  have "baseline_inv \<lparr> bs_now = finish_benchmark ehf (fst (bs_now l), (snd (bs_now l))\<lparr>env := e\<rparr>), bs_ended = True,
      bs_event = Uncommitted \<rparr>"
    using open1 r q by (intro finish_benchmark_inv) simp_all
  moreover have "l\<lparr>bs_now := x, bs_ended := True\<rparr> = \<lparr> bs_now = x, bs_ended = True, bs_event = Uncommitted \<rparr>" for x
    using open1(4) by (cases l) simp
  ultimately show ?thesis
    by (simp add: baseline_on_request_trailers_def in_envoy_def)
qed

lemma baseline_inv_delivers:
  assumes "baseline_inv l" and "bl_worker (fst (bs_now l)) = Some (d, i)" and "bs_event l = Committed"
  shows "baseline_inv (l\<lparr>bs_now := baseline_on_scheduled ehf i (in_envoy e (bs_now l)), bs_event := Delivered\<rparr>)"
  using assms
  by (auto simp: baseline_on_scheduled_def send_benchmark_response_def baseline_inv_def answers_def in_envoy_def Let_def
      split: option.splits)

lemma baseline_inv_reach: "baseline_reach ehf l \<Longrightarrow> baseline_inv l"
proof (induction rule: baseline_reach.induct)
  case (commits l)
  then show ?case
    by (auto simp: baseline_inv_def answers_def Let_def split: option.splits)
qed (simp_all add: baseline_inv_begins baseline_inv_frame baseline_inv_trailers baseline_inv_delivers)

section \<open>Reading the parameters back\<close>

lemma split_on_single: "c \<notin> set s \<Longrightarrow> split_on c s = [s]"
  by (induction s) auto

lemma split_on_at: "c \<notin> set a \<Longrightarrow> split_on c (a @ c # b) = a # split_on c b"
  by (induction a) auto

lemma parse_u64_show: "n < 2 ^ 64 \<Longrightarrow> parse_u64 (show_nat n) = Some n"
  by (simp add: parse_u64_def parse_uint_show)

lemma show_nat_no_amp: "CHR ''&'' \<notin> set (show_nat n)"
  by (rule show_nat_no_sep) (simp add: byte_val_def)

text \<open>The path a client writes for a benchmark.\<close>

definition benchmark_path :: "nat \<Rightarrow> nat \<Rightarrow> nat option \<Rightarrow> string" where
  "benchmark_path w r e = ''/benchmark?wait_ms='' @ show_nat w @ ''&response_bytes='' @ show_nat r @
     (case e of None \<Rightarrow> [] | Some x \<Rightarrow> ''&expected_request_bytes='' @ show_nat x)"

text \<open>One parameter with a number, as it is written and as it is read.\<close>

definition parameter :: "string \<Rightarrow> nat \<Rightarrow> string" where
  "parameter name n = name @ CHR ''='' # show_nat n"

lemma parameter_not_Nil [simp]: "parameter name n \<noteq> []"
  by (simp add: parameter_def)

lemma parameter_no_amp: "CHR ''&'' \<notin> set name \<Longrightarrow> CHR ''&'' \<notin> set (parameter name n)"
  by (simp add: parameter_def show_nat_no_amp)

lemma set_parameters_number:
  assumes "CHR ''='' \<notin> set name"
  shows "set_parameters (parameter name n # ps) q = and_then (set_parameter name (show_nat n) q) (set_parameters ps)"
  using split_once_append [OF assms, of "show_nat n"] by (simp add: parameter_def)

lemma set_parameter_show:
  assumes "n < 2 ^ 64"
  shows "set_parameter ''wait_ms'' (show_nat n) q = Inr (q\<lparr>br_wait_ms := n\<rparr>)"
    and "set_parameter ''response_bytes'' (show_nat n) q = Inr (q\<lparr>br_response_bytes := n\<rparr>)"
    and "set_parameter ''expected_request_bytes'' (show_nat n) q = Inr (q\<lparr>br_expected_request_bytes := Some n\<rparr>)"
  by (simp_all add: set_parameter_def parse_u64_show [OF assms])

lemma benchmark_path_pieces:
  "split_once (CHR ''?'') (benchmark_path w r e) = Some (''/benchmark'', tl (drop 10 (benchmark_path w r e)))"
  "filter (\<lambda>p. p \<noteq> []) (split_on (CHR ''&'') (tl (drop 10 (benchmark_path w r e)))) =
     [parameter ''wait_ms'' w, parameter ''response_bytes'' r] @
     (case e of None \<Rightarrow> [] | Some x \<Rightarrow> [parameter ''expected_request_bytes'' x])"
proof -
  have rest: "tl (drop 10 (benchmark_path w r e)) = parameter ''wait_ms'' w @ CHR ''&'' # parameter ''response_bytes'' r @
      (case e of None \<Rightarrow> [] | Some x \<Rightarrow> CHR ''&'' # parameter ''expected_request_bytes'' x)"
    by (simp add: benchmark_path_def parameter_def split: option.split)
  show "split_once (CHR ''?'') (benchmark_path w r e) = Some (''/benchmark'', tl (drop 10 (benchmark_path w r e)))"
    by (simp add: benchmark_path_def)
  show "filter (\<lambda>p. p \<noteq> []) (split_on (CHR ''&'') (tl (drop 10 (benchmark_path w r e)))) =
     [parameter ''wait_ms'' w, parameter ''response_bytes'' r] @
     (case e of None \<Rightarrow> [] | Some x \<Rightarrow> [parameter ''expected_request_bytes'' x])"
    unfolding rest by (cases e) (simp_all add: split_on_at split_on_single parameter_no_amp)
qed

section \<open>Properties\<close>

text \<open>
  What a benchmark request asks for is read back exactly, whatever numbers
  within the limits it names; and a request that is accepted never waits longer
  than a second nor sends or expects more than two mebibytes.
\<close>

theorem benchmark_request_round_trip:
  "(parse_benchmark_request (benchmark_path w r e) =
      Inr \<lparr> br_wait_ms = w, br_response_bytes = r, br_expected_request_bytes = e, br_request_body = [] \<rparr> \<longleftrightarrow>
    w \<le> 1000 \<and> r \<le> MAX_BODY_BYTES \<and> (case e of None \<Rightarrow> True | Some x \<Rightarrow> x \<le> MAX_BODY_BYTES)) \<and>
   (parse_benchmark_request path = Inr q \<longrightarrow>
      br_wait_ms q \<le> 1000 \<and> br_response_bytes q \<le> MAX_BODY_BYTES \<and>
      (case br_expected_request_bytes q of None \<Rightarrow> True | Some x \<Rightarrow> x \<le> MAX_BODY_BYTES))"
proof -
  have bounds: "br_wait_ms q \<le> 1000 \<and> br_response_bytes q \<le> MAX_BODY_BYTES \<and>
      (case br_expected_request_bytes q of None \<Rightarrow> True | Some x \<Rightarrow> x \<le> MAX_BODY_BYTES)"
    if "parse_benchmark_request p = Inr q" for p q
    using that by (auto simp: parse_benchmark_request_def Let_def result_simps split: if_splits option.splits)
  have "parse_benchmark_request (benchmark_path w r e) =
      Inr \<lparr> br_wait_ms = w, br_response_bytes = r, br_expected_request_bytes = e, br_request_body = [] \<rparr>"
    if "w \<le> 1000" "r \<le> MAX_BODY_BYTES" "case e of None \<Rightarrow> True | Some x \<Rightarrow> x \<le> MAX_BODY_BYTES"
    using that
    by (cases e)
      (simp_all add: parse_benchmark_request_def benchmark_path_pieces set_parameters_number set_parameter_show
        MAX_BODY_BYTES_def del: set_parameters.simps(2))
  then show ?thesis
    using bounds [of "benchmark_path w r e"] bounds [of path q] by auto
qed

theorem benchmark_request_round_trip_witness:
  "parse_benchmark_request (benchmark_path 5 10 (Some 1024)) =
     Inr \<lparr> br_wait_ms = 5, br_response_bytes = 10, br_expected_request_bytes = Some 1024, br_request_body = [] \<rparr>"
  using benchmark_request_round_trip [of 5 10 "Some 1024"] by (simp add: MAX_BODY_BYTES_def)

text \<open>
  A request to the baseline is answered at most once, and exactly once by
  the time it has ended and the event its thread commits, if it has one, was delivered.
\<close>

theorem baseline_answers_once:
  assumes "baseline_reach ehf l"
  shows "answers l \<le> 1 \<and>
    (bs_ended l \<and> (bl_worker (fst (bs_now l)) = None \<or> bs_event l = Delivered) \<longrightarrow> answers l = 1)"
  using baseline_inv_reach [OF assms]
  by (auto simp: baseline_inv_def Let_def split: option.splits prod.splits if_splits)

theorem baseline_answers_once_witness:
  "answers \<lparr> bs_now = baseline_on_request_headers sample_ehf True (baseline_new_http_filter, \<lparr> env = ([], []), elog = [] \<rparr>),
     bs_ended = True, bs_event = Uncommitted \<rparr> \<le> 1"
  by (rule conjunct1 [OF baseline_answers_once [OF begins]]) simp

end
