(* ===== verification/Module_Pin.thy ===== *)
theory Module_Pin
  imports Rust_Text
begin

text \<open>
  Keeping the module that hosts the Ruby VM loaded (src/src/host.rs), and the
  \<open>init\<close> functions of the modules that ask for it
  (src/crates/ruvoy-envoy-fiber/src/lib.rs, src/crates/ruvoy-envoy-sync/src/lib.rs).
  The answers of the dynamic linker are arguments.
\<close>

datatype pin_failure = PinFailure string

text \<open>
  What the linker says about the object: \<open>dladdr\<close> may not know it or not its
  path, \<open>dlopen\<close> may refuse to promote it, and \<open>dlerror\<close> may name no reason.
\<close>

record dynamic_linker =
  dl_addr :: "bytes option option"
  dl_open :: "bytes \<Rightarrow> bool"
  dl_error :: "bytes option"

definition own_object_path :: "dynamic_linker \<Rightarrow> bytes option" where
  "own_object_path dl = (case dl_addr dl of None \<Rightarrow> None | Some path \<Rightarrow> path)"

definition last_dl_error :: "dynamic_linker \<Rightarrow> string" where
  "last_dl_error dl = (case dl_error dl of None \<Rightarrow> ''unknown error'' | Some error \<Rightarrow> from_utf8_lossy error)"

text \<open>The static is filled by the first call, whatever came of it.\<close>

definition pin_in_memory ::
    "dynamic_linker \<Rightarrow> (pin_failure, unit) result option \<Rightarrow> (pin_failure, unit) result \<times> (pin_failure, unit) result option" where
  "pin_in_memory dl pinned =
     (case pinned of
        Some r \<Rightarrow> (r, pinned)
      | None \<Rightarrow>
          let r = (case own_object_path dl of
                     None \<Rightarrow> Inl (PinFailure ''this object has no resolvable path'')
                   | Some path \<Rightarrow>
                       if dl_open dl path then Inr ()
                       else Inl (PinFailure (from_utf8_lossy path @ '': '' @ last_dl_error dl)))
          in (r, Some r))"

text \<open>What \<open>init\<close> answers Envoy, and what it logs.\<close>

definition module_init ::
    "dynamic_linker \<Rightarrow> (pin_failure, unit) result option \<Rightarrow> bool \<times> string list \<times> (pin_failure, unit) result option" where
  "module_init dl pinned =
     (case pin_in_memory dl pinned of
        (Inr _, pinned1) \<Rightarrow> (True, [], pinned1)
      | (Inl (PinFailure reason), pinned1) \<Rightarrow>
          (True,
           [''[ruvoy] could not pin the module in memory ('' @ reason @ ''); set do_not_close '' @
            ''on the module configuration so a configuration update cannot unload a '' @
            ''running Ruby VM''], pinned1))"

interpretation pin_cell: write_once "\<lambda>dl pinned. snd (pin_in_memory dl pinned)" "\<lambda>pinned. pinned"
  by unfold_locales (simp add: pin_in_memory_def)

text \<open>
  The first attempt decides for the process: whatever the linker would answer
  later, every later call gives its result, and no module refuses to load.
\<close>

lemma pin_decided_by_the_first:
  assumes "pin_in_memory dl None = (r, pinned)"
  shows "fst (pin_in_memory dl2 (run (\<lambda>dl pinned. snd (pin_in_memory dl pinned)) dls pinned)) = r \<and>
    fst (module_init dl2 (run (\<lambda>dl pinned. snd (pin_in_memory dl pinned)) dls pinned)) \<and>
    (r = Inr () \<longrightarrow> (\<exists>path. dl_addr dl = Some (Some path) \<and> dl_open dl path))"
proof -
  have "pinned = Some r"
    using assms by (auto simp: pin_in_memory_def Let_def split: option.splits if_splits)
  then have "run (\<lambda>dl pinned. snd (pin_in_memory dl pinned)) dls pinned = Some r"
    by (rule pin_cell.cell_kept_run)
  moreover have "fst (module_init dl2 x)" for x
    by (simp add: module_init_def split: prod.split sum.split pin_failure.split)
  moreover have "\<exists>path. dl_addr dl = Some (Some path) \<and> dl_open dl path" if "r = Inr ()"
    using assms that
    by (auto simp: pin_in_memory_def own_object_path_def Let_def split: option.splits if_splits)
  ultimately show ?thesis
    by (simp add: pin_in_memory_def)
qed

end
