(* ===== verification/Stability_Probe.thy ===== *)
theory Stability_Probe
  imports Fiber_Runtime
begin

text \<open>
  A closed-loop client of the fiber runtime, src/examples/fiber_stability_probe.rs: its settings,
  the requests it sends, how it checks an answer, and a wave of requests of which a fixed
  number is outstanding at any time.

  What it uses of the runtime is a record of functions on a state of the outside: handing in a
  request with the channel its result comes back on, waiting on that channel, and the blocking
  call.  Its own arithmetic on 64-bit numbers wraps, as in a release build.
\<close>

section \<open>Errors and settings\<close>

datatype probe_error =
    Invalid_input string
  | Other_error string
  | Receive_failed recv_timeout_error
  | Bridge_failed bridge_error

definition PROBE_MAX_BODY_BYTES :: nat where
  "PROBE_MAX_BODY_BYTES = 2 * 1024 * 1024"

text \<open>A variable of the environment is unset, no UTF-8, or a text.\<close>

definition positive_env_usize :: "string \<Rightarrow> nat \<Rightarrow> string option option \<Rightarrow> (probe_error, nat) result" where
  "positive_env_usize name fallback var =
     (case var of
        None \<Rightarrow> Inr fallback
      | Some raw \<Rightarrow>
          and_then (ok_or raw (Invalid_input (name @ '' must contain valid UTF-8''))) (\<lambda>text1.
          and_then (ok_or (parse_uint (2 ^ 64 - 1) text1) (Invalid_input (name @ '' must be a positive integer''))) (\<lambda>n.
          if n = 0 then Inl (Invalid_input (name @ '' must be a positive integer'')) else Inr n)))"

definition non_negative_env_usize :: "string \<Rightarrow> nat \<Rightarrow> string option option \<Rightarrow> (probe_error, nat) result" where
  "non_negative_env_usize name fallback var =
     (case var of
        None \<Rightarrow> Inr fallback
      | Some raw \<Rightarrow>
          and_then (ok_or raw (Invalid_input (name @ '' must contain valid UTF-8''))) (\<lambda>text1.
          ok_or (parse_uint (2 ^ 64 - 1) text1) (Invalid_input (name @ '' must be a non-negative integer''))))"

record probe_settings =
  ps_waves :: nat
  ps_requests_per_wave :: nat
  ps_concurrency :: nat
  ps_body_bytes :: nat
  ps_host_threads :: nat

definition read_settings :: "(string \<Rightarrow> string option option) \<Rightarrow> (probe_error, probe_settings) result" where
  "read_settings env =
     and_then (positive_env_usize ''RUVOY_PROBE_WAVES'' 3 (env ''RUVOY_PROBE_WAVES'')) (\<lambda>waves.
     and_then (positive_env_usize ''RUVOY_PROBE_REQUESTS_PER_WAVE'' 1000 (env ''RUVOY_PROBE_REQUESTS_PER_WAVE'')) (\<lambda>requests.
     and_then (positive_env_usize ''RUVOY_PROBE_CONCURRENCY'' 100 (env ''RUVOY_PROBE_CONCURRENCY'')) (\<lambda>concurrency.
     and_then (non_negative_env_usize ''RUVOY_PROBE_BODY_BYTES'' 0 (env ''RUVOY_PROBE_BODY_BYTES'')) (\<lambda>body_bytes.
     and_then (non_negative_env_usize ''RUVOY_PROBE_HOST_THREADS'' 4 (env ''RUVOY_PROBE_HOST_THREADS'')) (\<lambda>host_threads.
     if concurrency > unat default_max_inflight_requests
     then Inl (Invalid_input (''RUVOY_PROBE_CONCURRENCY exceeds runtime limit '' @ show_nat (unat default_max_inflight_requests)))
     else if body_bytes > PROBE_MAX_BODY_BYTES
     then Inl (Invalid_input (''RUVOY_PROBE_BODY_BYTES exceeds '' @ show_nat PROBE_MAX_BODY_BYTES))
     else Inr \<lparr> ps_waves = waves, ps_requests_per_wave = requests, ps_concurrency = concurrency,
                ps_body_bytes = body_bytes, ps_host_threads = host_threads \<rparr>)))))"

section \<open>The idle threads of the host\<close>

text \<open>
  \<open>spawned\<close> are the answers of the operating system.  A failure stops and joins the threads
  started so far; the result tells how many run on, or the error with how many were joined.
\<close>

fun start_idle_threads :: "nat \<Rightarrow> nat \<Rightarrow> (string, unit) result list \<Rightarrow> (string \<times> nat, nat) result option" where
  "start_idle_threads 0 started spawned = Some (Inr started)"
| "start_idle_threads (Suc k) started [] = None"
| "start_idle_threads (Suc k) started (Inr _ # spawned) = start_idle_threads k (Suc started) spawned"
| "start_idle_threads (Suc k) started (Inl e # spawned) = Some (Inl (e, started))"

lemma idle_threads_counted:
  "start_idle_threads k n spawned = Some (Inr m) \<Longrightarrow> m = n + k"
  "start_idle_threads k n spawned = Some (Inl (e, m)) \<Longrightarrow> m < n + k \<and> spawned ! (m - n) = Inl e"
proof -
  show "start_idle_threads k n spawned = Some (Inr m) \<Longrightarrow> m = n + k"
    by (induction k n spawned rule: start_idle_threads.induct) auto
  have "start_idle_threads k n spawned = Some (Inl (e, m)) \<Longrightarrow> n \<le> m \<and> m < n + k \<and> spawned ! (m - n) = Inl e"
    by (induction k n spawned rule: start_idle_threads.induct) (auto simp: nth_Cons')
  then show "start_idle_threads k n spawned = Some (Inl (e, m)) \<Longrightarrow> m < n + k \<and> spawned ! (m - n) = Inl e"
    by simp
qed

section \<open>Requests and answers\<close>

type_synonym probe_rq = "(unit, unit) request"

definition probe_request :: "u64 \<Rightarrow> bytes \<Rightarrow> probe_rq" where
  "probe_request id_no body =
     with_header ''x-ruvoy-expected-bytes'' (show_nat (length body))
       (with_header ''x-ruvoy-probe-id'' (show_nat (unat id_no))
         (with_header ''content-length'' (show_nat (length body))
           (with_header ''user-agent'' ''ruvoy-fiber-stability-probe''
             (with_header ''accept'' ''*/*''
               (with_header ''host'' ''127.0.0.1'' (new_request ''POST'' ''/benchmark'' body))))))"

definition verify_response :: "u64 \<Rightarrow> nat \<Rightarrow> u64 \<Rightarrow> response \<Rightarrow> (probe_error, unit) result" where
  "verify_response expected_id expected_body_bytes expected_thread r =
     (let id_text = show_nat (unat expected_id) in
      if resp_status r \<noteq> 200
      then Inl (Other_error (''request '' @ id_text @ '' returned status '' @ show_nat (unat (resp_status r))))
      else if resp_thread r \<noteq> expected_thread
      then Inl (Other_error (''request '' @ id_text @ '' moved from Ruby thread '' @ show_nat (unat expected_thread) @
             '' to '' @ show_nat (unat (resp_thread r))))
      else if response_header r ''x-ruvoy-probe-id'' \<noteq> Some id_text
      then Inl (Other_error (''response probe id mismatch for request '' @ id_text))
      else if response_header r ''x-request-bytes'' \<noteq> Some (show_nat expected_body_bytes)
      then Inl (Other_error (''response body size mismatch for request '' @ id_text))
      else if resp_body r \<noteq> []
      then Inl (Other_error (''request '' @ id_text @ '' returned a non-empty body''))
      else Inr ())"

definition required_header :: "response \<Rightarrow> string \<Rightarrow> (probe_error, string) result" where
  "required_header r name = ok_or (response_header r name) (Other_error (''missing '' @ name @ '' response header''))"

section \<open>A wave\<close>

type_synonym probe_result = "u64 \<times> (bridge_error, response) result"

record 'c probe_client =
  pr_submit :: "probe_rq \<Rightarrow> u64 \<Rightarrow> 'c \<Rightarrow> (bridge_error, unit) result \<times> 'c"
  pr_receive :: "'c \<Rightarrow> (recv_timeout_error, probe_result) result \<times> 'c"
  pr_call :: "probe_rq \<Rightarrow> 'c \<Rightarrow> (bridge_error, response) result \<times> 'c"

definition probe_submit :: "'c probe_client \<Rightarrow> u64 \<Rightarrow> bytes \<Rightarrow> 'c \<Rightarrow> (probe_error, unit) result \<times> 'c" where
  "probe_submit cl id_no body c =
     (let (sent, c1) = pr_submit cl (probe_request id_no body) id_no c in (map_sum Bridge_failed id sent, c1))"

definition receive_result :: "'c probe_client \<Rightarrow> nat \<Rightarrow> u64 \<Rightarrow> 'c \<Rightarrow> (probe_error, unit) result \<times> 'c" where
  "receive_result cl body_bytes thread c =
     (let (received, c1) = pr_receive cl c in
      (and_then (map_sum Receive_failed id received) (\<lambda>(id_no, outcome).
       and_then (map_sum Bridge_failed id outcome) (\<lambda>r. verify_response id_no body_bytes thread r)), c1))"

text \<open>The first requests, one for each place that is free.\<close>

fun submit_initial :: "'c probe_client \<Rightarrow> u64 \<Rightarrow> bytes \<Rightarrow> nat \<Rightarrow> nat \<Rightarrow> 'c \<Rightarrow> (probe_error, unit) result \<times> 'c" where
  "submit_initial cl first_id body offset 0 c = (Inr (), c)"
| "submit_initial cl first_id body offset (Suc k) c =
     (case probe_submit cl (first_id + of_nat offset) body c of
        (Inl e, c1) \<Rightarrow> (Inl e, c1)
      | (Inr _, c1) \<Rightarrow> submit_initial cl first_id body (Suc offset) k c1)"

text \<open>
  The loop: a result is awaited, and as long as requests are left another takes its place.  The
  last argument but one counts the results still to come.
\<close>

fun wave_loop ::
    "'c probe_client \<Rightarrow> u64 \<Rightarrow> bytes \<Rightarrow> u64 \<Rightarrow> nat \<Rightarrow> nat \<Rightarrow> nat \<Rightarrow> 'c \<Rightarrow> (probe_error, unit) result \<times> 'c" where
  "wave_loop cl first_id body thread requests submitted_no 0 c = (Inr (), c)"
| "wave_loop cl first_id body thread requests submitted_no (Suc left) c =
     (case receive_result cl (length body) thread c of
        (Inl e, c1) \<Rightarrow> (Inl e, c1)
      | (Inr _, c1) \<Rightarrow>
          if submitted_no < requests
          then (case probe_submit cl (first_id + of_nat submitted_no) body c1 of
                  (Inl e, c2) \<Rightarrow> (Inl e, c2)
                | (Inr _, c2) \<Rightarrow> wave_loop cl first_id body thread requests (Suc submitted_no) left c2)
          else wave_loop cl first_id body thread requests submitted_no left c1)"

definition checked_mul :: "nat \<Rightarrow> nat \<Rightarrow> nat option" where
  "checked_mul a b = (if a * b < 2 ^ 64 then Some (a * b) else None)"

definition checked_add :: "nat \<Rightarrow> nat \<Rightarrow> nat option" where
  "checked_add a b = (if a + b < 2 ^ 64 then Some (a + b) else None)"

definition run_wave ::
    "'c probe_client \<Rightarrow> nat \<Rightarrow> nat \<Rightarrow> nat \<Rightarrow> bytes \<Rightarrow> u64 \<Rightarrow> 'c \<Rightarrow> (probe_error, response) result \<times> 'c" where
  "run_wave cl wave requests concurrency body thread c =
     (case checked_mul (wave - 1) requests of
        None \<Rightarrow> (Inl (Other_error ''request id overflow''), c)
      | Some first_id \<Rightarrow>
          let initial = min concurrency requests in
          (case submit_initial cl (of_nat first_id) body 0 initial c of
             (Inl e, c1) \<Rightarrow> (Inl e, c1)
           | (Inr _, c1) \<Rightarrow>
               (case wave_loop cl (of_nat first_id) body thread requests initial requests c1 of
                  (Inl e, c2) \<Rightarrow> (Inl e, c2)
                | (Inr _, c2) \<Rightarrow>
                    (case checked_add first_id requests of
                       None \<Rightarrow> (Inl (Other_error ''GC request id overflow''), c2)
                     | Some gc_id \<Rightarrow>
                         let (called, c3) = pr_call cl (with_forced_gc (probe_request (of_nat gc_id) [])) c2 in
                         (and_then (map_sum Bridge_failed id called) (\<lambda>r.
                          and_then (verify_response (of_nat gc_id) 0 thread r) (\<lambda>_. Inr r)), c3)))))"

text \<open>All waves, each with the two numbers its last answer reports.\<close>

fun run_waves ::
    "'c probe_client \<Rightarrow> probe_settings \<Rightarrow> u64 \<Rightarrow> nat \<Rightarrow> nat \<Rightarrow> 'c
       \<Rightarrow> (probe_error, (string \<times> string) list) result \<times> 'c" where
  "run_waves cl ps thread wave 0 c = (Inr [], c)"
| "run_waves cl ps thread wave (Suc k) c =
     (case run_wave cl wave (ps_requests_per_wave ps) (ps_concurrency ps) (replicate (ps_body_bytes ps) CHR ''R'') thread c of
        (Inl e, c1) \<Rightarrow> (Inl e, c1)
      | (Inr r, c1) \<Rightarrow>
          (case and_then (required_header r ''x-ruby-heap-live-slots'') (\<lambda>slots.
                and_then (required_header r ''x-ruby-call-count'') (\<lambda>calls. Inr (slots, calls))) of
             Inl e \<Rightarrow> (Inl e, c1)
           | Inr line \<Rightarrow>
               (case run_waves cl ps thread (Suc wave) k c1 of
                  (Inl e, c2) \<Rightarrow> (Inl e, c2)
                | (Inr lines1, c2) \<Rightarrow> (Inr (line # lines1), c2))))"

text \<open>
  The program around the waves.  \<open>spawned\<close> are the answers to starting the idle threads, \<open>started\<close> is the identity
  of the runtime or why it did not start, \<open>in_ruby\<close> whether the main thread could enter Ruby, \<open>stopped\<close> how the
  shutdown went.  The result is what the waves reported and the idle threads left at the end; what is printed is left out.  It
  is \<^term>\<open>None\<close> when the answers to starting threads are not enough.
\<close>

record idle_threads =
  it_stop :: bool
  it_running :: nat

text \<open>Dropping them raises the flag, wakes each and joins each: a thread ends at its next look at the flag.\<close>

definition drop_idle_threads :: "idle_threads \<Rightarrow> idle_threads" where
  "drop_idle_threads it = it\<lparr>it_stop := True, it_running := 0\<rparr>"

definition probe_main ::
    "'c probe_client \<Rightarrow> (string \<Rightarrow> string option option) \<Rightarrow> (string, unit) result list \<Rightarrow> (bridge_error, u64) result \<Rightarrow> bool
       \<Rightarrow> (bridge_error, unit) result \<Rightarrow> 'c \<Rightarrow> ((probe_error, (string \<times> string) list) result \<times> idle_threads \<times> 'c) option" where
  "probe_main cl env spawned started in_ruby stopped c =
     (case read_settings env of
        Inl e \<Rightarrow> Some (Inl e, \<lparr> it_stop = False, it_running = 0 \<rparr>, c)
      | Inr ps \<Rightarrow>
          map_option (\<lambda>idle. case idle of
              Inl (e, _) \<Rightarrow> (Inl (Other_error e), \<lparr> it_stop = True, it_running = 0 \<rparr>, c)
            | Inr up \<Rightarrow>
                let it = \<lparr> it_stop = False, it_running = up \<rparr> in
                (case started of
                   Inl e \<Rightarrow> (Inl (Bridge_failed e), drop_idle_threads it, c)
                 | Inr thread \<Rightarrow>
                     if in_ruby then (Inl (Other_error ''main thread unexpectedly entered Ruby''), drop_idle_threads it, c)
                     else
                       (case run_waves cl ps thread 1 (ps_waves ps) c of
                          (Inl e, c1) \<Rightarrow> (Inl e, drop_idle_threads it, c1)
                        | (Inr report, c1) \<Rightarrow>
                            (and_then (map_sum Bridge_failed id stopped) (\<lambda>_. Inr report), drop_idle_threads it, c1))))
            (start_idle_threads (ps_host_threads ps) 0 spawned))"

lemma run_waves_length: "run_waves cl ps thread wave k c = (Inr report, c') \<Longrightarrow> length report = k"
  by (induction k arbitrary: wave c report) (auto split: prod.splits sum.splits)

section \<open>The runtime on the other side\<close>

text \<open>
  The runtime between two calls of the probe, at the grain that admission sees: a pass takes the commands, a
  running call completes, which sends its result, and only then is its permit returned.  Both
  happen in one uninterrupted stretch of the runtime's thread (\<open>execute\<close>), so one call at most lies between
  them.  What happens before each call of the probe is a plan that stands for every
  interleaving.  The stream handle of a request is its number; the blocking call has none.
\<close>

datatype sched_event = Se_pass | Se_complete nat "(bridge_error, response) result" | Se_release

record sched =
  sc_rt :: "(probe_rq, u64 option, unit) runtime"
  sc_running :: "(probe_rq, u64 option) fiber_call list"
  sc_finishing :: "(probe_rq, u64 option) fiber_call option"
  sc_results :: "probe_result list"
  sc_plan :: "sched_event list list"
  sc_answers :: "(bridge_error, response) result list"
  sc_sent :: "u64 list"
  sc_refused :: bool
  sc_peak :: nat

primrec sched_act :: "sched_event \<Rightarrow> sched \<Rightarrow> sched" where
  "sched_act Se_pass s =
     (let (b, cs) = receive_commands True empty_batch (commands (sc_rt s))
      in s\<lparr>sc_rt := (sc_rt s)\<lparr>commands := cs\<rparr>, sc_running := sc_running s @ envelopes b\<rparr>)"
| "sched_act (Se_complete i r) s =
     (if sc_finishing s = None \<and> i < length (sc_running s) then
        s\<lparr>sc_finishing := Some (sc_running s ! i),
          sc_running := take i (sc_running s) @ drop (Suc i) (sc_running s),
          sc_results := sc_results s @ (case fc_handle (sc_running s ! i) of None \<Rightarrow> [] | Some k \<Rightarrow> [(k, r)])\<rparr>
      else s)"
| "sched_act Se_release s =
     (case sc_finishing s of
        None \<Rightarrow> s
      | Some c \<Rightarrow>
          let (_, _, adm, _, _) = bridge_execute (Inr ()) (Inr ()) (Some c) (admission (sc_rt s)) (new_stream 1)
          in s\<lparr>sc_rt := (sc_rt s)\<lparr>admission := adm\<rparr>, sc_finishing := None\<rparr>)"

definition tick :: "sched \<Rightarrow> sched" where
  "tick s = (case sc_plan s of [] \<Rightarrow> s | evs # plan \<Rightarrow> run sched_act evs (s\<lparr>sc_plan := plan\<rparr>))"

definition outstanding :: "sched \<Rightarrow> nat" where
  "outstanding s = length (calls_of (commands (sc_rt s))) + length (sc_running s) + length (sc_results s)"

definition hand_in :: "probe_rq \<Rightarrow> u64 option \<Rightarrow> sched \<Rightarrow> (bridge_error, unit) result \<times> sched" where
  "hand_in q h s0 =
     (let s = tick s0; (answer, rt) = submit q h (sc_rt s);
          s1 = s\<lparr>sc_rt := rt, sc_refused := sc_refused s \<or> answer = Inl Overloaded,
                 sc_sent := sc_sent s @ (if answer = Inr () then (case h of None \<Rightarrow> [] | Some k \<Rightarrow> [k]) else [])\<rparr>
      in (answer, s1\<lparr>sc_peak := max (sc_peak s1) (outstanding s1)\<rparr>))"

definition sched_client :: "sched probe_client" where
  "sched_client =
     \<lparr> pr_submit = (\<lambda>q k. hand_in q (Some k)),
       pr_receive = (\<lambda>s0. let s = tick s0 in
         case sc_results s of [] \<Rightarrow> (Inl Recv_Timeout, s) | r # rs \<Rightarrow> (Inr r, s\<lparr>sc_results := rs\<rparr>)),
       pr_call = (\<lambda>q s0. let (answer, s1) = hand_in q None s0; s2 = tick s1 in
         case answer of
           Inl e \<Rightarrow> (Inl e, s1)
         | Inr _ \<Rightarrow> (case sc_answers s2 of [] \<Rightarrow> (Inl ResponseTimeout, s2) | a # as1 \<Rightarrow> (a, s2\<lparr>sc_answers := as1\<rparr>))) \<rparr>"

definition permits_out :: "sched \<Rightarrow> (probe_rq, u64 option) fiber_call list" where
  "permits_out s = calls_of (commands (sc_rt s)) @ sc_running s @ (case sc_finishing s of None \<Rightarrow> [] | Some c \<Rightarrow> [c])"

definition sched_inv :: "u64 \<Rightarrow> sched \<Rightarrow> bool" where
  "sched_inv limit s \<longleftrightarrow>
     receiver_alive (sc_rt s) \<and> signal_answer (sc_rt s) = Inr () \<and> capacity (admission (sc_rt s)) = limit \<and>
     used_count (admission (sc_rt s)) = length (permits_out s) \<and> length (permits_out s) \<le> unat limit \<and>
     unit_permits (permits_out s) \<and> list_all (\<lambda>c. \<not> is_shutdown c) (commands (sc_rt s))"

section \<open>Facts about admission\<close>

text \<open>What the runtime does between two calls of the probe keeps its books and adds nothing outstanding.\<close>

definition calm :: "sched \<Rightarrow> sched \<Rightarrow> bool" where
  "calm s s' \<longleftrightarrow> outstanding s' \<le> outstanding s \<and> sc_sent s' = sc_sent s \<and> sc_refused s' = sc_refused s \<and> sc_peak s' = sc_peak s"

lemma calm_trans: "calm a b \<Longrightarrow> calm b c \<Longrightarrow> calm a c"
  by (simp add: calm_def)

lemma sched_act_inv:
  assumes "sched_inv limit s"
  shows "sched_inv limit (sched_act ev s) \<and> calm s (sched_act ev s)"
proof (cases ev)
  case Se_pass
  obtain b cs where r: "receive_commands True empty_batch (commands (sc_rt s)) = (b, cs)"
    by (cases "receive_commands True empty_batch (commands (sc_rt s))")
  then obtain taken where t: "commands (sc_rt s) = taken @ cs" "envelopes b = calls_of taken"
    using receive_commands_splits [OF r] by auto
  then show ?thesis
    using assms r by (auto simp: Se_pass sched_inv_def permits_out_def calm_def outstanding_def split: option.splits)
next
  case (Se_complete i r)
  show ?thesis
  proof (cases "sc_finishing s = None \<and> i < length (sc_running s)")
    case True
    define c where "c = sc_running s ! i"
    have split: "sc_running s = take i (sc_running s) @ c # drop (Suc i) (sc_running s)"
      using True by (simp add: c_def id_take_nth_drop)
    have "unit_permits (sc_running s)"
      using assms by (simp add: sched_inv_def permits_out_def)
    then have "held (fc_permit c) = 1" "unit_permits (take i (sc_running s) @ drop (Suc i) (sc_running s))"
      by (metis split unit_permits_simps(2,3))+
    then show ?thesis
      using assms True by (auto simp: Se_complete sched_inv_def permits_out_def calm_def outstanding_def
          simp flip: c_def split: option.splits)
  qed (use assms in \<open>auto simp: Se_complete calm_def\<close>)
next
  case Se_release
  show ?thesis
  proof (cases "sc_finishing s")
    case (Some c)
    have "held (fc_permit c) = 1" "0 < used_count (admission (sc_rt s))"
      using assms Some by (auto simp: sched_inv_def permits_out_def)
    note dropped = drop_unit_permit [OF this]
    show ?thesis
      using assms Some dropped by (simp add: Se_release bridge_execute_def sched_inv_def permits_out_def calm_def outstanding_def)
  qed (use assms in \<open>simp add: Se_release calm_def\<close>)
qed

lemma tick_inv: "sched_inv limit s \<Longrightarrow> sched_inv limit (tick s) \<and> calm s (tick s)"
proof -
  have run: "sched_inv limit x \<Longrightarrow> sched_inv limit (run sched_act evs x) \<and> calm x (run sched_act evs x)" for evs x
  proof (induction evs arbitrary: x)
    case (Cons ev evs)
    then show ?case
      using sched_act_inv [OF Cons.prems, of ev] calm_trans by (metis run.simps(2))
  qed (simp add: calm_def)
  assume inv: "sched_inv limit s"
  show ?thesis
  proof (cases "sc_plan s")
    case (Cons evs plan)
    have "sched_inv limit (s\<lparr>sc_plan := plan\<rparr>)"
      using inv by (simp add: sched_inv_def permits_out_def)
    from run [OF this, of evs] show ?thesis
      by (simp add: tick_def Cons calm_def outstanding_def)
  qed (use inv in \<open>simp add: tick_def calm_def\<close>)
qed

text \<open>One permit at most is held by a call whose result is already out.\<close>

lemma used_outstanding: "sched_inv limit s \<Longrightarrow> used_count (admission (sc_rt s)) \<le> outstanding s + 1"
  by (auto simp: sched_inv_def permits_out_def outstanding_def split: option.splits)

lemma hand_in_accepted:
  assumes inv: "sched_inv limit s" and room: "outstanding s < bound" "bound < unat limit"
  obtains s' where "hand_in q h s = (Inr (), s')" "sched_inv limit s'" "outstanding s' \<le> outstanding s + 1"
    "sc_refused s' = sc_refused s" "sc_peak s' \<le> max (sc_peak s) bound"
    "sc_sent s' = sc_sent s @ (case h of None \<Rightarrow> [] | Some k \<Rightarrow> [k])"
proof -
  let ?s = "tick s"
  let ?rt = "sc_rt ?s"
  have t: "sched_inv limit ?s" "calm s ?s"
    using tick_inv [OF inv] by auto
  have below: "used_count (admission ?rt) < unat (capacity (admission ?rt))"
    using used_outstanding [OF t(1)] t room by (simp add: calm_def sched_inv_def)
  obtain l adm where acq: "try_acquire 1 (admission ?rt) = (l, adm)"
    by (cases "try_acquire 1 (admission ?rt)")
  note facts = try_acquire_one [OF acq less_imp_le [OF below]]
  obtain p where p: "l = Some p"
    using facts(2) below by (cases l) auto
  have adm: "held p = 1" "used_count adm = used_count (admission ?rt) + 1" "capacity adm = limit"
    using facts(1) facts(3) [OF p] t(1) by (auto simp: sched_inv_def)
  let ?c = "\<lparr> fc_request = q, fc_handle = h, fc_permit = p \<rparr>"
  let ?rt' = "?rt\<lparr>admission := adm, commands := commands ?rt @ [Cmd_call ?c]\<rparr>"
  have sub: "submit q h ?rt = (Inr (), ?rt')"
    using t(1) acq p by (simp add: submit_def send_and_wake_def sched_inv_def)
  define s1 where "s1 = ?s\<lparr>sc_rt := ?rt', sc_refused := sc_refused ?s,
      sc_sent := sc_sent ?s @ (case h of None \<Rightarrow> [] | Some k \<Rightarrow> [k])\<rparr>"
  have res: "hand_in q h s = (Inr (), s1\<lparr>sc_peak := max (sc_peak s1) (outstanding s1)\<rparr>)"
    by (simp add: hand_in_def sub s1_def Let_def)
  have out: "outstanding s1 = outstanding ?s + 1"
    by (simp add: s1_def outstanding_def)
  have fields: "sc_peak s1 = sc_peak ?s" "sc_refused s1 = sc_refused ?s"
      "sc_sent s1 = sc_sent ?s @ (case h of None \<Rightarrow> [] | Some k \<Rightarrow> [k])"
    by (simp_all add: s1_def)
  show thesis
  proof (rule that [OF res])
    show "sched_inv limit (s1\<lparr>sc_peak := max (sc_peak s1) (outstanding s1)\<rparr>)"
      using t(1) adm below by (auto simp: sched_inv_def permits_out_def s1_def)
    show "outstanding (s1\<lparr>sc_peak := max (sc_peak s1) (outstanding s1)\<rparr>) \<le> outstanding s + 1"
      using out t(2) by (simp add: outstanding_def calm_def)
  qed (use out fields t(2) room in \<open>auto simp: calm_def max_def\<close>)
qed

definition well :: "u64 \<Rightarrow> nat \<Rightarrow> sched \<Rightarrow> bool" where
  "well limit bound s \<longleftrightarrow> sched_inv limit s \<and> \<not> sc_refused s \<and> sc_peak s \<le> bound"

lemma probe_submit_accepted:
  assumes "well limit bound s" and "outstanding s < bound" and "bound < unat limit"
  obtains s' where "probe_submit sched_client k body s = (Inr (), s')" "well limit bound s'"
    "outstanding s' \<le> outstanding s + 1" "sc_sent s' = sc_sent s @ [k]"
proof -
  obtain s' where "hand_in (probe_request k body) (Some k) s = (Inr (), s')" "sched_inv limit s'" "outstanding s' \<le> outstanding s + 1"
    "sc_refused s' = sc_refused s" "sc_peak s' \<le> max (sc_peak s) bound" "sc_sent s' = sc_sent s @ [k]"
    using hand_in_accepted [of limit s bound "probe_request k body" "Some k"] assms by (auto simp: well_def)
  then show thesis
    using that [of s'] assms(1) by (auto simp: probe_submit_def sched_client_def well_def)
qed

lemma receive_result_well:
  assumes "well limit bound s" and "receive_result sched_client n thread s = (r, s')"
  shows "well limit bound s'" and "sc_sent s' = sc_sent s" and "outstanding s' \<le> outstanding s"
    and "r = Inr () \<Longrightarrow> outstanding s' + 1 \<le> outstanding s"
proof -
  have t: "sched_inv limit (tick s)" "calm s (tick s)"
    using tick_inv [of limit s] assms(1) by (auto simp: well_def)
  have s': "s' = (case sc_results (tick s) of [] \<Rightarrow> tick s | r # rs \<Rightarrow> (tick s)\<lparr>sc_results := rs\<rparr>)"
    using assms(2) by (auto simp: receive_result_def sched_client_def Let_def split: list.splits)
  then show "well limit bound s'" "sc_sent s' = sc_sent s" "outstanding s' \<le> outstanding s"
    using assms(1) t by (auto simp: well_def calm_def sched_inv_def permits_out_def outstanding_def split: list.splits)
  show "r = Inr () \<Longrightarrow> outstanding s' + 1 \<le> outstanding s"
    using assms(2) t by (cases "sc_results (tick s)")
      (auto simp: receive_result_def sched_client_def Let_def calm_def outstanding_def)
qed

lemma submit_initial_accepted:
  assumes "well limit bound s" and "outstanding s + k \<le> bound" and "bound < unat limit"
  shows "\<exists>s'. submit_initial sched_client first_id body offset k s = (Inr (), s') \<and> well limit bound s' \<and>
    outstanding s' \<le> outstanding s + k \<and> sc_sent s' = sc_sent s @ map (\<lambda>i. first_id + of_nat i) [offset..<offset + k]"
  using assms
proof (induction k arbitrary: s offset)
  case (Suc k)
  obtain s1 where s1: "probe_submit sched_client (first_id + of_nat offset) body s = (Inr (), s1)" "well limit bound s1"
      "outstanding s1 \<le> outstanding s + 1" "sc_sent s1 = sc_sent s @ [first_id + of_nat offset]"
    using probe_submit_accepted [of limit bound s "first_id + of_nat offset" body] Suc.prems by auto
  obtain s' where s': "submit_initial sched_client first_id body (Suc offset) k s1 = (Inr (), s')" "well limit bound s'"
      "outstanding s' \<le> outstanding s1 + k"
      "sc_sent s' = sc_sent s1 @ map (\<lambda>i. first_id + of_nat i) [Suc offset..<Suc offset + k]"
    using Suc.IH [of s1 "Suc offset"] s1 Suc.prems by auto
  have "[offset..<offset + Suc k] = offset # [Suc offset..<Suc offset + k]"
    by (simp add: upt_conv_Cons)
  then show ?case
    using s1 s' by (intro exI [of _ s']) simp
qed simp

lemma wave_loop_accepted:
  assumes "well limit bound s" and "outstanding s + requests \<le> sub + left" and "sub + left \<le> requests + bound"
    and "sub \<le> requests" and "bound < unat limit" and "wave_loop sched_client first_id body thread requests sub left s = (r, s')"
  shows "well limit bound s' \<and> (r = Inr () \<longrightarrow> outstanding s' = 0 \<and>
    sc_sent s' = sc_sent s @ map (\<lambda>i. first_id + of_nat i) [sub..<min requests (sub + left)])"
  using assms
proof (induction left arbitrary: s sub)
  case (Suc left)
  obtain r1 s1 where recv: "receive_result sched_client (length body) thread s = (r1, s1)"
    by (cases "receive_result sched_client (length body) thread s")
  note got = receive_result_well [OF Suc.prems(1) recv]
  show ?case
  proof (cases r1)
    case (Inl e)
    then show ?thesis
      using Suc.prems(6) recv got(1) by auto
  next
    case (Inr u)
    then have one: "outstanding s1 + 1 \<le> outstanding s"
      using got(4) by simp
    show ?thesis
    proof (cases "sub < requests")
      case True
      have "outstanding s1 < bound"
        using one Suc.prems(2,3) True by simp
      then obtain s2 where s2: "probe_submit sched_client (first_id + of_nat sub) body s1 = (Inr (), s2)" "well limit bound s2"
          "outstanding s2 \<le> outstanding s1 + 1" "sc_sent s2 = sc_sent s1 @ [first_id + of_nat sub]"
        using probe_submit_accepted [OF got(1) _ Suc.prems(5)] by metis
      have "wave_loop sched_client first_id body thread requests (Suc sub) left s2 = (r, s')"
        using Suc.prems(6) recv Inr s2(1) True by simp
      moreover have "[sub..<min requests (sub + Suc left)] = sub # [Suc sub..<min requests (Suc sub + left)]"
        using True by (simp add: upt_conv_Cons)
      ultimately show ?thesis
        using Suc.IH [of s2 "Suc sub"] s2 got(2) one Suc.prems(2,3,5) True by auto
    next
      case False
      have "wave_loop sched_client first_id body thread requests sub left s1 = (r, s')"
        using Suc.prems(6) recv Inr False by simp
      then show ?thesis
        using Suc.IH [of s1 sub] got one Suc.prems False by auto
    qed
  qed
qed auto

section \<open>Properties\<close>

text \<open>
  A closed loop that keeps fewer requests outstanding than the runtime admits is never refused, although a
  result is out before the permit of its request is back: whatever the runtime does in
  between, every submission of a wave is accepted, no more than the chosen number is outstanding, and a wave
  that ends well has sent each of its requests once, in order.
\<close>

theorem closed_loop_never_refused:
  assumes "sched_inv limit s" and "outstanding s = 0" and "\<not> sc_refused s" and "sc_peak s = 0" and "0 < concurrency"
    and "concurrency < unat limit" and "run_wave sched_client wave requests concurrency body thread s = (r, s')"
  shows "\<not> sc_refused s' \<and> sc_peak s' \<le> concurrency \<and>
    (\<not> isl r \<longrightarrow> sc_sent s' = sc_sent s @ map (\<lambda>i. of_nat ((wave - 1) * requests) + of_nat i) [0..<requests])"
proof (cases "checked_mul (wave - 1) requests")
  case (Some first_id)
  let ?id = "of_nat first_id :: u64" and ?n = "min concurrency requests"
  have first: "first_id = (wave - 1) * requests"
    using Some by (simp add: checked_mul_def split: if_splits)
  have w: "well limit concurrency s"
    using assms by (simp add: well_def)
  obtain s1 where s1: "submit_initial sched_client ?id body 0 ?n s = (Inr (), s1)" "well limit concurrency s1"
      "outstanding s1 \<le> ?n" "sc_sent s1 = sc_sent s @ map (\<lambda>i. ?id + of_nat i) [0..<?n]"
    using submit_initial_accepted [OF w, of ?n ?id body 0] assms(2,6) by auto
  obtain r2 s2 where loop: "wave_loop sched_client ?id body thread requests ?n requests s1 = (r2, s2)"
    by (cases "wave_loop sched_client ?id body thread requests ?n requests s1")
  have ran: "well limit concurrency s2 \<and> (r2 = Inr () \<longrightarrow> outstanding s2 = 0 \<and>
      sc_sent s2 = sc_sent s1 @ map (\<lambda>i. ?id + of_nat i) [?n..<min requests (?n + requests)])"
    by (rule wave_loop_accepted [OF s1(2) _ _ _ assms(6) loop]) (use s1(3) in simp_all)
  note ended = assms(7) [unfolded run_wave_def Some Let_def option.case s1(1) prod.case sum.case loop]
  show ?thesis
  proof (cases r2)
    case (Inl e)
    then show ?thesis
      using ended ran by (auto simp: well_def)
  next
    case (Inr u)
    have ids: "[0..<?n] @ [?n..<requests] = [0..<requests]"
      using upt_add_eq_append [of 0 ?n "requests - ?n"] by simp
    have sent: "sc_sent s2 = sc_sent s @ map (\<lambda>i. ?id + of_nat i) [0..<requests]"
      using ran Inr s1(4) by (simp add: min_absorb1 flip: ids map_append)
    let ?q = "with_forced_gc (probe_request (of_nat (first_id + requests)) [])"
    obtain s3 where call: "hand_in ?q None s2 = (Inr (), s3)" "sched_inv limit s3" "sc_refused s3 = sc_refused s2"
        "sc_peak s3 \<le> max (sc_peak s2) concurrency" "sc_sent s3 = sc_sent s2"
      using hand_in_accepted [of limit s2 concurrency ?q None] ran Inr assms(5,6) by (auto simp: well_def)
    have "calm s3 (tick s3)"
      using tick_inv [OF call(2)] by simp
    then have called: "\<not> sc_refused x \<and> sc_peak x \<le> concurrency \<and> sc_sent x = sc_sent s2"
      if "pr_call sched_client ?q s2 = (y, x)" for x y
      using that call ran by (auto simp: sched_client_def Let_def calm_def well_def split: list.splits)
    show ?thesis
      using ended Inr ran sent first called
      by (auto simp: well_def checked_add_def split: prod.splits if_splits)
  qed
next
  case None
  then show ?thesis
    using assms(3,4) assms(7) [unfolded run_wave_def None option.case] by auto
qed

text \<open>A runtime with room for two, and what it does before each call of a probe with one request outstanding.\<close>

definition probe_answer :: "u64 \<Rightarrow> response" where
  "probe_answer k = \<lparr> resp_status = 200, resp_headers = [(''x-ruvoy-probe-id'', show_nat (unat k)), (''x-request-bytes'', ''0'')],
     resp_body = [], resp_thread = 7 \<rparr>"

definition idle_sched :: "u64 \<Rightarrow> sched_event list list \<Rightarrow> sched" where
  "idle_sched limit plan = \<lparr> sc_rt = new_runtime limit, sc_running = [], sc_finishing = None, sc_results = [],
     sc_plan = plan, sc_answers = [Inr (probe_answer 2)], sc_sent = [], sc_refused = False, sc_peak = 0 \<rparr>"

text \<open>The result of the first request is out, its permit is not back when the second is handed in.\<close>

definition late_release :: "sched_event list list" where
  "late_release = [[], [Se_pass, Se_complete 0 (Inr (probe_answer 0))], [],
     [Se_release, Se_pass, Se_complete 0 (Inr (probe_answer 1))]]"

lemma idle_sched_inv: "sched_inv limit (idle_sched limit plan)" "outstanding (idle_sched limit plan) = 0"
  by (simp_all add: sched_inv_def idle_sched_def permits_out_def new_runtime_def new_budget_def used_count_def outstanding_def)

lemma verify_probe_answer: "verify_response k 0 7 (probe_answer k) = Inr ()"
proof -
  have "eq_ignore_ascii_case x x" for x :: string
    by (simp add: eq_ignore_ascii_case_def)
  moreover have "\<not> eq_ignore_ascii_case ''x-ruvoy-probe-id'' ''x-request-bytes''" "show_nat 0 = ''0''"
    by code_simp+
  ultimately show ?thesis
    by (simp add: verify_response_def probe_answer_def response_header_def)
qed

lemmas probe_eval = run_wave_def checked_mul_def checked_add_def sched_client_def hand_in_def tick_def probe_submit_def
  receive_result_def submit_def try_acquire_def does_not_fit_def saturating_sub_def send_and_wake_def drop_lease_def bridge_execute_def
  verify_probe_answer empty_batch_def

lemma late_release_accepted: "\<not> isl (fst (run_wave sched_client 1 (Suc (Suc 0)) 1 [] 7 (idle_sched 2 late_release)))"
  by (simp add: probe_eval idle_sched_def late_release_def new_runtime_def new_budget_def)

theorem closed_loop_never_refused_witness:
  "sc_sent (snd (run_wave sched_client 1 2 1 [] 7 (idle_sched 2 late_release))) = [0, 1] \<and>
   \<not> sc_refused (snd (run_wave sched_client 1 2 1 [] 7 (idle_sched 2 late_release)))"
proof -
  obtain r s' where r: "run_wave sched_client 1 2 1 [] 7 (idle_sched 2 late_release) = (r, s')"
    by (cases "run_wave sched_client 1 2 1 [] 7 (idle_sched 2 late_release)")
  have start: "\<not> sc_refused (idle_sched 2 late_release)" "sc_peak (idle_sched 2 late_release) = 0" "sc_sent (idle_sched 2 late_release) = []"
    by (simp_all add: idle_sched_def)
  have "\<not> isl r"
    using late_release_accepted r by (simp add: numeral_2_eq_2)
  moreover have "[0..<2] = [0, Suc 0]"
    by (simp add: numeral_2_eq_2)
  ultimately show ?thesis
    unfolding r using closed_loop_never_refused [OF idle_sched_inv start(1,2) _ _ r] start(3) by simp
qed

text \<open>
  The check of the settings lets the number of outstanding requests reach the limit of the runtime
  itself.  There the same plan has the second request refused: its predecessor
  has been answered and is still counted.
\<close>

theorem full_concurrency_is_refused:
  "fst (run_wave sched_client 1 2 1 [] 7 (idle_sched 1 late_release)) = Inl (Bridge_failed Overloaded) \<and>
   read_settings (\<lambda>name. if name = ''RUVOY_PROBE_CONCURRENCY'' then Some (Some ''1024'') else None) =
     Inr \<lparr> ps_waves = 3, ps_requests_per_wave = 1000, ps_concurrency = unat default_max_inflight_requests,
           ps_body_bytes = 0, ps_host_threads = 4 \<rparr>"
proof
  have "fst (run_wave sched_client 1 (Suc (Suc 0)) 1 [] 7 (idle_sched 1 late_release)) = Inl (Bridge_failed Overloaded)"
    by (simp add: probe_eval idle_sched_def late_release_def new_runtime_def new_budget_def)
  then show "fst (run_wave sched_client 1 2 1 [] 7 (idle_sched 1 late_release)) = Inl (Bridge_failed Overloaded)"
    by (simp add: numeral_2_eq_2)
  have "show_nat 1024 = ''1024''"
    by code_simp
  then have "parse_uint (2 ^ 64 - 1) ''1024'' = Some 1024"
    using parse_uint_show [of 1024 "2 ^ 64 - 1"] by simp
  then show "read_settings (\<lambda>name. if name = ''RUVOY_PROBE_CONCURRENCY'' then Some (Some ''1024'') else None) =
     Inr \<lparr> ps_waves = 3, ps_requests_per_wave = 1000, ps_concurrency = unat default_max_inflight_requests,
           ps_body_bytes = 0, ps_host_threads = 4 \<rparr>"
    by (simp add: read_settings_def positive_env_usize_def non_negative_env_usize_def default_max_inflight_requests_def)
qed

text \<open>
  Only settings within their limits are taken: every number was absent or a decimal number that fits 64 bits, the
  first three are positive, and neither the outstanding requests nor the body exceeds its limit.
\<close>

theorem settings_within_limits:
  assumes "read_settings env = Inr ps"
  shows "0 < ps_waves ps \<and> 0 < ps_requests_per_wave ps \<and> 0 < ps_concurrency ps \<and>
    ps_concurrency ps \<le> unat default_max_inflight_requests \<and> ps_body_bytes ps \<le> PROBE_MAX_BODY_BYTES"
proof -
  have "0 < n" if "positive_env_usize name m var = Inr n" "0 < m" for name m var n
    using that by (auto simp: positive_env_usize_def result_simps split: option.splits if_splits)
  then show ?thesis
    using assms by (auto simp: read_settings_def and_then_Inr_iff split: if_splits)
qed


text \<open>
  However the program ends, no idle thread is left running; when it ends well there is one report for each of the
  waves asked for, and the runtime shut down cleanly.
\<close>

theorem probe_cleans_up:
  assumes "probe_main cl env spawned started in_ruby stopped c = Some (r, it, c')"
  shows "it_running it = 0 \<and>
    (\<forall>report. r = Inr report \<longrightarrow> stopped = Inr () \<and> (\<exists>ps. read_settings env = Inr ps \<and> length report = ps_waves ps))"
proof (cases "read_settings env")
  case (Inl e)
  then show ?thesis
    using assms by (auto simp: probe_main_def)
next
  case (Inr ps)
  obtain idle where idle: "start_idle_threads (ps_host_threads ps) 0 spawned = Some idle"
    using assms Inr by (auto simp: probe_main_def)
  obtain waves c1 where waves: "run_waves cl ps thread 1 (ps_waves ps) c = (waves, c1)" if "started = Inr thread" for thread
    by (cases started; cases "run_waves cl ps (projr started) 1 (ps_waves ps) c") auto
  show ?thesis
    using assms Inr idle waves
    by (cases idle; cases started; cases waves)
      (auto simp: probe_main_def drop_idle_threads_def result_simps Let_def dest: run_waves_length split: if_splits)
qed

end
