(* ===== verification/Example_Programs.thy ===== *)
theory Example_Programs
  imports Serial_Runtime Stability_Probe
begin

text \<open>
  The programs around the two runtimes: the demonstration (src/src/main.rs), the cost of one call
  (src/examples/bridge_benchmark.rs) and the batches of src/examples/fiber_runtime.rs.

  The first two are clients of the serial runtime and are composed with its model: a
  blocking call queues one command, the owner thread finds it, and its completion
  is what the caller receives.  The third hands its requests to a client of the fiber
  runtime, for which the schedules of \<open>Stability_Probe\<close> stand.
\<close>

section \<open>A blocking call of the serial runtime\<close>

text \<open>
  The client and the number of calls the thread has made.  A client that could not queue its command
  leaves the thread without one.
\<close>

type_synonym ('h, 'u) serial_world = "(('h, 'u) request, unit) serial_client \<times> nat"

definition blocking_call ::
    "('v, 'h, 'u) serial_app \<Rightarrow> 'v call_context \<Rightarrow> ('h, 'u) request \<Rightarrow> ('h, 'u) serial_world
       \<Rightarrow> (bridge_error, response) result \<times> ('h, 'u) serial_world" where
  "blocking_call app ctx q w = (case w of (sc, n) \<Rightarrow>
     let pending = sc_commands (snd (serial_submit q () sc));
         (_, m, deeds) = serial_commands app ctx True pending n;
         received = (case completions deeds of [] \<Rightarrow> Inl Recv_Timeout | (_, r) # _ \<Rightarrow> Inr r);
         (answer, sc1) = serial_client_call q () received sc
     in (answer, sc1\<lparr>sc_commands := []\<rparr>, m))"

text \<open>The same call made a number of times; the first error ends the program.\<close>

fun repeat_call ::
    "('v, 'h, 'u) serial_app \<Rightarrow> 'v call_context \<Rightarrow> ('h, 'u) request \<Rightarrow> nat \<Rightarrow> ('h, 'u) serial_world
       \<Rightarrow> (bridge_error, response list) result \<times> ('h, 'u) serial_world" where
  "repeat_call app ctx q 0 w = (Inr [], w)"
| "repeat_call app ctx q (Suc k) w =
     (case blocking_call app ctx q w of
        (Inl e, w1) \<Rightarrow> (Inl e, w1)
      | (Inr r, w1) \<Rightarrow>
          (case repeat_call app ctx q k w1 of
             (Inl e, w2) \<Rightarrow> (Inl e, w2)
           | (Inr rs, w2) \<Rightarrow> (Inr (r # rs), w2)))"

section \<open>The demonstration\<close>

text \<open>What it prints, and how it ends.\<close>

definition demo_main ::
    "serial_start_env \<Rightarrow> ('v, 'h, 'u) serial_app \<Rightarrow> 'v call_context \<Rightarrow> (recv_timeout_error, unit) result
       \<Rightarrow> (panic_payload, (bridge_error, unit) result) result \<Rightarrow> string list \<times> (bridge_error, unit) result" where
  "demo_main se app ctx stopped joined =
     (case ruby_runtime_start se of
        Inl e \<Rightarrow> ([], Inl e)
      | Inr (rr, sc) \<Rightarrow>
          (case blocking_call app ctx (new_request ''POST'' ''/demo'' ''hello'') (sc, 0) of
             (Inl e, _) \<Rightarrow> ([], Inl e)
           | (Inr r, sc1, _) \<Rightarrow>
               ([''Ruby: '' @ ruby_description (rr_info rr),
                 ''Status: '' @ show_nat (unat (resp_status r)),
                 ''Body: '' @ from_utf8_lossy (resp_body r),
                 ''Ruby thread object id: '' @ show_nat (unat (resp_thread r))],
                fst (serial_shutdown_inner 0 stopped joined rr sc1))))"

section \<open>The cost of one call\<close>

definition pure_rust_call :: "('h, 'u) request \<Rightarrow> response" where
  "pure_rust_call q =
     \<lparr> resp_status = 200,
       resp_headers = [(''content-type'', ''application/octet-stream''), (''content-length'', ''0''),
         (''x-request-bytes'', show_nat (length (req_body q)))],
       resp_body = [], resp_thread = 0 \<rparr>"

text \<open>
  A sample is a double, by its bits; \<open>total_cmp\<close> orders doubles as integers once the bits below the
  sign of a negative one are flipped.
\<close>

definition total_key :: "u64 \<Rightarrow> int" where
  "total_key b = (if sint b < 0 then sint (xor b 0x7FFFFFFFFFFFFFFF) else sint b)"

text \<open>
  The arithmetic on doubles: the mean of some samples, and \<open>(n as f64 * p).round() as usize\<close>, the share
  in hundredths.
\<close>

record double_ops =
  mean_of :: "u64 list \<Rightarrow> u64"
  rounded_share :: "nat \<Rightarrow> nat \<Rightarrow> nat"

text \<open>An index out of range, and the length of no samples less one, is a panic: \<^term>\<open>None\<close>.\<close>

definition percentile :: "double_ops \<Rightarrow> u64 list \<Rightarrow> nat \<Rightarrow> u64 option" where
  "percentile ops sorted_samples share =
     (if sorted_samples = [] then None
      else let i = rounded_share ops (length sorted_samples - 1) share
           in if i < length sorted_samples then Some (sorted_samples ! i) else None)"

definition summarize :: "double_ops \<Rightarrow> u64 list \<Rightarrow> (u64 \<times> u64 \<times> u64 \<times> u64) option" where
  "summarize ops samples =
     (let ordered = sort_key total_key samples in
      Option.bind (percentile ops ordered 50) (\<lambda>p50.
      Option.bind (percentile ops ordered 95) (\<lambda>p95.
      Option.bind (percentile ops ordered 99) (\<lambda>p99.
      Some (mean_of ops ordered, p50, p95, p99)))))"

definition bench_iterations :: "string option \<Rightarrow> nat" where
  "bench_iterations var = unwrap_or (Option.bind var (parse_uint (2 ^ 64 - 1))) 5000"

text \<open>
  \<open>pure\<close> and \<open>bridge\<close> are the times the clock gave, by the number of the call they belong to; the number of calls
  without Ruby wraps as in a release build.
\<close>

datatype bench_end = Bench_failed bridge_error | Bench_panicked | Bench_report nat "u64 \<times> u64 \<times> u64 \<times> u64" "u64 \<times> u64 \<times> u64 \<times> u64"

definition bench_main ::
    "double_ops \<Rightarrow> string option \<Rightarrow> serial_start_env \<Rightarrow> ('v, 'h, 'u) serial_app \<Rightarrow> 'v call_context
       \<Rightarrow> (recv_timeout_error, unit) result \<Rightarrow> (panic_payload, (bridge_error, unit) result) result
       \<Rightarrow> (nat \<Rightarrow> u64) \<Rightarrow> (nat \<Rightarrow> u64) \<Rightarrow> bench_end \<times> nat" where
  "bench_main ops var se app ctx stopped joined pure bridge =
     (let iterations = bench_iterations var;
          pure_samples = map pure [0..<(iterations * 20) mod 2 ^ 64];
          request = new_request ''GET'' ''/benchmark'' []
      in case ruby_runtime_start se of
           Inl e \<Rightarrow> (Bench_failed e, 0)
         | Inr (rr, sc) \<Rightarrow>
             (case repeat_call app ctx request 100 (sc, 0) of
                (Inl e, _, n) \<Rightarrow> (Bench_failed e, n)
              | (Inr _, w) \<Rightarrow>
                  (case repeat_call app ctx request iterations w of
                     (Inl e, _, n) \<Rightarrow> (Bench_failed e, n)
                   | (Inr _, sc2, n) \<Rightarrow>
                       (case fst (serial_shutdown_inner 0 stopped joined rr sc2) of
                          Inl e \<Rightarrow> (Bench_failed e, n)
                        | Inr _ \<Rightarrow>
                            (case (summarize ops pure_samples, summarize ops (map bridge [0..<iterations])) of
                               (Some p, Some b) \<Rightarrow> (Bench_report iterations p b, n)
                             | _ \<Rightarrow> (Bench_panicked, n))))))"

section \<open>What the clients of the serial runtime see\<close>

text \<open>A client whose thread is up and whose signals arrive, with nothing queued.\<close>

definition connected :: "('q, 'k) serial_client \<Rightarrow> bool" where
  "connected sc \<longleftrightarrow> sc_receiver_alive sc \<and> sc_signal sc = Inr () \<and> sc_commands sc = []"

lemma blocking_call_served:
  assumes "connected sc"
  shows "blocking_call app ctx q (sc, n) = (serve_one app ctx n q, sc, n + 1)"
  using assms
  by (simp add: blocking_call_def connected_def serial_client_call_def serial_submit_def serial_send_def
      completions_def recv_reply_def Let_def)

lemma repeat_call_served:
  assumes "connected sc" and "repeat_call app ctx q k (sc, n) = (r, w)"
  shows "case r of
      Inr rs \<Rightarrow> w = (sc, n + k) \<and> map Inr rs = map (\<lambda>i. serve_one app ctx i q) [n..<n + k]
    | Inl e \<Rightarrow> \<exists>i < k. serve_one app ctx (n + i) q = Inl e \<and> w = (sc, n + i + 1)"
  using assms(2)
proof (induction k arbitrary: n r w)
  case (Suc k)
  show ?case
  proof (cases "serve_one app ctx n q")
    case (Inl e)
    then show ?thesis
      using Suc.prems by (auto simp: blocking_call_served [OF assms(1)] intro!: exI [of _ 0])
  next
    case (Inr a)
    obtain r1 w1 where rest: "repeat_call app ctx q k (sc, n + 1) = (r1, w1)"
      by (cases "repeat_call app ctx q k (sc, n + 1)")
    note tail = Suc.IH [OF rest]
    show ?thesis
    proof (cases r1)
      case (Inl e)
      then obtain i where "i < k" "serve_one app ctx (n + 1 + i) q = Inl e" "w1 = (sc, n + 1 + i + 1)"
        using tail by auto
      then show ?thesis
        using Suc.prems Inl Inr rest by (auto simp: blocking_call_served [OF assms(1)] intro!: exI [of _ "Suc i"])
    next
      case r1: (Inr rs)
      have "[n..<n + Suc k] = n # [n + 1..<n + 1 + k]"
        by (simp add: upt_conv_Cons)
      then show ?thesis
        using Suc.prems tail Inr r1 rest by (auto simp: blocking_call_served [OF assms(1)])
    qed
  qed
qed auto

lemma start_connects:
  "ruby_runtime_start se = Inr (rr, sc) \<Longrightarrow> sn_signal se = Inr () \<Longrightarrow> connected sc"
  by (auto simp: ruby_runtime_start_def result_simps connected_def)

text \<open>
  The demonstration prints the one answer of the application to its request, or
  nothing and the error that stopped it.
\<close>

theorem demo_shows_the_answer:
  fixes sc :: "(('h, 'u) request, unit) serial_client" and app :: "('v, 'h, 'u) serial_app"
  assumes "ruby_runtime_start se = Inr (rr, sc)" and "sn_signal se = Inr ()"
  shows "case serve_one app ctx 0 (new_request ''POST'' ''/demo'' ''hello'') of
      Inl e \<Rightarrow> demo_main se app ctx stopped joined = ([], Inl e)
    | Inr r \<Rightarrow> fst (demo_main se app ctx stopped joined) =
        [''Ruby: '' @ ruby_description (rr_info rr), ''Status: '' @ show_nat (unat (resp_status r)),
         ''Body: '' @ from_utf8_lossy (resp_body r), ''Ruby thread object id: '' @ show_nat (unat (resp_thread r))]"
  using assms start_connects [OF assms]
  by (cases "serve_one app ctx 0 (new_request ''POST'' ''/demo'' ''hello'')")
    (simp_all add: demo_main_def blocking_call_served)

section \<open>What the benchmark reports\<close>

text \<open>What rounding a share of a number gives: no more than the number, and more for a larger share.\<close>

definition shares :: "double_ops \<Rightarrow> bool" where
  "shares ops \<longleftrightarrow>
     (\<forall>n p. p \<le> 100 \<longrightarrow> rounded_share ops n p \<le> n) \<and>
     (\<forall>n p q. p \<le> q \<longrightarrow> rounded_share ops n p \<le> rounded_share ops n q)"

lemma percentile_some:
  assumes "shares ops" "xs \<noteq> []" "p \<le> 100"
  shows "percentile ops xs p = Some (xs ! rounded_share ops (length xs - 1) p)"
    and "rounded_share ops (length xs - 1) p < length xs"
proof -
  have "rounded_share ops (length xs - 1) p \<le> length xs - 1"
    using assms by (simp add: shares_def)
  then show "rounded_share ops (length xs - 1) p < length xs"
    using assms(2) by (cases xs) auto
  then show "percentile ops xs p = Some (xs ! rounded_share ops (length xs - 1) p)"
    using assms(2) by (simp add: percentile_def Let_def)
qed

text \<open>
  The percentiles of some samples are samples, in the order of their shares; no samples are a panic.
\<close>

theorem summarize_orders_percentiles:
  assumes "shares ops"
  shows "(samples = [] \<longrightarrow> summarize ops samples = None) \<and>
    (samples \<noteq> [] \<longrightarrow> (\<exists>m a b c. summarize ops samples = Some (m, a, b, c) \<and> {a, b, c} \<subseteq> set samples \<and>
       total_key a \<le> total_key b \<and> total_key b \<le> total_key c))"
proof (cases "samples = []")
  case True
  then show ?thesis
    by (simp add: summarize_def percentile_def)
next
  case False
  define xs where "xs = sort_key total_key samples"
  have xs: "xs \<noteq> []" "set xs = set samples" "sorted (map total_key xs)"
    using False by (simp_all add: xs_def)
      (metis False set_empty2 set_sort)
  define at where "at p = rounded_share ops (length xs - 1) p" for p
  have inside: "at p < length xs" if "p \<le> 100" for p
    using percentile_some(2) [OF assms xs(1) that] by (simp add: at_def)
  have mono: "total_key (xs ! at p) \<le> total_key (xs ! at q)" if "p \<le> q" "q \<le> 100" for p q
  proof -
    have "at p \<le> at q"
      using assms that(1) by (simp add: at_def shares_def)
    then show ?thesis
      using sorted_nth_mono [OF xs(3), of "at p" "at q"] inside [of q] that(2) by simp
  qed
  have "summarize ops samples = Some (mean_of ops xs, xs ! at 50, xs ! at 95, xs ! at 99)"
    using percentile_some(1) [OF assms xs(1)] by (simp add: summarize_def at_def flip: xs_def)
  moreover have "xs ! at p \<in> set samples" if "p \<le> 100" for p
    using nth_mem [OF inside [OF that]] xs(2) by simp
  ultimately show ?thesis
    using False mono [of 50 95] mono [of 95 99] by simp
qed

text \<open>
  A benchmark that reports made a hundred calls to warm up and the number it was asked for, each answered by the
  application; asked for none it never reports, since there is nothing to summarize.
\<close>

theorem bench_makes_its_calls:
  fixes sc :: "(('h, 'u) request, unit) serial_client" and app :: "('v, 'h, 'u) serial_app"
  assumes "ruby_runtime_start se = Inr (rr, sc)" and "sn_signal se = Inr ()" and "shares ops"
    and "bench_main ops var se app ctx stopped joined pure bridge = (ending, n)"
  shows "(\<forall>k p b. ending = Bench_report k p b \<longrightarrow>
      k = bench_iterations var \<and> 0 < k \<and> n = 100 + k \<and>
      (\<forall>i < n. \<not> isl (serve_one app ctx i (new_request ''GET'' ''/benchmark'' [])))) \<and>
    (var = Some ''0'' \<longrightarrow> (\<forall>k p b. ending \<noteq> Bench_report k p b))"
proof -
  note conn = start_connects [OF assms(1,2)]
  let ?q = "new_request ''GET'' ''/benchmark'' []" and ?k = "bench_iterations var"
  have report: "k = ?k \<and> 0 < k \<and> n = 100 + k \<and> (\<forall>i < n. \<not> isl (serve_one app ctx i ?q))"
    if rep: "ending = Bench_report k p b" for k p b
  proof -
    obtain r1 w1 where first: "repeat_call app ctx ?q 100 (sc, 0) = (r1, w1)"
      by (cases "repeat_call app ctx ?q 100 (sc, 0)")
    obtain rs1 where r1: "r1 = Inr rs1"
      using assms(1,4) rep first by (cases r1) (auto simp: bench_main_def Let_def split: prod.splits)
    have one: "w1 = (sc, 100)" "map Inr rs1 = map (\<lambda>i. serve_one app ctx i ?q) [0..<100]"
      using repeat_call_served [OF conn first] r1 by auto
    obtain r2 w2 where second: "repeat_call app ctx ?q ?k (sc, 100) = (r2, w2)"
      by (cases "repeat_call app ctx ?q ?k (sc, 100)")
    obtain rs2 where r2: "r2 = Inr rs2"
      using assms(1,4) rep first second r1 one by (cases r2) (auto simp: bench_main_def Let_def split: prod.splits)
    have two: "w2 = (sc, 100 + ?k)" "map Inr rs2 = map (\<lambda>i. serve_one app ctx i ?q) [100..<100 + ?k]"
      using repeat_call_served [OF conn second] r2 by auto
    have ended: "k = ?k" "n = 100 + ?k" "summarize ops (map bridge [0..<?k]) = Some b"
      using assms(1,4) rep first second r1 r2 one two
      by (auto simp: bench_main_def Let_def split: sum.splits option.splits)
    have ok: "\<not> isl (serve_one app ctx i ?q)" if "i < 100 + ?k" for i
    proof -
      have "serve_one app ctx i ?q \<in> set (map Inr (rs1 @ rs2))"
        using that one(2) two(2) by (auto simp: image_iff)
          (metis (no_types, lifting) atLeastLessThan_iff not_less zero_le)
      then show ?thesis
        by auto
    qed
    moreover have "?k \<noteq> 0"
      using ended(3) summarize_orders_percentiles [OF assms(3), of "[]"] by (cases "?k") auto
    ultimately show ?thesis
      using ended by auto
  qed
  have "bench_iterations (Some ''0'') = 0"
    by (simp add: bench_iterations_def parse_uint_def strip_prefix_def digit_of_def byte_val_def)
  then show ?thesis
    using report by fastforce
qed

section \<open>Batches of the fiber runtime\<close>

text \<open>
  One thread submits each request of a batch; \<open>order\<close> is how the threads came to do so.  A submission, a
  result or an answer that is missing is a panic: \<^term>\<open>None\<close>.
\<close>

definition batch_request :: "string \<Rightarrow> nat \<Rightarrow> probe_rq" where
  "batch_request path i = new_request ''GET'' path (''request-'' @ show_nat i)"

fun submit_batch :: "'c probe_client \<Rightarrow> string \<Rightarrow> nat list \<Rightarrow> 'c \<Rightarrow> unit option \<times> 'c" where
  "submit_batch cl path [] c = (Some (), c)"
| "submit_batch cl path (i # order) c =
     (case pr_submit cl (batch_request path i) (of_nat i) c of
        (Inl e, c1) \<Rightarrow> (None, snd (submit_batch cl path order c1))
      | (Inr _, c1) \<Rightarrow> submit_batch cl path order c1)"

fun receive_batch :: "'c probe_client \<Rightarrow> nat \<Rightarrow> 'c \<Rightarrow> response list option \<times> 'c" where
  "receive_batch cl 0 c = (Some [], c)"
| "receive_batch cl (Suc k) c =
     (case pr_receive cl c of
        (Inr (_, Inr r), c1) \<Rightarrow> (let (rs, c2) = receive_batch cl k c1 in (map_option ((#) r) rs, c2))
      | (_, c1) \<Rightarrow> (None, c1))"

definition run_batch :: "'c probe_client \<Rightarrow> nat \<Rightarrow> string \<Rightarrow> nat list \<Rightarrow> 'c \<Rightarrow> response list option \<times> 'c" where
  "run_batch cl size1 path order c =
     (case submit_batch cl path order c of
        (None, c1) \<Rightarrow> (None, c1)
      | (Some _, c1) \<Rightarrow> receive_batch cl size1 c1)"

text \<open>The answers of a batch that name a different fiber each; a missing name is a panic.\<close>

definition unique_fibers :: "response list \<Rightarrow> nat option" where
  "unique_fibers rs =
     map_option (\<lambda>ids. length (remdups ids)) (those (map (\<lambda>r. response_header r ''x-ruby-fiber-object-id'') rs))"

definition all_served :: "response list \<Rightarrow> bool" where
  "all_served rs = list_all (\<lambda>r. resp_status r = 200) rs"

text \<open>The assertions on the three batches with the time each took; false is a panic.\<close>

definition async_batch_ok :: "u64 \<Rightarrow> duration \<Rightarrow> response list \<Rightarrow> bool" where
  "async_batch_ok thread elapsed rs \<longleftrightarrow>
     elapsed < 700000000 \<and> all_served rs \<and>
     (case rs of
        [] \<Rightarrow> False
      | r # _ \<Rightarrow>
          (case response_header r ''x-async-version'' of
             None \<Rightarrow> False
           | Some version \<Rightarrow>
               list_all (\<lambda>r. resp_thread r = thread \<and> response_header r ''x-async-version'' = Some version) rs)) \<and>
     unique_fibers rs = Some 10"

definition io_batch_ok :: "duration \<Rightarrow> response list \<Rightarrow> bool" where
  "io_batch_ok elapsed rs \<longleftrightarrow> elapsed < 700000000 \<and> all_served rs \<and> unique_fibers rs = Some 10"

definition blocking_batch_ok :: "duration \<Rightarrow> response list \<Rightarrow> bool" where
  "blocking_batch_ok elapsed rs \<longleftrightarrow> 450000000 \<le> elapsed \<and> elapsed < 2000000000 \<and> all_served rs"

lemma batch_submit_accepted:
  assumes "well limit bound s" and "outstanding s + length order \<le> bound" and "bound < unat limit"
  shows "\<exists>s'. submit_batch sched_client path order s = (Some (), s') \<and> well limit bound s' \<and>
    sc_sent s' = sc_sent s @ map of_nat order"
  using assms
proof (induction order arbitrary: s)
  case (Cons i order)
  let ?q = "batch_request path i"
  obtain s1 where s1: "hand_in ?q (Some (of_nat i)) s = (Inr (), s1)" "sched_inv limit s1" "outstanding s1 \<le> outstanding s + 1"
      "sc_refused s1 = sc_refused s" "sc_peak s1 \<le> max (sc_peak s) bound" "sc_sent s1 = sc_sent s @ [of_nat i]"
    using hand_in_accepted [of limit s bound ?q "Some (of_nat i)"] Cons.prems by (auto simp: well_def)
  then have "well limit bound s1"
    using Cons.prems(1) by (auto simp: well_def)
  from Cons.IH [OF this] s1 Cons.prems show ?case
    by (auto simp: sched_client_def)
qed simp

lemma receive_batch_length: "receive_batch cl k c = (Some rs, c') \<Longrightarrow> length rs = k"
  by (induction k arbitrary: c rs) (auto simp: Let_def split: prod.splits sum.splits)

lemma receive_batch_well:
  assumes "well limit bound s" and "receive_batch sched_client k s = (rs, s')"
  shows "well limit bound s' \<and> sc_sent s' = sc_sent s"
  using assms
proof (induction k arbitrary: s rs)
  case (Suc k)
  obtain got s1 where recv: "pr_receive sched_client s = (got, s1)"
    by (cases "pr_receive sched_client s")
  have t: "sched_inv limit (tick s)" "calm s (tick s)"
    using tick_inv [of limit s] Suc.prems(1) by (auto simp: well_def)
  have s1: "well limit bound s1 \<and> sc_sent s1 = sc_sent s"
    using recv t Suc.prems(1)
    by (auto simp: sched_client_def Let_def well_def calm_def sched_inv_def permits_out_def split: list.splits)
  show ?case
    using Suc.prems(2) recv s1 Suc.IH [of s1]
    by (auto simp: Let_def split: sum.splits prod.splits)
qed simp

text \<open>
  A batch of fewer requests than the runtime admits is accepted whole on an idle runtime, whatever
  the order of its threads and the schedule of the runtime: each request is sent once, and a batch that returns has
  an answer for each.
\<close>

theorem batch_is_accepted:
  assumes "sched_inv limit s" and "outstanding s = 0" and "\<not> sc_refused s" and "sc_peak s = 0"
    and "mset order = mset [0..<size1]" and "size1 < unat limit"
    and "run_batch sched_client size1 path order s = (r, s')"
  shows "\<not> sc_refused s' \<and> sc_sent s' = sc_sent s @ map of_nat order \<and>
    (\<forall>rs. r = Some rs \<longrightarrow> length rs = size1)"
proof -
  have len: "length order = size1"
    using assms(5) by (metis length_upt minus_nat.diff_0 size_mset)
  have "well limit size1 s"
    using assms(1,3,4) by (simp add: well_def)
  then obtain s1 where s1: "submit_batch sched_client path order s = (Some (), s1)" "well limit size1 s1"
      "sc_sent s1 = sc_sent s @ map of_nat order"
    using batch_submit_accepted [of limit size1 s order path] assms(2,6) len by auto
  have received: "receive_batch sched_client size1 s1 = (r, s')"
    using assms(7) s1(1) by (simp add: run_batch_def)
  show ?thesis
    using receive_batch_well [OF s1(2) received] s1(3) receive_batch_length received by (auto simp: well_def)
qed

end
