(* ===== verification/Build_Scripts.thy ===== *)
theory Build_Scripts
  imports Rust_Text
begin

text \<open>
  The build scripts (src/build.rs and those of the modules): what they print for Cargo, from the
  environment and the answer of the installed Ruby, which are arguments.  The scripts of the
  two Ruby modules are the same text.
\<close>

text \<open>
  A variable is absent when it is unset or no UTF-8.  Running Ruby fails, or gives whether it
  succeeded and what it printed.
\<close>

record cargo_env =
  be_var :: "string \<Rightarrow> string option"
  be_run :: "string \<Rightarrow> string list \<Rightarrow> (bool \<times> bytes) option"

definition ruby_libdir :: "cargo_env \<Rightarrow> string option" where
  "ruby_libdir e =
     (let ruby = unwrap_or (be_var e ''RUBY'') ''ruby'' in
      Option.bind (be_run e ruby [''-e'', ''print RbConfig::CONFIG['' @ [CHR 0x27] @ ''libdir'' @ [CHR 0x27] @ '']'']) (\<lambda>(success, out).
      if \<not> success then None
      else Option.bind (if valid_utf8 out then Some out else None) (\<lambda>text1.
        let libdir = trim text1 in if libdir \<noteq> [] then Some libdir else None)))"

definition crate_build :: "cargo_env \<Rightarrow> string list" where
  "crate_build e =
     (if unwrap_or (be_var e ''CARGO_CFG_TARGET_OS'') [] \<noteq> ''linux'' then []
      else ''cargo:rerun-if-env-changed=RUBY'' #
        (case ruby_libdir e of None \<Rightarrow> [] | Some libdir \<Rightarrow> [''cargo:rustc-link-arg=-Wl,-rpath,'' @ libdir]))"

definition module_build :: "cargo_env \<Rightarrow> string list" where
  "module_build e =
     (let target_os = unwrap_or (be_var e ''CARGO_CFG_TARGET_OS'') [] in
      if target_os = ''macos'' then [''cargo:rustc-cdylib-link-arg=-Wl,-undefined,dynamic_lookup'']
      else if target_os \<noteq> ''linux'' then []
      else [''cargo:rerun-if-env-changed=RUBY'',
        (case ruby_libdir e of
           Some libdir \<Rightarrow> ''cargo:rustc-cdylib-link-arg=-Wl,-rpath,'' @ libdir
         | None \<Rightarrow> ''cargo:warning=could not resolve the Ruby libdir; the module will need LD_LIBRARY_PATH'')])"

definition baseline_build :: "bool \<Rightarrow> string list" where
  "baseline_build built_on_macos =
     (if built_on_macos then [''cargo:rustc-cdylib-link-arg=-Wl,-undefined,dynamic_lookup''] else [])"

text \<open>
  A run path is printed only for a directory Ruby reported, in a run that succeeded, as text without
  space around it; without one a module warns and the crate stays silent.
\<close>

lemma libdir_as_reported:
  assumes "ruby_libdir e = Some libdir"
  shows "\<exists>ruby args out. be_run e ruby args = Some (True, out) \<and> valid_utf8 out \<and> libdir = trim out \<and> libdir \<noteq> []"
  using assms by (auto simp: ruby_libdir_def Let_def bind_eq_Some_conv split: if_splits)

lemma module_build_linux:
  assumes "be_var e ''CARGO_CFG_TARGET_OS'' = Some ''linux''"
  shows "list_ex (\<lambda>l. starts_with l ''cargo:warning='') (module_build e) = (ruby_libdir e = None)"
    and "(\<exists>l \<in> set (crate_build e). starts_with l ''cargo:rustc-link-arg='') = (ruby_libdir e \<noteq> None)"
  using assms by (cases "ruby_libdir e"; simp add: module_build_def crate_build_def starts_with_def)+

end
