(* ===== verification/Schedule_Explorer.thy ===== *)
theory Schedule_Explorer
  imports Prelude
begin

text \<open>
  Running a small concurrent program under every schedule, as the tests under
  \<open>cfg(loom)\<close> do.  A program is a function from a state to the states one atomic
  step of any of its threads may lead to; the search keeps the states it has
  seen, so a thread that spins does not keep it from ending.  What it returns
  is closed under steps, so a check of the states found is a statement about
  every reachable state.
\<close>

fun explore :: "('s \<Rightarrow> 's list) \<Rightarrow> nat \<Rightarrow> 's list \<Rightarrow> 's list \<Rightarrow> 's list option" where
  "explore successors n [] seen = Some seen"
| "explore successors 0 (s # todo) seen = None"
| "explore successors (Suc n) (s # todo) seen =
     (if s \<in> set seen then explore successors n todo seen
      else explore successors n (successors s @ todo) (s # seen))"

text \<open>Every state the program can be in satisfies the check; false when the fuel did not suffice.\<close>

definition every_schedule :: "('s \<Rightarrow> 's list) \<Rightarrow> nat \<Rightarrow> 's \<Rightarrow> ('s \<Rightarrow> bool) \<Rightarrow> bool" where
  "every_schedule successors n s check1 =
     (case explore successors n [s] [] of None \<Rightarrow> False | Some found \<Rightarrow> list_all check1 found)"

lemma explore_closed:
  assumes "explore successors n todo seen = Some found"
    and "\<forall>s \<in> set seen. set (successors s) \<subseteq> set seen \<union> set todo"
  shows "set todo \<union> set seen \<subseteq> set found \<and> (\<forall>s \<in> set found. set (successors s) \<subseteq> set found)"
  using assms
proof (induction successors n todo seen rule: explore.induct)
  case (3 successors n s todo seen)
  show ?case
  proof (cases "s \<in> set seen")
    case True
    then have "explore successors n todo seen = Some found"
      and "\<forall>s \<in> set seen. set (successors s) \<subseteq> set seen \<union> set todo"
      using "3.prems" by auto
    from "3.IH"(1) [OF True this] True show ?thesis
      by auto
  next
    case False
    then have "explore successors n (successors s @ todo) (s # seen) = Some found"
      and "\<forall>s' \<in> set (s # seen). set (successors s') \<subseteq> set (s # seen) \<union> set (successors s @ todo)"
      using "3.prems" by auto
    from "3.IH"(2) [OF False this] show ?thesis
      by auto
  qed
qed auto

theorem every_schedule_sound:
  assumes "every_schedule successors n s check1"
    and "reachable (\<lambda>a. a = s) (\<lambda>a b. b \<in> set (successors a)) t"
  shows "check1 t"
proof -
  obtain found where found: "explore successors n [s] [] = Some found" "list_all check1 found"
    using assms(1) by (auto simp: every_schedule_def split: option.splits)
  have "s \<in> set found" "\<forall>a \<in> set found. set (successors a) \<subseteq> set found"
    using explore_closed [OF found(1)] by auto
  with assms(2) have "t \<in> set found"
    by (induction rule: reachable.induct) auto
  with found(2) show ?thesis
    by (simp add: list_all_iff)
qed

end
