(* ===== verification/Stream_Tests.thy ===== *)
theory Stream_Tests
  imports Response_Stream Budget Schedule_Explorer
begin

text \<open>
  The tests of src/src/stream.rs and src/src/budget.rs, run on the model: every
  test is a closed truth value with the assertions of the source in their order,
  evaluated by the lemma of its name.  The tests under \<open>cfg(loom)\<close> run
  their threads under every schedule of their atomic steps.
\<close>

section \<open>The queue\<close>

definition test_waiter :: variable where
  "test_waiter = 0"

definition parking_is_refused_once_a_read_would_not_wait :: bool where
  "parking_is_refused_once_a_read_would_not_wait =
     (let buffered = snd (push_chunk (replicate 4 (CHR 0x00)) (new_stream 64));
          ended1 = snd (push_end (new_stream 64));
          cancelled1 = cancel (new_stream 64)
      in list_all (\<lambda>stream.
           let (parked, stream1) = park test_waiter stream in \<not> parked \<and> fst (unpark stream1) = None)
           [buffered, ended1, cancelled1])"

lemma parking_is_refused_holds: parking_is_refused_once_a_read_would_not_wait
  by code_simp

definition an_empty_stream_holds_the_waiter_until_it_is_taken :: bool where
  "an_empty_stream_holds_the_waiter_until_it_is_taken =
     (let (parked, s1) = park test_waiter (new_stream 64);
          (first, s2) = unpark s1;
          (second, s3) = unpark s2
      in parked \<and> first \<noteq> None \<and> second = None)"

lemma an_empty_stream_holds_the_waiter_holds: an_empty_stream_holds_the_waiter_until_it_is_taken
  by code_simp

definition a_chunk_larger_than_the_budget_is_taken_in_slices :: bool where
  "a_chunk_larger_than_the_budget_is_taken_in_slices =
     (let body = ''abcdefghij'';
          (a, s1) = push_chunk_within_budget body (new_stream 4);
          (b, s2) = push_chunk_within_budget (drop 4 body) s1;
          (item, s3) = take_next s2;
          (c, s4) = push_chunk_within_budget (drop 4 body) s3
      in a = Some 4 \<and> b = Some 0 \<and> buffered_bytes_of s2 = 4 \<and>
         item = Some (Chunk ''abcd'') \<and> c = Some 4 \<and> buffered_bytes_of s4 = 4)"

lemma a_chunk_larger_than_the_budget_holds: a_chunk_larger_than_the_budget_is_taken_in_slices
  by code_simp

definition nothing_is_accepted_after_the_end :: bool where
  "nothing_is_accepted_after_the_end =
     (let (a, s1) = push_end (new_stream 64);
          (b, s2) = push_end s1;
          (c, s3) = push_failure (Upstream ''late'') s2;
          (d, s4) = push_chunk_within_budget ''late'' s3;
          (e, s5) = push_chunk_if_room ''late'' s4
      in a \<and> \<not> b \<and> \<not> c \<and> d = None \<and> e = None)"

lemma nothing_is_accepted_after_the_end_holds: nothing_is_accepted_after_the_end
  by code_simp

definition a_writer_parks_only_while_the_queue_is_full :: bool where
  "a_writer_parks_only_while_the_queue_is_full =
     (let (a, s1) = park_writer test_waiter (new_stream 4);
          (b, s2) = push_chunk_within_budget ''abcd'' s1;
          (c, s3) = park_writer test_waiter s2;
          s4 = snd (take_next s3);
          (d, s5) = unpark s4
      in \<not> a \<and> b = Some 4 \<and> c \<and> \<not> writer_owed_wakeup s3 \<and>
         writer_owed_wakeup s4 \<and> d \<noteq> None \<and> \<not> writer_owed_wakeup s5)"

lemma a_writer_parks_only_while_full_holds: a_writer_parks_only_while_the_queue_is_full
  by code_simp

definition a_paused_downstream_parks_the_writer_until_it_resumes :: bool where
  "a_paused_downstream_parks_the_writer_until_it_resumes =
     (let (a, s1) = park_writer test_waiter (set_paused True (new_stream 4));
          s2 = set_paused False s1
      in a \<and> \<not> writer_owed_wakeup s1 \<and> writer_owed_wakeup s2)"

lemma a_paused_downstream_parks_holds: a_paused_downstream_parks_the_writer_until_it_resumes
  by code_simp

definition cancelling_owes_a_parked_writer_its_wakeup :: bool where
  "cancelling_owes_a_parked_writer_its_wakeup =
     (let (a, s1) = push_chunk_within_budget ''abcd'' (new_stream 4);
          (b, s2) = park_writer test_waiter s1;
          s3 = cancel s2
      in a = Some 4 \<and> b \<and> writer_owed_wakeup s3 \<and> \<not> fst (park_writer test_waiter s3))"

lemma cancelling_owes_a_parked_writer_holds: cancelling_owes_a_parked_writer_its_wakeup
  by code_simp

definition a_delivery_is_taken_whole_or_refused_whole :: bool where
  "a_delivery_is_taken_whole_or_refused_whole =
     (let one = CHR 0x01;
          (a, s1) = push_chunk_if_room (replicate 8 one) (new_stream 4);
          (b, s2) = push_chunk_if_room [one] s1;
          s3 = snd (take_next s2);
          (c, s4) = push_chunk_if_room (replicate 3 one) s3;
          (d, s5) = push_chunk_if_room (replicate 2 one) s4;
          (e, s6) = push_chunk_if_room [one] (cancel s5)
      in a = Some True \<and> b = Some False \<and> c = Some True \<and> d = Some False \<and> e = None)"

lemma a_delivery_is_taken_whole_holds: a_delivery_is_taken_whole_or_refused_whole
  by code_simp

definition a_cancelled_stream_takes_nothing :: bool where
  "a_cancelled_stream_takes_nothing =
     (let (a, s1) = push_chunk_within_budget ''abc'' (cancel (new_stream 4))
      in a = None \<and> buffered_bytes_of s1 = 0)"

lemma a_cancelled_stream_takes_nothing_holds: a_cancelled_stream_takes_nothing
  by code_simp

section \<open>The queue between two threads\<close>

text \<open>The loop that takes chunks until something else comes.\<close>

function count_chunks :: "nat \<Rightarrow> response_stream \<Rightarrow> nat \<times> response_stream" where
  "count_chunks taken s =
     (case take_next s of
        (Some (Chunk chunk), s1) \<Rightarrow> count_chunks (taken + length chunk) s1
      | (_, s1) \<Rightarrow> (taken, s1))"
  by pat_completeness auto
termination
  by (relation "measure (\<lambda>(_, s). length (items s))") (auto dest: take_next_shrinks [OF sym])

declare count_chunks.simps [simp del]

text \<open>The producer's chunks still to push, whether the consumer's loop runs, and what it has counted.\<close>

record push_take =
  pt_stream :: response_stream
  pt_left :: "bytes list"
  pt_reading :: bool
  pt_taken :: nat

definition push_take_steps :: "push_take \<Rightarrow> push_take list" where
  "push_take_steps p =
     (case pt_left p of
        [] \<Rightarrow> []
      | chunk # left \<Rightarrow> [p\<lparr>pt_stream := snd (push_chunk chunk (pt_stream p)), pt_left := left\<rparr>]) @
     (if pt_reading p
      then [case take_next (pt_stream p) of
              (Some (Chunk chunk), s1) \<Rightarrow> p\<lparr>pt_stream := s1, pt_taken := pt_taken p + length chunk\<rparr>
            | (_, s1) \<Rightarrow> p\<lparr>pt_stream := s1, pt_reading := False\<rparr>]
      else [])"

definition concurrent_push_and_take_conserve_every_chunk :: bool where
  "concurrent_push_and_take_conserve_every_chunk =
     every_schedule push_take_steps 100
       \<lparr> pt_stream = new_stream 64, pt_left = [replicate 2 (CHR 0x00), replicate 3 (CHR 0x00)],
         pt_reading = True, pt_taken = 0 \<rparr>
       (\<lambda>p. pt_left p = [] \<and> \<not> pt_reading p \<longrightarrow>
          (let (taken, s) = count_chunks (pt_taken p) (pt_stream p) in taken = 5 \<and> buffered_bytes_of s = 0))"

lemma concurrent_push_and_take_holds: concurrent_push_and_take_conserve_every_chunk
  by code_simp

text \<open>What the producer was told once it has pushed, and whether the canceller has run.\<close>

record cancel_race =
  cr_stream :: response_stream
  cr_accepted :: "bool option"
  cr_done :: bool

definition cancel_race_steps :: "cancel_race \<Rightarrow> cancel_race list" where
  "cancel_race_steps r =
     (if cr_accepted r = None
      then [let (accepted, s) = push_chunk (replicate 4 (CHR 0x00)) (cr_stream r)
            in r\<lparr>cr_stream := s, cr_accepted := Some accepted\<rparr>]
      else []) @
     (if cr_done r then [] else [r\<lparr>cr_stream := cancel (cr_stream r), cr_done := True\<rparr>])"

definition cancelling_never_strands_buffered_bytes :: bool where
  "cancelling_never_strands_buffered_bytes =
     every_schedule cancel_race_steps 20
       \<lparr> cr_stream = new_stream 64, cr_accepted = None, cr_done = False \<rparr>
       (\<lambda>r. case cr_accepted r of
          None \<Rightarrow> True
        | Some accepted \<Rightarrow>
            cr_done r \<longrightarrow>
              is_cancelled (cr_stream r) \<and>
              (accepted \<longrightarrow> fst (take_next (cr_stream r)) = None) \<and>
              buffered_bytes_of (if accepted then snd (take_next (cr_stream r)) else cr_stream r) = 0)"

lemma cancelling_never_strands_holds: cancelling_never_strands_buffered_bytes
  by code_simp

text \<open>
  The producer pushes a slice and then looks at the queue, two steps of its loop;
  the reader takes until it has the whole body.  \<open>sl_ok\<close> keeps the assertions inside the threads.
\<close>

record slicing =
  sl_stream :: response_stream
  sl_offset :: nat
  sl_pushed :: "nat option"
  sl_received :: bytes
  sl_ok :: bool

definition slice_body :: bytes where
  "slice_body = [CHR 0x01, CHR 0x02, CHR 0x03, CHR 0x04, CHR 0x05]"

definition slicing_steps :: "slicing \<Rightarrow> slicing list" where
  "slicing_steps p =
     (case sl_pushed p of
        Some taken \<Rightarrow>
          [p\<lparr>sl_ok := sl_ok p \<and> buffered_bytes_of (sl_stream p) \<le> 2,
             sl_offset := sl_offset p + taken, sl_pushed := None\<rparr>]
      | None \<Rightarrow>
          if sl_offset p < length slice_body
          then [case push_chunk_within_budget (drop (sl_offset p) slice_body) (sl_stream p) of
                  (None, s) \<Rightarrow> p\<lparr>sl_stream := s, sl_ok := False\<rparr>
                | (Some taken, s) \<Rightarrow> p\<lparr>sl_stream := s, sl_pushed := Some taken\<rparr>]
          else []) @
     (if length (sl_received p) < length slice_body
      then [case take_next (sl_stream p) of
              (None, s) \<Rightarrow> p\<lparr>sl_stream := s\<rparr>
            | (Some (Chunk chunk), s) \<Rightarrow> p\<lparr>sl_stream := s, sl_received := sl_received p @ chunk\<rparr>
            | (Some _, s) \<Rightarrow> p\<lparr>sl_stream := s, sl_ok := False\<rparr>]
      else [])"

definition slices_never_take_the_queue_past_its_budget :: bool where
  "slices_never_take_the_queue_past_its_budget =
     every_schedule slicing_steps 500
       \<lparr> sl_stream = new_stream 2, sl_offset = 0, sl_pushed = None, sl_received = [], sl_ok = True \<rparr>
       (\<lambda>p. sl_ok p \<and> (slicing_steps p = [] \<longrightarrow> sl_received p = slice_body))"

lemma slices_never_take_the_queue_past_its_budget_holds: slices_never_take_the_queue_past_its_budget
  by code_simp

text \<open>What parking returned to the writer, and how far the worker is: the take, then the question.\<close>

record parking =
  pk_stream :: response_stream
  pk_parked :: "bool option"
  pk_took :: bool
  pk_owed :: "bool option"

definition parking_steps :: "parking \<Rightarrow> parking list" where
  "parking_steps p =
     (if pk_parked p = None
      then [let (parked, s) = park_writer test_waiter (pk_stream p) in p\<lparr>pk_stream := s, pk_parked := Some parked\<rparr>]
      else []) @
     (if \<not> pk_took p then [p\<lparr>pk_stream := snd (take_next (pk_stream p)), pk_took := True\<rparr>]
      else if pk_owed p = None then [p\<lparr>pk_owed := Some (writer_owed_wakeup (pk_stream p))\<rparr>]
      else [])"

definition a_parked_writer_is_never_stranded :: bool where
  "a_parked_writer_is_never_stranded =
     (let (taken, s) = push_chunk_within_budget [CHR 0x01, CHR 0x02] (new_stream 2)
      in taken = Some 2 \<and>
         every_schedule parking_steps 50
           \<lparr> pk_stream = s, pk_parked = None, pk_took = False, pk_owed = None \<rparr>
           (\<lambda>p. parking_steps p = [] \<longrightarrow> pk_parked p = Some False \<or> pk_owed p = Some True))"

lemma a_parked_writer_is_never_stranded_holds: a_parked_writer_is_never_stranded
  by code_simp

section \<open>The budget\<close>

definition rejects_overcommit_and_releases_capacity :: bool where
  "rejects_overcommit_and_releases_capacity =
     (case try_acquire 8 (new_budget 10) of
        (None, _) \<Rightarrow> False
      | (Some lease, b1) \<Rightarrow>
          let (over, b2) = try_acquire 3 b1; (released, b3) = drop_lease lease b2
          in over = None \<and> released \<and> fst (try_acquire 10 b3) \<noteq> None)"

lemma rejects_overcommit_holds: rejects_overcommit_and_releases_capacity
  by code_simp

definition a_single_permit_is_exclusive :: bool where
  "a_single_permit_is_exclusive =
     (case try_acquire 1 (new_budget 1) of
        (None, _) \<Rightarrow> False
      | (Some permit, b1) \<Rightarrow>
          let (second, b2) = try_acquire 1 b1; (released, b3) = drop_lease permit b2
          in second = None \<and> released \<and> fst (try_acquire 1 b3) \<noteq> None)"

lemma a_single_permit_is_exclusive_holds: a_single_permit_is_exclusive
  by code_simp

section \<open>The budget between two threads\<close>

text \<open>
  A thread that takes an amount, looks at the counter if it is told to, and drops
  its lease.  A relaxed load, and a weak exchange that fails, may see any value the counter
  had.
\<close>

datatype acquiring = Ac_start | Ac_compare u64 | Ac_exchange u64 | Ac_lent | Ac_checked | Ac_done

record budget_memory =
  bm_ceiling :: ceiling
  bm_values :: "u64 list"
  bm_ok :: bool

definition bm_write :: "ceiling \<Rightarrow> budget_memory \<Rightarrow> budget_memory" where
  "bm_write c m = m\<lparr>bm_ceiling := c, bm_values := List.insert (used c) (bm_values m)\<rparr>"

definition bm_drop :: "u64 \<Rightarrow> budget_memory \<Rightarrow> budget_memory" where
  "bm_drop amount m =
     (let (released, c) = drop_lease \<lparr> held = amount \<rparr> (bm_ceiling m)
      in bm_write c (m\<lparr>bm_ok := bm_ok m \<and> released\<rparr>))"

primrec acquirer_steps :: "u64 \<Rightarrow> acquiring \<Rightarrow> budget_memory \<Rightarrow> (acquiring \<times> budget_memory) list" where
  "acquirer_steps amount Ac_start m = map (\<lambda>v. (Ac_compare v, m)) (bm_values m)"
| "acquirer_steps amount (Ac_compare v) m =
     [(if does_not_fit (capacity (bm_ceiling m)) v amount then Ac_done else Ac_exchange v, m)]"
| "acquirer_steps amount (Ac_exchange v) m =
     (if used (bm_ceiling m) = v
      then [(Ac_lent, bm_write ((bm_ceiling m)\<lparr>used := v + amount\<rparr>) m)]
      else []) @
     map (\<lambda>w. (Ac_compare w, m)) (bm_values m)"
| "acquirer_steps amount Ac_lent m =
     map (\<lambda>v. (Ac_checked, m\<lparr>bm_ok := bm_ok m \<and> v \<le> capacity (bm_ceiling m)\<rparr>)) (bm_values m)"
| "acquirer_steps amount Ac_checked m = [(Ac_done, bm_drop amount m)]"
| "acquirer_steps amount Ac_done m = []"

definition two_acquirers :: "acquiring \<times> acquiring \<times> budget_memory \<Rightarrow> (acquiring \<times> acquiring \<times> budget_memory) list" where
  "two_acquirers = (\<lambda>(a, b, m).
     map (\<lambda>(a1, m1). (a1, b, m1)) (acquirer_steps 2 a m) @ map (\<lambda>(b1, m1). (a, b1, m1)) (acquirer_steps 2 b m))"

definition concurrent_acquires_never_exceed_capacity :: bool where
  "concurrent_acquires_never_exceed_capacity =
     every_schedule two_acquirers 1000
       (Ac_start, Ac_start, \<lparr> bm_ceiling = new_budget 2, bm_values = [0], bm_ok = True \<rparr>)
       (\<lambda>(a, b, m). bm_ok m \<and> (a = Ac_done \<and> b = Ac_done \<longrightarrow> budget_used (bm_ceiling m) = 0))"

lemma concurrent_acquires_never_exceed_capacity_holds: concurrent_acquires_never_exceed_capacity
  by code_simp

text \<open>The main thread's one step is the drop of its lease; the other thread drops what it may have taken.\<close>

definition release_race_steps :: "bool \<times> acquiring \<times> budget_memory \<Rightarrow> (bool \<times> acquiring \<times> budget_memory) list" where
  "release_race_steps = (\<lambda>(dropped, a, m).
     (if dropped then [] else [(True, a, bm_drop 1 m)]) @
     map (\<lambda>(a1, m1). (dropped, a1, m1))
       (if a = Ac_lent then [(Ac_done, bm_drop 2 m)] else acquirer_steps 2 a m))"

definition releasing_races_acquiring_without_losing_capacity :: bool where
  "releasing_races_acquiring_without_losing_capacity =
     (case try_acquire 1 (new_budget 4) of
        (None, _) \<Rightarrow> False
      | (Some _, c) \<Rightarrow>
          every_schedule release_race_steps 1000
            (False, Ac_start, \<lparr> bm_ceiling = c, bm_values = [1, 0], bm_ok = True \<rparr>)
            (\<lambda>(dropped, a, m). bm_ok m \<and> (dropped \<and> a = Ac_done \<longrightarrow> budget_used (bm_ceiling m) = 0)))"

lemma releasing_races_acquiring_holds: releasing_races_acquiring_without_losing_capacity
  by code_simp

end
