(* ===== verification/Upstream_Tests.thy ===== *)
theory Upstream_Tests
  imports Upstream_Calls Schedule_Explorer "HOL-Library.Code_Target_Nat"
begin

text \<open>
  The tests of src/src/upstream.rs and of src/crates/ruvoy-envoy-fiber/src/upstream.rs, run on
  the model.  A test is a closed truth value with the assertions of the source in
  their order.  The mocked Envoy answers every call alike; what the source asserts inside the mock
  is read off the log of calls.
\<close>

section \<open>The route\<close>

definition route_test_settings :: upstream_settings where
  "route_test_settings =
     \<lparr> clusters = [''users''], call_timeout = 1000000000, max_response_bytes = 64, stream_buffer_bytes = 64 \<rparr>"

definition route_test_request :: "unit upstream_request" where
  "route_test_request =
     \<lparr> ur_cluster = ''users'', ur_headers = [], ur_body = [], ur_timeout = 1000000000, ur_response = () \<rparr>"

definition route_test_stream_request :: "unit upstream_stream_request" where
  "route_test_stream_request =
     \<lparr> us_cluster = ''users'', us_headers = [], us_timeout = 0, us_channel = () \<rparr>"

definition only_listed_clusters_are_allowed :: bool where
  "only_listed_clusters_are_allowed \<longleftrightarrow>
     allows route_test_settings ''users'' \<and> \<not> allows route_test_settings ''user'' \<and> \<not> allows route_test_settings ''''"

lemma only_listed_clusters_are_allowed_holds: only_listed_clusters_are_allowed
  by code_simp

definition a_queued_call_wakes_the_worker_and_is_taken_once :: bool where
  "a_queued_call_wakes_the_worker_and_is_taken_once =
     (let cs = new_calls :: (unit, unit) calls;
          (first, woken1, cs1) = queue_call route_test_request cs;
          (second, woken2, cs2) = queue_call route_test_request cs1;
          (taken, cs3) = take_queued cs2
      in first = Inr () \<and> second = Inr () \<and> length (filter id [woken1, woken2]) = 2 \<and>
         length taken = 2 \<and> fst (take_queued cs3) = [])"

lemma a_queued_call_wakes_the_worker_holds: a_queued_call_wakes_the_worker_and_is_taken_once
  by code_simp

definition refused_upstream :: "(bridge_error, unit) result \<Rightarrow> bool" where
  "refused_upstream r = (case r of Inl (Upstream _) \<Rightarrow> True | _ \<Rightarrow> False)"

definition closing_hands_back_unsent_calls_and_refuses_later_ones :: bool where
  "closing_hands_back_unsent_calls_and_refuses_later_ones =
     (let cs = new_calls :: (unit, unit) calls;
          (first, _, cs1) = queue_call route_test_request cs;
          (unsent, cs2) = close_calls cs1;
          (late, _, cs3) = queue_call route_test_request cs2
      in first = Inr () \<and> length (unsent_calls unsent) = 1 \<and> refused_upstream late \<and> fst (take_queued cs3) = [])"

lemma closing_hands_back_unsent_calls_holds: closing_hands_back_unsent_calls_and_refuses_later_ones
  by code_simp

definition a_queued_stream_wakes_the_worker_and_a_close_hands_it_back :: bool where
  "a_queued_stream_wakes_the_worker_and_a_close_hands_it_back =
     (let cs = new_calls :: (unit, unit) calls;
          (first, woken, cs1) = queue_stream route_test_stream_request cs;
          (unsent, cs2) = close_calls cs1;
          (late, _, cs3) = queue_stream route_test_stream_request cs2
      in first = Inr () \<and> woken \<and> length (unsent_streams unsent) = 1 \<and> late \<noteq> Inr ())"

lemma a_queued_stream_wakes_the_worker_holds: a_queued_stream_wakes_the_worker_and_a_close_hands_it_back
  by code_simp

definition a_failed_channel_keeps_the_error_for_the_fiber_and_wants_a_reset :: bool where
  "a_failed_channel_keeps_the_error_for_the_fiber_and_wants_a_reset =
     (let ch = fail_channel (UpstreamOverflow ''read too slowly'') (new_channel 8)
      in wants_reset ch \<and> is_cancelled (ch_request ch) \<and>
         (case fst (take_next (ch_response ch)) of Some (Failed (UpstreamOverflow _)) \<Rightarrow> True | _ \<Rightarrow> False))"

lemma a_failed_channel_keeps_the_error_holds: a_failed_channel_keeps_the_error_for_the_fiber_and_wants_a_reset
  by code_simp

definition closing_a_channel_drops_what_was_buffered_and_wants_a_reset :: bool where
  "closing_a_channel_drops_what_was_buffered_and_wants_a_reset =
     (let ch = new_channel 8;
          (fits, r) = push_chunk_if_room [CHR 0x01, CHR 0x02, CHR 0x03] (ch_response ch);
          ch1 = close_channel (ch\<lparr>ch_response := r\<rparr>)
      in fits = Some True \<and> wants_reset ch1 \<and> is_cancelled (ch_response ch1) \<and>
         fst (take_next (ch_response ch1)) = None \<and> \<not> timed_out ch1)"

lemma closing_a_channel_drops_what_was_buffered_holds: closing_a_channel_drops_what_was_buffered_and_wants_a_reset
  by code_simp

definition a_channel_timed_out_is_closed_and_says_so :: bool where
  "a_channel_timed_out_is_closed_and_says_so =
     (let ch = time_out (new_channel 8)
      in wants_reset ch \<and> is_cancelled (ch_response ch) \<and> timed_out ch)"

lemma a_channel_timed_out_is_closed_holds: a_channel_timed_out_is_closed_and_says_so
  by code_simp

text \<open>What the caller was told, what the close handed back, each once its thread has run.\<close>

record close_race =
  cl_calls :: "(unit, unit) calls"
  cl_queued :: "bool option"
  cl_handed_back :: "nat option"

definition close_race_steps :: "close_race \<Rightarrow> close_race list" where
  "close_race_steps r =
     (if cl_queued r = None
      then [let (answer, _, cs) = queue_call route_test_request (cl_calls r)
            in r\<lparr>cl_calls := cs, cl_queued := Some (answer = Inr ())\<rparr>]
      else []) @
     (if cl_handed_back r = None
      then [let (unsent, cs) = close_calls (cl_calls r)
            in r\<lparr>cl_calls := cs, cl_handed_back := Some (length (unsent_calls unsent))\<rparr>]
      else [])"

definition a_call_racing_the_close_is_refused_or_handed_back :: bool where
  "a_call_racing_the_close_is_refused_or_handed_back =
     every_schedule close_race_steps 20 \<lparr> cl_calls = new_calls, cl_queued = None, cl_handed_back = None \<rparr>
       (\<lambda>r. case (cl_queued r, cl_handed_back r) of
          (Some accepted, Some handed_back) \<Rightarrow>
            let left = length (fst (take_queued (cl_calls r)))
            in (if accepted then 1 else 0) = handed_back + left \<and> (\<not> accepted \<or> handed_back = 1 \<or> left = 1)
        | _ \<Rightarrow> True)"

lemma a_call_racing_the_close_holds: a_call_racing_the_close_is_refused_or_handed_back
  by code_simp

section \<open>A mocked Envoy\<close>

text \<open>It gives every call the same answer and never calls back.\<close>

definition mock_envoy :: "init_result \<times> u64 \<Rightarrow> unit ehf" where
  "mock_envoy reply =
     \<lparr> get_request_headers = (\<lambda>e. []), get_request_header_value = (\<lambda>e n. None),
       get_attribute_string = (\<lambda>e a. None), get_attribute_int = (\<lambda>e a. None), get_attribute_bool = (\<lambda>e a. None),
       get_metadata_keys = (\<lambda>e s n. None), get_metadata_string = (\<lambda>e s n k. None),
       get_metadata_number = (\<lambda>e s n k. None), get_metadata_bool = (\<lambda>e s n k. None),
       get_metadata_list_size = (\<lambda>e s n k. None), get_metadata_list_string = (\<lambda>e s n k i. None),
       get_metadata_list_number = (\<lambda>e s n k i. None), get_metadata_list_bool = (\<lambda>e s n k i. None),
       received_buffered_request_body = (\<lambda>e. False), get_buffered_request_body_size = (\<lambda>e. 0),
       get_received_request_body_size = (\<lambda>e. 0), get_buffered_request_body = (\<lambda>e. None),
       get_received_request_body = (\<lambda>e. None), instant_now = (\<lambda>e. 0),
       init_answer = (\<lambda>c e. reply), reenters = (\<lambda>c e. []), react = (\<lambda>c e. e) \<rparr>"

definition quiet_host :: "unit host" where
  "quiet_host = \<lparr> env = (), elog = [] \<rparr>"

function take_items :: "response_stream \<Rightarrow> stream_item list" where
  "take_items s =
     (case take_next s of
        (None, _) \<Rightarrow> []
      | (Some item, s1) \<Rightarrow> item # take_items s1)"
  by pat_completeness auto
termination
  by (relation "measure (\<lambda>s. length (items s))") (auto dest: take_next_shrinks [OF sym])

declare take_items.simps [simp del]

section \<open>Calls\<close>

definition test_call :: "bytes \<Rightarrow> duration \<Rightarrow> nat upstream_request" where
  "test_call body timeout =
     \<lparr> ur_cluster = ''users'',
       ur_headers = [('':method'', ''GET''), ('':path'', ''/users/42''), (''host'', ''users'')],
       ur_body = body, ur_timeout = timeout, ur_response = 0 \<rparr>"

definition empty_heap :: "nat \<Rightarrow> response_stream" where
  "empty_heap r = new_stream 64"

definition a_sent_call_waits_under_the_id_envoy_gave_it :: bool where
  "a_sent_call_waits_under_the_id_envoy_gave_it =
     (let (refused, in_flight, heap, h) =
            send (mock_envoy (Init_Success, 7)) (test_call [] 10000) [] [] empty_heap quiet_host
      in (case elog h of
            [Send_http_callout cluster headers body timeout] \<Rightarrow>
              cluster = ''users'' \<and> headers ! 1 = ('':path'', ''/users/42'') \<and> body = None \<and> timeout = 1
          | _ \<Rightarrow> False) \<and>
         refused = None \<and> map_of in_flight 7 \<noteq> None)"

lemma a_sent_call_waits_holds: a_sent_call_waits_under_the_id_envoy_gave_it
  by code_simp

definition one_failure :: "string \<Rightarrow> stream_item list \<Rightarrow> bool" where
  "one_failure expected xs =
     (case xs of [Failed (Upstream reason)] \<Rightarrow> sublist expected reason | _ \<Rightarrow> False)"

definition a_call_envoy_refuses_fails_on_the_spot :: bool where
  "a_call_envoy_refuses_fails_on_the_spot =
     (let (refused, in_flight, heap, h) =
            send (mock_envoy (ClusterNotFound, 0)) (test_call ''payload'' 1000000000) [] [] empty_heap quiet_host
      in (case elog h of [Send_http_callout _ _ body _] \<Rightarrow> body = Some ''payload'' | _ \<Rightarrow> False) \<and>
         (case refused of
            None \<Rightarrow> False
          | Some (response, cluster) \<Rightarrow>
              cluster = ''users'' \<and> in_flight = [] \<and> one_failure ''does not exist'' (take_items (heap response))))"

lemma a_call_envoy_refuses_holds: a_call_envoy_refuses_fails_on_the_spot
  by code_simp

definition the_request_trace_goes_along_unless_the_application_set_it :: bool where
  "the_request_trace_goes_along_unless_the_application_set_it =
     (let own = (test_call [] 1000000000)
            \<lparr>ur_headers := ur_headers (test_call [] 1000000000) @ [(''traceparent'', ''00-mine-01'')]\<rparr>;
          trace = [(''traceparent'', ''00-request-01''), (''x-request-id'', ''r-1'')];
          (refused, in_flight, heap, h) = send (mock_envoy (Init_Success, 7)) own trace [] empty_heap quiet_host
      in (case elog h of
            [Send_http_callout _ headers _ _] \<Rightarrow>
              List.member headers (''traceparent'', ''00-mine-01'') \<and>
              \<not> List.member headers (''traceparent'', ''00-request-01'') \<and>
              List.member headers (''x-request-id'', ''r-1'')
          | _ \<Rightarrow> False) \<and>
         refused = None)"

lemma the_request_trace_goes_along_holds: the_request_trace_goes_along_unless_the_application_set_it
  by code_simp

definition a_response_arrives_as_its_head_body_and_end :: bool where
  "a_response_arrives_as_its_head_body_and_end =
     (let (outcome, s) =
            deliver (new_stream 64) Callout_Success
              (Some [('':status'', ''201''), (''set-cookie'', ''a=1''), (''set-cookie'', ''b=2'')])
              (Some [''hel'', ''lo'']) 64
      in outcome = Completed \<and>
         (case take_items s of
            [Head head, Chunk chunk, End] \<Rightarrow>
              head_status head = 201 \<and>
              head_headers head = [(''set-cookie'', ''a=1''), (''set-cookie'', ''b=2'')] \<and> chunk = ''hello''
          | _ \<Rightarrow> False))"

lemma a_response_arrives_holds: a_response_arrives_as_its_head_body_and_end
  by code_simp

definition delivery_failure :: "callout_result \<Rightarrow> envoy_headers \<Rightarrow> nat \<Rightarrow> (string \<times> call_outcome) option" where
  "delivery_failure result headers limit =
     (let (outcome, s) = deliver (new_stream 64) result (Some headers) (Some [''12345'']) limit
      in case take_items s of
           [Failed (Upstream reason)] \<Rightarrow> Some (reason, outcome)
         | [Failed (UpstreamTooLarge reason)] \<Rightarrow> Some (reason, outcome)
         | _ \<Rightarrow> None)"

definition every_unusable_outcome_arrives_as_a_failure :: bool where
  "every_unusable_outcome_arrives_as_a_failure =
     (let status = [('':status'', ''200'')]; no_status = [(''x-a'', ''1'')]
      in list_all (\<lambda>(found, expected, expected_outcome).
           case found of
             None \<Rightarrow> False
           | Some (reason, outcome) \<Rightarrow> sublist expected reason \<and> outcome = expected_outcome)
         [(delivery_failure Callout_Success status 4, ''limit'', TooLarge),
          (delivery_failure Callout_Success no_status 64, '':status'', Reset),
          (delivery_failure Callout_Reset [] 64, ''reset'', Reset),
          (delivery_failure ExceedResponseBufferLimit [] 64, ''buffer limit'', TooLarge)])"

lemma every_unusable_outcome_holds: every_unusable_outcome_arrives_as_a_failure
  by code_simp

section \<open>Starting streams\<close>

definition test_stream_request :: "unit upstream_stream_request" where
  "test_stream_request =
     \<lparr> us_cluster = ''users'',
       us_headers = [('':method'', ''GET''), ('':path'', ''/feed''), (''host'', ''users'')],
       us_timeout = 0, us_channel = () \<rparr>"

definition test_status :: "bytes \<Rightarrow> envoy_headers" where
  "test_status code = [('':status'', code)]"

definition a_stream_without_a_body_starts_ended_and_without_a_deadline :: bool where
  "a_stream_without_a_body_starts_ended_and_without_a_deadline =
     (let channel = on_request (\<lambda>s. snd (push_end s)) (new_channel 64);
          (started, ch, h, _) = start (mock_envoy (Init_Success, 9)) test_stream_request [] channel quiet_host
      in (case elog h of
            [Start_http_stream cluster _ body end_str timeout_ms] \<Rightarrow>
              cluster = ''users'' \<and> body = None \<and> end_str \<and> timeout_ms = 0
          | _ \<Rightarrow> False) \<and>
         (case started of
            Started_open handle stream \<Rightarrow> handle = 9 \<and> fst (next_action (stream, ch)) = None
          | _ \<Rightarrow> False))"

lemma a_stream_without_a_body_holds: a_stream_without_a_body_starts_ended_and_without_a_deadline
  by code_simp

definition a_sub_millisecond_deadline_is_kept :: bool where
  "a_sub_millisecond_deadline_is_kept =
     (let (started, _, h, _) =
            start (mock_envoy (Init_Success, 9)) (test_stream_request\<lparr>us_timeout := 400000\<rparr>) [] (new_channel 64) quiet_host
      in (case elog h of [Start_http_stream _ _ _ _ timeout_ms] \<Rightarrow> timeout_ms = 1 | _ \<Rightarrow> False) \<and>
         (case started of Started_open handle _ \<Rightarrow> handle = 9 | _ \<Rightarrow> False))"

lemma a_sub_millisecond_deadline_holds: a_sub_millisecond_deadline_is_kept
  by code_simp

definition a_stream_envoy_refuses_fails_on_the_spot :: bool where
  "a_stream_envoy_refuses_fails_on_the_spot =
     (let (started, ch, _, _) = start (mock_envoy (ClusterNotFound, 0)) test_stream_request [] (new_channel 64) quiet_host
      in (case started of Started_refused _ _ \<Rightarrow> True | _ \<Rightarrow> False) \<and>
         one_failure ''does not exist'' (take_items (ch_response ch)))"

lemma a_stream_envoy_refuses_holds: a_stream_envoy_refuses_fails_on_the_spot
  by code_simp

definition a_stream_the_fiber_closed_before_it_started_never_starts :: bool where
  "a_stream_the_fiber_closed_before_it_started_never_starts =
     (let (started, _, h, _) =
            start (mock_envoy (Init_Success, 9)) test_stream_request [] (close_channel (new_channel 64)) quiet_host
      in elog h = [] \<and> (case started of Started_skipped _ \<Rightarrow> True | _ \<Rightarrow> False))"

lemma a_stream_the_fiber_closed_holds: a_stream_the_fiber_closed_before_it_started_never_starts
  by code_simp

section \<open>Open streams\<close>

text \<open>A stream just opened on a new channel of the given budget.\<close>

definition test_stream :: "nat \<Rightarrow> bool \<Rightarrow> unit os_state" where
  "test_stream budget req_ended = (new_open_stream 0 () ''users'' req_ended, new_channel budget)"

definition the_body_goes_out_a_piece_at_a_time_and_then_ends :: bool where
  "the_body_goes_out_a_piece_at_a_time_and_then_ends =
     (let (stream, channel) = test_stream 64 False;
          (taken, req) = push_chunk_within_budget ''ab'' (ch_request channel);
          (first, s1) = next_action (stream, channel\<lparr>ch_request := req\<rparr>);
          (second, s2) = next_action s1;
          (third, s3) = next_action (fst s2, on_request (\<lambda>r. snd (push_end r)) (snd s2));
          (fourth, s4) = next_action s3
      in taken = Some 2 \<and> first = Some (Action_send ''ab'' False) \<and> second = None \<and>
         third = Some (Action_send [] True) \<and> fourth = None)"

lemma the_body_goes_out_a_piece_at_a_time_holds: the_body_goes_out_a_piece_at_a_time_and_then_ends
  by code_simp

definition a_wanted_reset_is_asked_for_once :: bool where
  "a_wanted_reset_is_asked_for_once =
     (let (stream, channel) = test_stream 64 False;
          (first, s1) = next_action (stream, close_channel channel)
      in first = Some Action_reset \<and> fst (next_action s1) = None)"

lemma a_wanted_reset_is_asked_for_once_holds: a_wanted_reset_is_asked_for_once
  by code_simp

definition the_response_arrives_as_its_head_its_chunks_and_its_end :: bool where
  "the_response_arrives_as_its_head_its_chunks_and_its_end =
     (let headers = [('':status'', ''200''), (''content-type'', ''text/event-stream'')];
          first = ''data: 1'' @ [CHR 0x0A, CHR 0x0A]; second = ''data: 2'' @ [CHR 0x0A, CHR 0x0A];
          (took, s1) = headers_arrived 0 headers False (test_stream 64 True);
          (over1, s2) = data_arrived [first] False s1;
          (over2, s3) = data_arrived [second] True s2;
          (stream, channel) = completed s3
      in took \<noteq> None \<and> \<not> over1 \<and> \<not> over2 \<and> outcome_of stream = Completed \<and>
         (case take_items (ch_response channel) of
            [Head head, Chunk a, Chunk b, End] \<Rightarrow>
              head_status head = 200 \<and> head_headers head = [(''content-type'', ''text/event-stream'')] \<and>
              a = first \<and> b = second
          | _ \<Rightarrow> False))"

lemma the_response_arrives_as_its_chunks_holds: the_response_arrives_as_its_head_its_chunks_and_its_end
  by code_simp

definition a_body_still_going_up_when_the_stream_ends_is_stopped :: bool where
  "a_body_still_going_up_when_the_stream_ends_is_stopped =
     (let (stream, channel) = test_stream 64 False;
          (taken, req) = push_chunk_within_budget ''part'' (ch_request channel);
          (_, s1) = headers_arrived 0 (test_status ''200'') True (stream, channel\<lparr>ch_request := req\<rparr>);
          (stream1, channel1) = completed s1
      in taken = Some 4 \<and> is_cancelled (ch_request channel1) \<and>
         fst (push_chunk_within_budget ''rest'' (ch_request channel1)) = None \<and>
         (case take_items (ch_response channel1) of [Head _, End] \<Rightarrow> True | _ \<Rightarrow> False))"

lemma a_body_still_going_up_holds: a_body_still_going_up_when_the_stream_ends_is_stopped
  by code_simp

definition a_delivery_past_the_buffer_fails_the_stream_and_wants_a_reset :: bool where
  "a_delivery_past_the_buffer_fails_the_stream_and_wants_a_reset =
     (let (_, s1) = headers_arrived 0 (test_status ''200'') False (test_stream 4 True);
          (over1, s2) = data_arrived [''abc''] False s1;
          (over2, s3) = data_arrived [''de''] False s2;
          (over3, s4) = data_arrived [''f''] False s3;
          found = take_items (ch_response (snd s4));
          (action, s5) = next_action s4;
          (stream, _) = reset_by_envoy LocalReset s5
      in \<not> over1 \<and> over2 \<and> wants_reset (snd s3) \<and> \<not> over3 \<and>
         found \<noteq> [] \<and> (case last found of Failed (UpstreamOverflow _) \<Rightarrow> True | _ \<Rightarrow> False) \<and>
         action = Some Action_reset \<and> outcome_of stream = Overflow)"

lemma a_delivery_past_the_buffer_holds: a_delivery_past_the_buffer_fails_the_stream_and_wants_a_reset
  by code_simp

definition a_reset_from_envoy_arrives_as_a_failure_naming_its_reason :: bool where
  "a_reset_from_envoy_arrives_as_a_failure_naming_its_reason =
     (let (stream, channel) = reset_by_envoy ConnectionFailure (test_stream 64 True)
      in outcome_of stream = Reset \<and> one_failure ''could not be reached'' (take_items (ch_response channel)))"

lemma a_reset_from_envoy_holds: a_reset_from_envoy_arrives_as_a_failure_naming_its_reason
  by code_simp

definition an_upgraded_stream_the_upstream_closes_ends_after_what_it_sent :: bool where
  "an_upgraded_stream_the_upstream_closes_ends_after_what_it_sent =
     (let (_, s1) = headers_arrived 0 (test_status ''101'') False (test_stream 64 False);
          (over, s2) = data_arrived [''bye''] False s1;
          (stream, channel) = reset_by_envoy LocalReset s2
      in \<not> over \<and>
         (case take_items (ch_response channel) of [Head _, Chunk bs, End] \<Rightarrow> bs = ''bye'' | _ \<Rightarrow> False) \<and>
         is_cancelled (ch_request channel) \<and> outcome_of stream = Completed)"

lemma an_upgraded_stream_the_upstream_closes_holds: an_upgraded_stream_the_upstream_closes_ends_after_what_it_sent
  by code_simp

definition an_upgraded_stream_the_worker_reset_still_fails :: bool where
  "an_upgraded_stream_the_worker_reset_still_fails =
     (let (_, s1) = headers_arrived 0 (test_status ''101'') False (test_stream 64 False);
          (action, s2) = next_action (fst s1, close_channel (snd s1));
          (stream, channel) = reset_by_envoy LocalReset s2
      in action = Some Action_reset \<and> is_cancelled (ch_response channel) \<and> outcome_of stream = Completed)"

lemma an_upgraded_stream_the_worker_reset_holds: an_upgraded_stream_the_worker_reset_still_fails
  by code_simp

definition trailers_end_the_response_and_are_kept :: bool where
  "trailers_end_the_response_and_are_kept =
     (let (_, s1) = headers_arrived 0 (test_status ''200'') False (test_stream 64 True);
          (stream, channel) = trailers_arrived [(''grpc-status'', ''0'')] s1;
          found = take_items (ch_response channel)
      in trailers_of channel = Some [(''grpc-status'', ''0'')] \<and> found \<noteq> [] \<and> last found = End)"

lemma trailers_end_the_response_holds: trailers_end_the_response_and_are_kept
  by code_simp

definition a_request_that_finishes_first_fails_its_streams :: bool where
  "a_request_that_finishes_first_fails_its_streams =
     (let (stream, channel) = abandon (test_stream 64 True)
      in one_failure ''finished before'' (take_items (ch_response channel)) \<and> outcome_of stream = Abandoned)"

lemma a_request_that_finishes_first_holds: a_request_that_finishes_first_fails_its_streams
  by code_simp

text \<open>Whether the reset was asked for, and the outcome of a stream the fiber stopped after its head.\<close>

definition stopped_outcome :: "(stream_channel \<Rightarrow> stream_channel) \<Rightarrow> bytes \<Rightarrow> bool \<times> call_outcome" where
  "stopped_outcome stops code =
     (let (_, s1) = headers_arrived 0 (test_status code) False (test_stream 64 True);
          (action, s2) = next_action (fst s1, stops (snd s1));
          (stream, _) = reset_by_envoy LocalReset s2
      in (action = Some Action_reset, outcome_of stream))"

definition a_stream_the_fiber_stops_is_abandoned_or_timed_out :: bool where
  "a_stream_the_fiber_stops_is_abandoned_or_timed_out \<longleftrightarrow>
     stopped_outcome close_channel ''200'' = (True, Abandoned) \<and>
     stopped_outcome time_out ''200'' = (True, TimedOut) \<and>
     stopped_outcome time_out ''101'' = (True, TimedOut)"

lemma a_stream_the_fiber_stops_holds: a_stream_the_fiber_stops_is_abandoned_or_timed_out
  by code_simp

definition a_stream_envoy_turns_away_after_starting_it_is_refused :: bool where
  "a_stream_envoy_turns_away_after_starting_it_is_refused \<longleftrightarrow>
     outcome_of (fst (reset_by_envoy Reset_Overflow (test_stream 64 True))) = Call_refused"

lemma a_stream_envoy_turns_away_holds: a_stream_envoy_turns_away_after_starting_it_is_refused
  by code_simp

definition an_upgraded_session_whose_request_finished_has_completed :: bool where
  "an_upgraded_session_whose_request_finished_has_completed =
     (let (_, s1) = headers_arrived 0 (test_status ''101'') False (test_stream 64 False)
      in outcome_of (fst (abandon s1)) = Completed)"

lemma an_upgraded_session_whose_request_finished_holds: an_upgraded_session_whose_request_finished_has_completed
  by code_simp

end
