(* ===== verification/Module_Tests.thy ===== *)
theory Module_Tests
  imports Upstream_Tests Envoy_Context Rack_Env Fiber_Runtime Process_Runtime Baseline
begin

text \<open>
  The other unit tests of the repository, run on the model: the copied context, authorities,
  header keys and upgrades, the runtime that failed to load, both configurations
  and the baseline's parameters.  A test is a closed truth value with the assertions of the
  source in their order.  What the JSON crate makes of a text is a table of the texts the tests use; a
  test that only exercises that crate (misspelled fields) has no counterpart.
\<close>

section \<open>The context (context.rs)\<close>

text \<open>Numbers of metadata are the bits of a double: 3.0 and 2.0.\<close>

definition three_bits :: u64 where
  "three_bits = 0x4008000000000000"

definition two_bits :: u64 where
  "two_bits = 0x4000000000000000"

definition context_request :: "bool \<Rightarrow> bool \<Rightarrow> unit ehf" where
  "context_request tls presented = (mock_envoy (Init_Success, 0))
     \<lparr> get_attribute_string := (\<lambda>e a. case a of
           XdsRouteName \<Rightarrow> Some ''api''
         | SourceAddress \<Rightarrow> Some ''10.0.0.7:51234''
         | DestinationAddress \<Rightarrow> Some ''10.0.0.9:8443''
         | ConnectionTlsVersion \<Rightarrow> if tls then Some ''TLSv1.3'' else None
         | ConnectionRequestedServerName \<Rightarrow> if tls then Some ''api.example.com'' else None
         | ConnectionSubjectPeerCertificate \<Rightarrow> if presented then Some ''CN=client'' else None
         | ConnectionUriSanPeerCertificate \<Rightarrow> if presented then Some ''spiffe://example.com/client'' else None
         | ConnectionSha256PeerCertificateDigest \<Rightarrow> if presented then Some ''ab12'' else None
         | _ \<Rightarrow> None),
       get_attribute_int := (\<lambda>e a. case a of
           ConnectionId \<Rightarrow> Some 7 | SourcePort \<Rightarrow> Some 51234 | DestinationPort \<Rightarrow> Some 8443 | _ \<Rightarrow> None),
       get_attribute_bool := (\<lambda>e a. case a of ConnectionMtls \<Rightarrow> if tls then Some presented else None | _ \<Rightarrow> None),
       get_metadata_keys := (\<lambda>e src ns.
         if ns \<noteq> ''acme.tenant'' then None
         else case src of
                Dynamic \<Rightarrow> Some [''id'', ''weight'', ''beta'', ''regions'', ''nested'']
              | Route \<Rightarrow> Some [''tier'']),
       get_metadata_string := (\<lambda>e src ns key.
         if src = Dynamic \<and> key = ''id'' then Some ''t-42''
         else if src = Route \<and> key = ''tier'' then Some ''gold'' else None),
       get_metadata_number := (\<lambda>e src ns key. if src = Dynamic \<and> key = ''weight'' then Some three_bits else None),
       get_metadata_bool := (\<lambda>e src ns key. if src = Dynamic \<and> key = ''beta'' then Some True else None),
       get_metadata_list_size := (\<lambda>e src ns key. if src = Dynamic \<and> key = ''regions'' then Some 2 else None),
       get_metadata_list_string := (\<lambda>e src ns key i. if key = ''regions'' \<and> i = 0 then Some ''us'' else None),
       get_metadata_list_number := (\<lambda>e src ns key i. if key = ''regions'' \<and> i = 1 then Some two_bits else None),
       get_metadata_list_bool := (\<lambda>e src ns key i. None) \<rparr>"

definition context_test_config :: "string list" where
  "context_test_config = [''acme.tenant'', ''absent'']"

definition a_plaintext_request_carries_its_route_connection_and_listed_metadata :: bool where
  "a_plaintext_request_carries_its_route_connection_and_listed_metadata =
     (let c = copy_context (context_request False False) () context_test_config
      in route_name c = Some ''api'' \<and>
         ctx_connection c =
           \<lparr> conn_id = Some 7, source_address = Some ''10.0.0.7'', source_port = Some 51234,
             destination_address = Some ''10.0.0.9'', destination_port = Some 8443 \<rparr> \<and>
         ctx_tls c = None \<and>
         dynamic_metadata c =
           [\<lparr> ns_name = ''acme.tenant'',
              ns_fields = [(''id'', MString ''t-42''), (''weight'', MNumber three_bits), (''beta'', MBool True),
                (''regions'', MList [MString ''us'', MNumber two_bits])] \<rparr>] \<and>
         route_metadata c = [\<lparr> ns_name = ''acme.tenant'', ns_fields = [(''tier'', MString ''gold'')] \<rparr>])"

lemma a_plaintext_request_holds: a_plaintext_request_carries_its_route_connection_and_listed_metadata
  by code_simp

definition a_client_certificate_is_reported_only_when_one_was_presented :: bool where
  "a_client_certificate_is_reported_only_when_one_was_presented \<longleftrightarrow>
     ctx_tls (copy_context (context_request True False) () context_test_config) =
       Some \<lparr> tls_version = ''TLSv1.3'', tls_server_name = Some ''api.example.com'', tls_peer_certificate = None \<rparr> \<and>
     Option.bind (ctx_tls (copy_context (context_request True True) () context_test_config)) tls_peer_certificate =
       Some \<lparr> cert_subject = Some ''CN=client'', uri_san = Some ''spiffe://example.com/client'', dns_san = None,
              sha256 = Some ''ab12'' \<rparr>"

lemma a_client_certificate_is_reported_holds: a_client_certificate_is_reported_only_when_one_was_presented
  by code_simp

section \<open>Authorities (worker.rs)\<close>

definition authority_is_split_without_corrupting_ipv6_hosts :: bool where
  "authority_is_split_without_corrupting_ipv6_hosts \<longleftrightarrow>
     authority_host ''example.com:8443'' = Some ''example.com'' \<and> authority_port ''example.com:8443'' = Some 8443 \<and>
     authority_host ''[::1]:18083'' = Some ''[::1]'' \<and> authority_port ''[::1]:18083'' = Some 18083 \<and>
     authority_host ''example.com'' = Some ''example.com'' \<and> authority_port ''example.com'' = None"

lemma authority_is_split_holds: authority_is_split_without_corrupting_ipv6_hosts
  by code_simp

section \<open>Header keys and upgrades (rack.rs)\<close>

definition an_upgrade_offers_its_protocols_only_with_connection_upgrade :: bool where
  "an_upgrade_offers_its_protocols_only_with_connection_upgrade \<longleftrightarrow>
     upgrade_protocols [(''connection'', ''keep-alive, Upgrade''), (''upgrade'', ''websocket'')] = Some [''websocket''] \<and>
     upgrade_protocols [(''upgrade'', ''websocket'')] = None \<and>
     upgrade_protocols [(''connection'', ''upgrade'')] = None"

lemma an_upgrade_offers_its_protocols_holds: an_upgrade_offers_its_protocols_only_with_connection_upgrade
  by code_simp

text \<open>How \<open>{:?}\<close> shows the protocol does not matter to the test.\<close>

definition an_accepted_protocol_must_be_one_the_client_offered :: bool where
  "an_accepted_protocol_must_be_one_the_client_offered =
     (let offered = [''websocket''];
          (taken, headers) = accepted_protocol id
            [(''rack.protocol'', ''websocket''), (''Upgrade'', ''h2c''), (''sec-websocket-accept'', ''x'')] (Some offered);
          unoffered = fst (accepted_protocol id [(''rack.protocol'', ''h2c'')] (Some offered));
          no_upgrade = fst (accepted_protocol id [(''rack.protocol'', ''websocket'')] None);
          plain = fst (accepted_protocol id [(''content-type'', ''text/plain'')] (Some offered))
      in taken = Inr (Some ''websocket'') \<and> headers = [(''sec-websocket-accept'', ''x'')] \<and>
         isl unoffered \<and> isl no_upgrade \<and> plain = Inr None)"

lemma an_accepted_protocol_must_be_offered_holds: an_accepted_protocol_must_be_one_the_client_offered
  by code_simp

definition header_names_map_onto_rack_keys :: bool where
  "header_names_map_onto_rack_keys \<longleftrightarrow>
     env_header_key '':method'' = None \<and> env_header_key ''Content-Type'' = Some ''CONTENT_TYPE'' \<and>
     env_header_key ''content-length'' = Some ''CONTENT_LENGTH'' \<and>
     env_header_key ''X-Ruvoy-Test'' = Some ''HTTP_X_RUVOY_TEST''"

lemma header_names_map_onto_rack_keys_holds: header_names_map_onto_rack_keys
  by code_simp

text \<open>The buffer of a key is cleared before it is filled, so the model has none.\<close>

definition a_reused_buffer_carries_nothing_from_the_header_before_it :: bool where
  "a_reused_buffer_carries_nothing_from_the_header_before_it \<longleftrightarrow>
     map env_header_key [''X-A-Very-Long-Header-Name'', ''X-Short''] ! 1 = Some ''HTTP_X_SHORT''"

lemma a_reused_buffer_carries_nothing_holds: a_reused_buffer_carries_nothing_from_the_header_before_it
  by code_simp

text \<open>Sorting and removing neighbours that are equal leaves as many keys as there are different ones.\<close>

definition interned_keys_are_unique :: bool where
  "interned_keys_are_unique \<longleftrightarrow> length (remdups INTERNED_KEYS) = length INTERNED_KEYS"

lemma interned_keys_are_unique_holds: interned_keys_are_unique
  by code_simp

section \<open>A runtime that failed to load (fiber.rs)\<close>

definition failed_runtime_rejects_calls_and_waits_for_final_shutdown :: bool where
  "failed_runtime_rejects_calls_and_waits_for_final_shutdown =
     (let startup_error = Startup ''invalid rackup'';
          world = \<lparr> rf_streams = (\<lambda>_. new_stream 1024), rf_wakes = [], rf_admin = [], rf_acks = [],
            rf_admission = new_budget 1 \<rparr> :: nat retained
      in case try_acquire 1 (rf_admission world) of
           (None, _) \<Rightarrow> False
         | (Some permit1, admission1) \<Rightarrow>
             let call = Cmd_call \<lparr> fc_request = new_request ''GET'' ''/'' [] :: (unit, unit) request, fc_handle = 0,
                          fc_permit = permit1 \<rparr>;
                 (waiting, w1) = retain_failed_runtime startup_error True [call] (world\<lparr>rf_admission := admission1\<rparr>);
                 (ending, w2) = retain_failed_runtime startup_error True
                   [Cmd_shutdown 1 :: ((unit, unit) request, nat) fiber_command] w1
             in waiting = Retain_waiting \<and> rf_wakes w1 = [0] \<and>
                fst (take_next (rf_streams w1 0)) = Some (Failed startup_error) \<and>
                rf_acks w2 = [1] \<and> ending = Retain_returned)"

lemma failed_runtime_rejects_calls_holds: failed_runtime_rejects_calls_and_waits_for_final_shutdown
  by code_simp

section \<open>Parameters of the baseline\<close>

definition benchmark_request_accepts_expected_request_bytes :: bool where
  "benchmark_request_accepts_expected_request_bytes =
     (case parse_benchmark_request ''/benchmark?wait_ms=5&response_bytes=10&expected_request_bytes=1024'' of
        Inl _ \<Rightarrow> False
      | Inr q \<Rightarrow> br_wait_ms q = 5 \<and> br_response_bytes q = 10 \<and> br_expected_request_bytes q = Some 1024)"

lemma benchmark_request_accepts_holds: benchmark_request_accepts_expected_request_bytes
  by code_simp

definition benchmark_request_rejects_oversized_expected_request_bytes :: bool where
  "benchmark_request_rejects_oversized_expected_request_bytes =
     (case parse_benchmark_request (''/benchmark?expected_request_bytes='' @ show_nat (MAX_BODY_BYTES + 1)) of
        Inl error \<Rightarrow> error = ''expected_request_bytes exceeds the 2 MiB limit''
      | Inr _ \<Rightarrow> False)"

lemma benchmark_request_rejects_holds: benchmark_request_rejects_oversized_expected_request_bytes
  by code_simp

section \<open>Configurations (runtime.rs)\<close>

text \<open>What the JSON crate reads in the texts of the tests; any other text is refused.\<close>

definition raw_rackup_only :: "string \<Rightarrow> raw_settings" where
  "raw_rackup_only rackup =
     \<lparr> raw_rackup = rackup, raw_max_inflight = None, raw_shutdown_timeout = None, raw_diagnostics = None \<rparr>"

definition settings_json :: "raw_settings json_reader" where
  \<open>settings_json text1 = ok_or (map_of
     [(''{"rackup": "/srv/app/config.ru"}'', raw_rackup_only ''/srv/app/config.ru''),
      (''{"rackup": ""}'', raw_rackup_only ''''),
      (''{"rackup": "/a", "max_inflight_requests": 0}'', (raw_rackup_only ''/a'')\<lparr>raw_max_inflight := Some 0\<rparr>),
      (''{"rackup": "/a", "shutdown_timeout_ms": 0}'', (raw_rackup_only ''/a'')\<lparr>raw_shutdown_timeout := Some 0\<rparr>)]
     text1) ''not a configuration''\<close>

definition runtime_settings_take_their_documented_defaults :: bool where
  \<open>runtime_settings_take_their_documented_defaults =
     (case parse_settings settings_json ''{"rackup": "/srv/app/config.ru"}'' of
        Inl _ \<Rightarrow> False
      | Inr parsed \<Rightarrow>
          rs_rackup parsed = ''/srv/app/config.ru'' \<and>
          rs_max_inflight_requests parsed = default_max_inflight_requests \<and>
          rs_shutdown_timeout_ms parsed = default_shutdown_timeout_ms \<and> \<not> rs_diagnostics parsed)\<close>

lemma runtime_settings_defaults_hold: runtime_settings_take_their_documented_defaults
  by code_simp

definition runtime_settings_reject_what_could_not_serve :: bool where
  \<open>runtime_settings_reject_what_could_not_serve =
     list_all (\<lambda>encoding. isl (parse_settings settings_json encoding))
       ['''', ''   '', ''/srv/app/config.ru'', ''{"rackup": ""}'', ''{"rackup": 7}'', ''{"rack_up": "/a"}'',
        ''{"rackup": "/a", "max_inflight_requests": 0}'', ''{"rackup": "/a", "shutdown_timeout_ms": 0}'',
        ''{"rackup": "/a", "diagnostics": "yes"}'']\<close>

lemma runtime_settings_reject_holds: runtime_settings_reject_what_could_not_serve
  by code_simp

definition raw_filter_with :: "raw_upstream option \<Rightarrow> raw_filter" where
  "raw_filter_with upstream = \<lparr> rf_rackup = False, rf_context = None, rf_upstream = upstream \<rparr>"

definition raw_upstream_of :: "string list \<Rightarrow> raw_upstream" where
  "raw_upstream_of names =
     \<lparr> ru_clusters = names, ru_timeout_ms = None, ru_max_response_bytes = None, ru_stream_buffer_bytes = None \<rparr>"

definition unusable_upstreams :: "(string \<times> raw_upstream) list" where
  \<open>unusable_upstreams =
     [(''{"upstream": {"clusters": []}}'', raw_upstream_of []),
      (''{"upstream": {"clusters": [""]}}'', raw_upstream_of ['''']),
      (''{"upstream": {"clusters": ["users"], "timeout_ms": 0}}'', (raw_upstream_of [''users''])\<lparr>ru_timeout_ms := Some 0\<rparr>),
      (''{"upstream": {"clusters": ["users"], "max_response_bytes": 0}}'',
       (raw_upstream_of [''users''])\<lparr>ru_max_response_bytes := Some 0\<rparr>)]\<close>

definition filter_json :: "raw_filter json_reader" where
  \<open>filter_json text1 = ok_or (map_of
     ([(''{}'', raw_filter_with None),
       (''{"rackup": "/srv/app/config.ru"}'', (raw_filter_with None)\<lparr>rf_rackup := True\<rparr>),
       (''{"context": {}, "upstream": {"clusters": ["users"]}}'',
        (raw_filter_with (Some (raw_upstream_of [''users''])))\<lparr>rf_context := Some []\<rparr>)] @
      map (\<lambda>(t, u). (t, raw_filter_with (Some u))) unusable_upstreams)
     text1) ''not a configuration''\<close>

definition filter_config_is_optional :: bool where
  \<open>filter_config_is_optional =
     list_all (\<lambda>encoding. case parse_filter_config filter_json encoding of
         Inl _ \<Rightarrow> False | Inr config \<Rightarrow> fc_context config = None \<and> fc_upstream config = None)
       ['''', ''   '', ''{}'']\<close>

lemma filter_config_is_optional_holds: filter_config_is_optional
  by code_simp

definition a_filter_config_that_still_names_the_rackup_is_told_where_it_went :: bool where
  \<open>a_filter_config_that_still_names_the_rackup_is_told_where_it_went =
     list_all (\<lambda>encoding. case parse_filter_config filter_json encoding of
         Inl error \<Rightarrow> sublist ''bootstrap extension'' (display_error error) | Inr _ \<Rightarrow> False)
       [''/srv/app/config.ru'', ''"/srv/app/config.ru"'', ''{"rackup": "/srv/app/config.ru"}'']\<close>

lemma a_filter_config_that_names_the_rackup_holds: a_filter_config_that_still_names_the_rackup_is_told_where_it_went
  by code_simp

definition extension_settings_take_their_documented_defaults :: bool where
  \<open>extension_settings_take_their_documented_defaults =
     (case parse_filter_config filter_json ''{"context": {}, "upstream": {"clusters": ["users"]}}'' of
        Inl _ \<Rightarrow> False
      | Inr config \<Rightarrow>
          fc_context config = Some [] \<and>
          map_option into_settings (fc_upstream config) =
            Some (Inr \<lparr> clusters = [''users''], call_timeout = 15 * 1000000000, max_response_bytes = 1024 * 1024,
                        stream_buffer_bytes = 1024 * 1024 \<rparr>))\<close>

lemma extension_settings_defaults_hold: extension_settings_take_their_documented_defaults
  by code_simp

definition upstream_settings_no_call_could_use_are_refused :: bool where
  "upstream_settings_no_call_could_use_are_refused =
     list_all (\<lambda>(encoding, _). case parse_filter_config filter_json encoding of
         Inl _ \<Rightarrow> False
       | Inr config \<Rightarrow> (case fc_upstream config of None \<Rightarrow> False | Some u \<Rightarrow> isl (into_settings u)))
       unusable_upstreams"

lemma upstream_settings_no_call_could_use_hold: upstream_settings_no_call_could_use_are_refused
  by code_simp

definition a_startup_failure_says_it_survives_the_next_configuration :: bool where
  "a_startup_failure_says_it_survives_the_next_configuration =
     (let message = display_error (terminal_startup_failure (Startup ''no such file''))
      in sublist ''no such file'' message \<and> sublist ''restarted'' message)"

lemma a_startup_failure_says_it_survives_holds: a_startup_failure_says_it_survives_the_next_configuration
  by code_simp

definition active_test_config :: "bool \<Rightarrow> process_config" where
  "active_test_config shown =
     \<lparr> pc_rackup = ''/srv/app/config.ru'', pc_max_inflight_requests = 128, pc_shutdown_timeout = 5 * 1000000000,
       pc_diagnostics_enabled = shown \<rparr>"

definition process_runtime_config_requires_exact_reuse :: bool where
  "process_runtime_config_requires_exact_reuse =
     (let active = active_test_config False
      in active = active \<and> active \<noteq> active\<lparr>pc_rackup := ''/srv/other/config.ru''\<rparr>)"

lemma process_runtime_config_requires_exact_reuse_holds: process_runtime_config_requires_exact_reuse
  by code_simp

text \<open>
  The test prints and parses again; here the printer just shows each field as its name and a
  text of its value.
\<close>

primrec show_json :: "json_value \<Rightarrow> string" where
  "show_json (J_string t) = t"
| "show_json (J_number n) = show_nat (unat n)"
| "show_json (J_bool b) = (if b then ''true'' else ''false'')"

definition the_application_sees_the_settings_it_runs_under :: bool where
  "the_application_sees_the_settings_it_runs_under \<longleftrightarrow>
     ruby_settings_json (\<lambda>fields. concat (map (\<lambda>(k, v). k @ ''='' @ show_json v @ '';'') fields)) ''0.4.0''
       (active_test_config True) =
     ''version=0.4.0;rackup=/srv/app/config.ru;max_inflight_requests=128;shutdown_timeout_ms=5000;diagnostics=true;''"

lemma the_application_sees_the_settings_holds: the_application_sees_the_settings_it_runs_under
  by code_simp

end
