(* ===== verification/Spec2Isabelle.thy ===== *)
theory Spec2Isabelle
  imports Wakeup_Protocol Request_Body Response_Delivery Bootstrap Rack_Input Serial_Filter
    Baseline Module_Pin Example_Programs Build_Scripts Stream_Tests Upstream_Tests Module_Tests
begin

text \<open>
  A verification development of ruvoy, a Ruby (Rack) application runtime that is
  embedded in the Envoy proxy.

  \<^bold>\<open>The program.\<close>  Envoy loads a dynamic module (src/crates/ruvoy-envoy-fiber) whose
  bootstrap extension starts one Ruby VM per process on a thread of its own.  For
  every HTTP stream a filter on one of Envoy's worker threads copies the
  request, submits it to the VM's thread, moves the body there as it arrives, and
  sends downstream what comes back.  On the VM's thread a reactor runs one fiber
  per request.  A fiber may also call other clusters of Envoy; those calls
  travel to the worker and their answers back.  The two sides share bounded queues
  and counters and wake each other through a socket and through scheduled
  events.  Two further modules exist for comparison: a serial runtime (src/src/sync.rs,
  src/crates/ruvoy-envoy-sync) and one that answers without Ruby
  (src/crates/ruvoy-envoy-baseline).

  \<^bold>\<open>Shared vocabulary.\<close>
  \<^item> Prelude: names of machine types, results, reachable states, runs of atomic
    operations, and the interfaces: \<open>inductive_invariant\<close>, \<open>operation_invariant\<close>,
    \<open>write_once\<close> (a cell filled once) and \<open>fifo_channel\<close> (a queue that may be torn
    down), each interpreted on the program's own operations below.
  \<^item> Rust_Text: the string functions of the standard library the code calls,
    lossy UTF-8 decoding among them.
  \<^item> Bridge_Types: requests, responses, contexts and errors (error.rs, request.rs,
    response.rs, context.rs) and the wakeup socket (wake.rs) over a list of answers of the
    operating system.

  \<^bold>\<open>Shared objects.\<close>
  \<^item> Budget (budget.rs): the atomic counter behind admission, its compare-and-swap
    loops as a step relation of any number of threads with stale loads and
    spurious failures; the outstanding leases always add up, and every step refines
    one of an abstract ceiling.
  \<^item> Response_Stream (stream.rs): the bounded queue between a worker and a fiber.  Every
    method takes the lock, so an interleaving is a sequence of operations; order,
    byte count, capacity and the finality of an end are shown for all of them.
  \<^item> Upstream_Route (upstream.rs): the route by which a fiber hands calls to its worker,
    and the channel of a streamed call; everything accepted is handed out once.

  \<^bold>\<open>The worker's side.\<close>
  \<^item> Envoy_Host: what the code asks of Envoy.  Envoy is the record \<open>ehf\<close> of functions
    of a state: its answers, how it changes under a call, and the callbacks it
    makes before a call returns; the log keeps every call in order (metrics.rs included).
  \<^item> Envoy_Context (context.rs), Upstream_Calls (upstream.rs of the module): the copied
    connection facts; sending calls, starting streams, and the state machine of an open
    stream under every interleaving of worker, Envoy and fiber.
  \<^item> Rack_Worker (worker.rs): the filter as a record, the queues and channels it shares as
    a heap (\<open>world\<close>), and one definition for every callback, with reports that
    Envoy makes from inside a call (\<open>call_reentrant\<close>).  The loops over a response queue and
    over an upstream stream are recursive functions with a termination proof, so
    they return whatever Envoy does.
  \<^item> Worker_Properties, Request_Body, Request_End, Stream_Tables: one well-formed answer
    downstream over a whole life, metrics in balance; the request body in order, complete
    and within its budget; nobody left waiting at the end of a request; the tables of
    streams in agreement with their channels in every run, and the loop over a stream
    finished with nothing left to ask.  The tables are hash maps in the code, so the runs of a
    filter may find them in any order.  Sample_Envoy is a concrete Envoy for witnesses.

  \<^bold>\<open>The VM's side.\<close>
  \<^item> Fiber_Client (fiber.rs): commands, admission, owed wakeups, a pass of the reactor,
    running one call, collecting a response; the counter of requests in flight is exact.
  \<^item> Vm_Startup, Fiber_Runtime (vm.rs, fiber.rs): every call made of Ruby while the VM is
    prepared, with a plan it follows whatever Ruby answers; the owner thread, the runtime
    that failed to load, start and shutdown.
  \<^item> Rack_Env (rack.rs): the Rack environment, header translation, upgrade, the response
    and its streaming.  Ruby_Objects (chunks.rs, extensions.rs): the objects the application
    holds: both ends of a chunk queue, the context, upstream calls and streams.
  \<^item> Fiber_Waiting, Rack_Input (stream.rb, upstream.rb, request_body.rb of src/ruby): how a fiber waits at a queue,
    writes a chunk and reads an upstream's answer while the worker acts in between, as a plan of what the worker
    does before each method; the Rack input, which gives the application what a file with the whole
    body would give it, and returns once the end is queued.
  \<^item> Wakeup_Protocol: the two protocols between threads as step relations: commands with
    the socket, and a parked writer with its worker.  It shows what is never lost, and
    two states that are reachable although the code means them not to be.

  \<^bold>\<open>Both sides together.\<close>
  \<^item> Queue_Frame, Response_Delivery: nobody but the drain, a watermark and the filter's
    destruction touches a response queue; the request the filter copied is the one the reactor takes;
    an executed request uses its queue in a fixed order; and in every interleaving the client gets
    exactly what the application put there.

  \<^bold>\<open>The process.\<close>
  \<^item> Runtime_Settings, Process_Runtime, Bootstrap (runtime.rs, lib.rs, bootstrap.rs): both
    configurations over a JSON parser given as a parameter, the write-once statics, the
    one VM of a process, and the bootstrap extension.  Module_Pin (host.rs): keeping the
    module loaded.

  \<^bold>\<open>The other modules.\<close>
  \<^item> Serial_Runtime, Serial_Filter (sync.rs, src/crates/ruvoy-envoy-sync): requests served
    one at a time in order; a whole request from its frames to its one response.
  \<^item> Baseline (src/crates/ruvoy-envoy-baseline): parameters read back within their limits,
    one answer to each request.

  \<^bold>\<open>Around the runtime.\<close>
  \<^item> Stability_Probe (src/examples/fiber_stability_probe.rs): a closed-loop client, and when admission
    refuses it.  Example_Programs (main.rs, bridge_benchmark.rs, fiber_runtime.rs): the demonstration and the benchmark
    composed with the serial runtime, and batches for the fiber runtime.
    Build_Scripts (build.rs of the crates): what is printed for Cargo.
  \<^item> Stream_Tests, Upstream_Tests, Module_Tests: the unit tests of the repository as closed truth
    values with the assertions of the source, evaluated on the model.  Schedule_Explorer runs the tests
    under \<open>cfg(loom)\<close>: it searches every state the threads of a test can reach, and a
    check that passes is shown to hold in every reachable state.

  \<^bold>\<open>Parameters.\<close>  The Envoy SDK, Ruby, the JSON crates, the file system, clocks and
  the operating system are arguments of the definitions that use them.  Where a
  theorem needs documented behaviour of one (draining a body buffer removes bytes from
  its front, a buffer yields no empty slice), it is a hypothesis with a concrete instance
  as witness.  Resolving a fresh variable of the reactor is taken not to raise.

  \<^bold>\<open>Bounds and fuel.\<close>  Integers are words where they can wrap; lengths of data in memory
  are natural numbers.  \<open>strip_spaces\<close> and \<open>split_words\<close> take the length of their text as
  fuel, and each step removes a character, so it is enough.  Loops that wait for the outside take the
  answers of the outside as a list and say when they have not returned after those; a read of the Rack input with
  the end queued needs at most four turns for each queued item and two more, which is shown.  The search
  of Schedule_Explorer takes a number of steps and fails when they are not enough.

  \<^bold>\<open>Not modelled.\<close>  The Ruby files of src/ruby but for the parts above: the reactor loop, which belongs to the Async gem,
  the duplex stream object, the building of upstream calls, lifecycle hooks and offloading; the panic wrapper of the
  SDK around each filter, and panics inside one call of the application; Envoy's routing
  and buffering beyond what the filter asks; \<open>Debug\<close> output and log levels; concurrency.rs
  and the crate root, which only re-export; the TCP server of fiber_runtime.rs and what the examples print;
  the test of the JSON crate's field names and the test that runs the built-in Ruby application; benchmarks and
  end-to-end tests, which are Ruby programs.
\<close>

end
